(* ===== verification/Prelude.thy ===== *)
theory Prelude
  imports Main "HOL-Library.Word" "HOL-Library.List_Lexorder" "HOL-Library.Char_ord"
    "HOL-Library.AList" "HOL-Library.Code_Target_Nat"
begin

text \<open>
  What every component shares: machine integers and bytes, Rust's \<open>Result\<close>,
  big- and little-endian byte arrays, \<open>checked_add\<close> and \<open>saturating_add\<close>, UTF-8
  validity, decimal printing and parsing of integers, and the two map types of
  the Rust standard library the sources use.

  A Rust \<open>BTreeMap\<close> is an association list whose keys strictly increase
  (\<open>bt_sorted\<close>); a \<open>HashMap\<close> is a function into \<open>option\<close>, or an association list
  with distinct keys where the code iterates over it.  A Rust \<open>String\<close> is a
  \<open>string\<close>, each \<open>char\<close> being one byte of its UTF-8 encoding; a \<open>Vec<u8>\<close> is a
  list of \<open>8 word\<close>.
\<close>

section \<open>Integers and results\<close>

type_synonym u8 = "8 word"
type_synonym u16 = "16 word"
type_synonym u32 = "32 word"
type_synonym u64 = "64 word"
type_synonym u128 = "128 word"
type_synonym bytes = "u8 list"
type_synonym ('e, 'a) result = "'e + 'a"

abbreviation Ok :: "'a \<Rightarrow> ('e, 'a) result" where "Ok \<equiv> Inr"
abbreviation Err :: "'e \<Rightarrow> ('e, 'a) result" where "Err \<equiv> Inl"

definition checked_add :: "'a::len word \<Rightarrow> 'a word \<Rightarrow> 'a word option" where
  "checked_add a b = (if a + b < a then None else Some (a + b))"

definition saturating_add :: "'a::len word \<Rightarrow> 'a word \<Rightarrow> 'a word" where
  "saturating_add a b = (if a + b < a then - 1 else a + b)"

definition saturating_sub :: "'a::len word \<Rightarrow> 'a word \<Rightarrow> 'a word" where
  "saturating_sub a b = (if b \<le> a then a - b else 0)"

section \<open>Effectful operations\<close>

text \<open>
  An operation on a state \<open>'s\<close> that may panic (\<open>None\<close>), fail (\<open>Err\<close>) or return.
  \<open>act_bind\<close> is the sequence of two operations with Rust's \<open>?\<close> after the first.
\<close>

type_synonym ('s, 'e, 'a) act = "'s \<Rightarrow> ('e, 'a) result option \<times> 's"

definition act_ok :: "'a \<Rightarrow> ('s, 'e, 'a) act" where
  "act_ok a = (\<lambda>s. (Some (Ok a), s))"

definition act_err :: "'e \<Rightarrow> ('s, 'e, 'a) act" where
  "act_err e = (\<lambda>s. (Some (Err e), s))"

definition act_panic :: "('s, 'e, 'a) act" where
  "act_panic = (\<lambda>s. (None, s))"

definition act_bind :: "('s, 'e, 'a) act \<Rightarrow> ('a \<Rightarrow> ('s, 'e, 'b) act) \<Rightarrow> ('s, 'e, 'b) act" where
  "act_bind m f = (\<lambda>s. case m s of
      (None, s') \<Rightarrow> (None, s')
    | (Some (Err e), s') \<Rightarrow> (Some (Err e), s')
    | (Some (Ok a), s') \<Rightarrow> f a s')"

definition act_of_result :: "('e, 'a) result \<Rightarrow> ('s, 'e, 'a) act" where
  "act_of_result r = (\<lambda>s. (Some r, s))"

text \<open>\<open>map_err\<close>, and running an operation to look at its \<open>Result\<close> instead of propagating it.\<close>

definition act_map_err :: "('e \<Rightarrow> 'f) \<Rightarrow> ('s, 'e, 'a) act \<Rightarrow> ('s, 'f, 'a) act" where
  "act_map_err g m = (\<lambda>s. case m s of (r, s') \<Rightarrow> (map_option (map_sum g id) r, s'))"

definition act_try :: "('s, 'e, 'a) act \<Rightarrow> ('s, 'f, ('e, 'a) result) act" where
  "act_try m = (\<lambda>s. case m s of (r, s') \<Rightarrow> (map_option Ok r, s'))"

primrec act_for :: "'x list \<Rightarrow> ('x \<Rightarrow> ('s, 'e, unit) act) \<Rightarrow> ('s, 'e, unit) act" where
  "act_for [] f = act_ok ()"
| "act_for (x # xs) f = act_bind (f x) (\<lambda>_. act_for xs f)"

section \<open>Byte arrays\<close>

text \<open>\<open>to_be_bytes\<close> and \<open>from_be_bytes\<close> of an integer of \<open>n\<close> bytes.\<close>

primrec be_bytes :: "nat \<Rightarrow> 'a::len word \<Rightarrow> bytes" where
  "be_bytes 0 w = []"
| "be_bytes (Suc n) w = be_bytes n (drop_bit 8 w) @ [ucast w]"

definition of_be_bytes :: "bytes \<Rightarrow> 'a::len word" where
  "of_be_bytes bs = foldl (\<lambda>acc b. or (push_bit 8 acc) (ucast b)) 0 bs"

definition le_bytes :: "nat \<Rightarrow> 'a::len word \<Rightarrow> bytes" where
  "le_bytes n w = rev (be_bytes n w)"

section \<open>Strings as UTF-8 bytes\<close>

definition as_bytes :: "string \<Rightarrow> bytes" where
  "as_bytes s = map of_char s"

definition of_bytes :: "bytes \<Rightarrow> string" where
  "of_bytes bs = map (\<lambda>b. char_of (unat b)) bs"

definition utf8_cont :: "u8 \<Rightarrow> bool" where
  "utf8_cont b \<longleftrightarrow> 0x80 \<le> b \<and> b \<le> 0xBF"

text \<open>
  The length of the next chunk of the input and whether it is one encoded character,
  by Unicode's table of well-formed byte sequences.
\<close>

definition utf8_step :: "bytes \<Rightarrow> nat \<times> bool" where
  "utf8_step bs = (case bs of
      [] \<Rightarrow> (0, False)
    | a # r \<Rightarrow>
        if a \<le> 0x7F then (1, True)
        else if 0xC2 \<le> a \<and> a \<le> 0xDF then
          (case r of b # _ \<Rightarrow> if utf8_cont b then (2, True) else (1, False) | [] \<Rightarrow> (1, False))
        else if 0xE0 \<le> a \<and> a \<le> 0xEF then
          (case r of
             b # r' \<Rightarrow>
               if (if a = 0xE0 then 0xA0 \<le> b \<and> b \<le> 0xBF
                   else if a = 0xED then 0x80 \<le> b \<and> b \<le> 0x9F else utf8_cont b)
               then (case r' of c # _ \<Rightarrow> if utf8_cont c then (3, True) else (2, False) | [] \<Rightarrow> (2, False))
               else (1, False)
           | [] \<Rightarrow> (1, False))
        else if 0xF0 \<le> a \<and> a \<le> 0xF4 then
          (case r of
             b # r' \<Rightarrow>
               if (if a = 0xF0 then 0x90 \<le> b \<and> b \<le> 0xBF
                   else if a = 0xF4 then 0x80 \<le> b \<and> b \<le> 0x8F else utf8_cont b)
               then (case r' of
                   c # r'' \<Rightarrow>
                     if utf8_cont c
                     then (case r'' of d # _ \<Rightarrow> if utf8_cont d then (4, True) else (3, False) | [] \<Rightarrow> (3, False))
                     else (2, False)
                 | [] \<Rightarrow> (2, False))
               else (1, False)
           | [] \<Rightarrow> (1, False))
        else (1, False))"

lemma utf8_step_pos: "bs \<noteq> [] \<Longrightarrow> 0 < fst (utf8_step bs)"
  by (auto simp: utf8_step_def split: list.splits)

lemma utf8_step_shrinks: "bs \<noteq> [] \<Longrightarrow> (n, ok) = utf8_step bs \<Longrightarrow> length bs - n < length bs"
  using utf8_step_pos [of bs] by (metis diff_less fst_conv length_greater_0_conv)

text \<open>\<open>std::str::from_utf8\<close>.\<close>

function utf8_valid :: "bytes \<Rightarrow> bool" where
  "utf8_valid bs =
    (if bs = [] then True else let (n, ok) = utf8_step bs in ok \<and> utf8_valid (drop n bs))"
  by auto
termination
  by (relation "measure length") (auto simp: utf8_step_shrinks)

declare utf8_valid.simps [simp del]

definition from_utf8 :: "bytes \<Rightarrow> string option" where
  "from_utf8 bs = (if utf8_valid bs then Some (of_bytes bs) else None)"

section \<open>Ordered maps\<close>

type_synonym ('k, 'v) btree = "('k \<times> 'v) list"

definition bt_sorted :: "('k::linorder, 'v) btree \<Rightarrow> bool" where
  "bt_sorted m \<longleftrightarrow> sorted_wrt (<) (map fst m)"

fun bt_insert :: "'k::linorder \<Rightarrow> 'v \<Rightarrow> ('k, 'v) btree \<Rightarrow> ('k, 'v) btree" where
  "bt_insert k v [] = [(k, v)]"
| "bt_insert k v (e # m) =
    (if k = fst e then (k, v) # m
     else if k < fst e then (k, v) # e # m
     else e # bt_insert k v m)"

definition bt_get :: "('k, 'v) btree \<Rightarrow> 'k \<Rightarrow> 'v option" where
  "bt_get m k = map_of m k"

definition bt_remove :: "'k \<Rightarrow> ('k, 'v) btree \<Rightarrow> ('k, 'v) btree" where
  "bt_remove k m = filter (\<lambda>e. fst e \<noteq> k) m"

text \<open>Collecting an iterator of pairs into an ordered map.\<close>

definition bt_collect :: "('k::linorder \<times> 'v) list \<Rightarrow> ('k, 'v) btree" where
  "bt_collect es = fold (\<lambda>(k, v) m. bt_insert k v m) es []"

section \<open>Named collections\<close>

named_theorems btree_simps \<open>lookup laws of the ordered maps\<close>
named_theorems wf_intros \<open>preservation of the well-formedness invariants\<close>

named_theorems act_simps \<open>running effectful operations\<close>

section \<open>Laws of the effectful operations\<close>

lemma act_run [act_simps]:
  "act_ok a s = (Some (Ok a), s)" "act_err e s = (Some (Err e), s)" "act_panic s = (None, s)"
  "act_of_result r s = (Some r, s)"
  by (simp_all add: act_ok_def act_err_def act_panic_def act_of_result_def)

lemma act_bind_run [act_simps]:
  "m s = (Some (Ok a), s') \<Longrightarrow> act_bind m f s = f a s'"
  "m s = (Some (Err e), s') \<Longrightarrow> act_bind m f s = (Some (Err e), s')"
  "m s = (None, s') \<Longrightarrow> act_bind m f s = (None, s')"
  by (simp_all add: act_bind_def)

lemma act_map_err_run [act_simps]:
  "m s = (Some (Ok a), s') \<Longrightarrow> act_map_err g m s = (Some (Ok a), s')"
  "m s = (Some (Err e), s') \<Longrightarrow> act_map_err g m s = (Some (Err (g e)), s')"
  "m s = (None, s') \<Longrightarrow> act_map_err g m s = (None, s')"
  by (simp_all add: act_map_err_def)

lemma act_try_run [act_simps]:
  "m s = (Some r, s') \<Longrightarrow> act_try m s = (Some (Ok r), s')"
  "m s = (None, s') \<Longrightarrow> act_try m s = (None, s')"
  by (simp_all add: act_try_def)

lemma act_bind_result [act_simps]:
  "act_bind (act_of_result r) f s = (case r of Err e \<Rightarrow> (Some (Err e), s) | Ok a \<Rightarrow> f a s)"
  by (simp add: act_bind_def act_of_result_def split: sum.splits)

lemma act_bind_map_result [act_simps]:
  "act_bind (act_map_err g (act_of_result r)) f s =
    (case r of Err e \<Rightarrow> (Some (Err (g e)), s) | Ok a \<Rightarrow> f a s)"
  by (simp add: act_bind_def act_map_err_def act_of_result_def split: sum.splits)

lemma act_bind_Ok_iff:
  "act_bind m f s = (Some (Ok b), t) \<longleftrightarrow>
    (\<exists>a s'. m s = (Some (Ok a), s') \<and> f a s' = (Some (Ok b), t))"
  by (auto simp: act_bind_def split: prod.splits option.splits sum.splits)

text \<open>An invariant every operation keeps, whatever its outcome.\<close>

definition act_keeps :: "('s \<Rightarrow> bool) \<Rightarrow> ('s, 'e, 'a) act \<Rightarrow> bool" where
  "act_keeps P m \<longleftrightarrow> (\<forall>s. P s \<longrightarrow> P (snd (m s)))"

lemma act_keeps_bind: "act_keeps P m \<Longrightarrow> (\<And>a. act_keeps P (f a)) \<Longrightarrow> act_keeps P (act_bind m f)"
  by (fastforce simp: act_keeps_def act_bind_def split: prod.splits option.splits sum.splits)

lemma act_keeps_simple [simp]:
  "act_keeps P (act_ok a)" "act_keeps P (act_err e)" "act_keeps P act_panic"
  "act_keeps P (act_of_result r)"
  by (simp_all add: act_keeps_def act_simps)

lemma act_keeps_map_err [simp]: "act_keeps P (act_map_err g m) \<longleftrightarrow> act_keeps P m"
  by (simp add: act_keeps_def act_map_err_def case_prod_unfold)

lemma act_keeps_try [simp]: "act_keeps P (act_try m) \<longleftrightarrow> act_keeps P m"
  by (simp add: act_keeps_def act_try_def case_prod_unfold)

lemma act_keeps_for: "(\<And>x. x \<in> set xs \<Longrightarrow> act_keeps P (f x)) \<Longrightarrow> act_keeps P (act_for xs f)"
  by (induction xs) (auto intro: act_keeps_bind)

text \<open>Operations that only move the state forward in a preorder.\<close>

definition act_moves :: "('s \<Rightarrow> 's \<Rightarrow> bool) \<Rightarrow> ('s, 'e, 'a) act \<Rightarrow> bool" where
  "act_moves R m \<longleftrightarrow> (\<forall>s. R s (snd (m s)))"

lemma act_moves_bind:
  assumes "transp R" "act_moves R m" "\<And>a. act_moves R (f a)"
  shows "act_moves R (act_bind m f)"
  unfolding act_moves_def
proof
  fix s
  obtain r t where m: "m s = (r, t)" by fastforce
  have "R s t" using assms(2) m by (metis act_moves_def snd_conv)
  moreover have "R t (snd (f a t))" for a using assms(3) by (simp add: act_moves_def)
  ultimately show "R s (snd (act_bind m f s))"
    using m assms(1) by (auto simp: act_bind_def transp_def split: option.splits sum.splits)
qed

lemma act_moves_simple:
  "reflp R \<Longrightarrow> act_moves R (act_ok a)" "reflp R \<Longrightarrow> act_moves R (act_err e)"
  "reflp R \<Longrightarrow> act_moves R (act_of_result r)"
  by (auto simp: act_moves_def act_ok_def act_err_def act_of_result_def reflp_def)

lemma act_moves_try: "act_moves R m \<Longrightarrow> act_moves R (act_try m)"
  by (auto simp: act_moves_def act_try_def case_prod_unfold)

lemma act_moves_for: "reflp R \<Longrightarrow> transp R \<Longrightarrow> (\<And>x. act_moves R (f x)) \<Longrightarrow> act_moves R (act_for xs f)"
  by (induction xs) (simp_all add: act_moves_simple act_moves_bind)

section \<open>Laws of the integer operations\<close>

lemma add_wraps_iff: "a + b < a \<longleftrightarrow> 2 ^ LENGTH('a) \<le> unat a + unat b" for a b :: "'a::len word"
proof -
  let ?m = "2 ^ LENGTH('a) :: nat"
  have lt: "unat a < ?m" "unat b < ?m" by (rule unsigned_less)+
  have "(unat a + unat b) mod ?m < unat a \<longleftrightarrow> ?m \<le> unat a + unat b"
  proof (cases "unat a + unat b < ?m")
    case False
    then have "(unat a + unat b) mod ?m = (unat a + unat b - ?m) mod ?m" by (simp add: le_mod_geq)
    also have "\<dots> = unat a + unat b - ?m" using lt False by (intro mod_less) linarith
    finally have "(unat a + unat b) mod ?m = unat a + unat b - ?m" .
    then show ?thesis using False lt by linarith
  qed simp
  then show ?thesis by (simp only: word_less_nat_alt unat_word_ariths)
qed

lemma checked_add_Some:
  "checked_add a b = Some c \<longleftrightarrow> unat a + unat b < 2 ^ LENGTH('a) \<and> c = a + b"
  for a b c :: "'a::len word"
  by (auto simp: checked_add_def add_wraps_iff not_le)

lemma unat_checked_add:
  "checked_add a b = Some c \<Longrightarrow> unat c = unat a + unat b" for a b c :: "'a::len word"
  by (auto simp: checked_add_Some unat_word_ariths)

lemma unat_saturating_add:
  "unat (saturating_add a b) = min (unat a + unat b) (2 ^ LENGTH('a) - 1)"
  for a b :: "'a::len word"
  by (auto simp: saturating_add_def add_wraps_iff not_le unat_word_ariths unsigned_minus_1_eq_mask mask_eq_exp_minus_1 min_def)

lemma saturating_add_mono: "a \<le> saturating_add a b" for a b :: "'a::len word"
proof -
  have "unat a < 2 ^ LENGTH('a)" by (rule unsigned_less)
  then have "unat a \<le> 2 ^ LENGTH('a) - 1" by linarith
  then show ?thesis by (simp add: word_le_nat_alt unat_saturating_add)
qed

section \<open>Laws of the byte arrays\<close>

lemma length_be_bytes [simp]: "length (be_bytes n w) = n"
  by (induction n arbitrary: w) auto

lemma of_be_bytes_snoc:
  "of_be_bytes (bs @ [b]) = or (push_bit 8 (of_be_bytes bs)) (ucast b)"
  by (simp add: of_be_bytes_def)

lemma of_be_bytes_be_bytes: "of_be_bytes (be_bytes n w) = take_bit (8 * n) w"
proof (induction n arbitrary: w)
  case 0
  show ?case by (simp add: of_be_bytes_def)
next
  case (Suc n)
  have "or (push_bit 8 (take_bit (8 * n) (drop_bit 8 w))) (ucast (ucast w :: u8)) =
      take_bit (8 * Suc n) w"
    by (rule bit_word_eqI)
      (auto simp: bit_or_iff bit_push_bit_iff bit_take_bit_iff bit_drop_bit_eq bit_unsigned_iff)
  then show ?case by (simp add: of_be_bytes_snoc Suc.IH)
qed

lemma of_be_bytes_roundtrip:
  "8 * n = LENGTH('a) \<Longrightarrow> of_be_bytes (be_bytes n w) = w" for w :: "'a::len word"
  by (simp add: of_be_bytes_be_bytes)

lemma drop_bit_snoc_byte:
  "drop_bit 8 (or (push_bit 8 w) (ucast b)) = take_bit (LENGTH('a) - 8) w"
  for w :: "'a::len word" and b :: u8
proof (rule bit_word_eqI)
  fix n assume "n < LENGTH('a)"
  have "\<not> bit b (8 + n)" using bit_imp_le_length [of b "8 + n"] by auto
  then show "bit (drop_bit 8 (or (push_bit 8 w) (ucast b))) n = bit (take_bit (LENGTH('a) - 8) w) n"
    by (simp add: bit_or_iff bit_push_bit_iff bit_take_bit_iff bit_drop_bit_eq bit_unsigned_iff
        less_diff_conv ac_simps)
qed

lemma ucast_snoc_byte: "8 \<le> LENGTH('a) \<Longrightarrow> ucast (or (push_bit 8 w) (ucast b)) = b"
  for w :: "'a::len word" and b :: u8
  by (rule bit_word_eqI) (simp add: bit_or_iff bit_push_bit_iff bit_unsigned_iff)

lemma be_bytes_of_be_bytes:
  "8 * length bs \<le> LENGTH('a) \<Longrightarrow> be_bytes (length bs) (of_be_bytes bs :: 'a::len word) = bs"
proof (induction bs rule: rev_induct)
  case (snoc b bs)
  let ?w = "of_be_bytes bs :: 'a word" and ?n = "8 * length bs"
  have len: "?n \<le> LENGTH('a) - 8" "8 \<le> LENGTH('a)" "?n \<le> LENGTH('a)"
    using snoc.prems by simp_all
  have bs: "be_bytes (length bs) ?w = bs" using snoc.IH len(3) .
  then have "?w = take_bit ?n ?w" using of_be_bytes_be_bytes [of "length bs" ?w] by simp
  then have "take_bit (LENGTH('a) - 8) ?w = ?w"
    using len(1) by (metis min.absorb2 take_bit_take_bit)
  then have "be_bytes (Suc (length bs)) (of_be_bytes (bs @ [b]) :: 'a word) = bs @ [b]"
    by (simp only: of_be_bytes_snoc be_bytes.simps drop_bit_snoc_byte
        ucast_snoc_byte [OF len(2)] bs)
  then show ?case by simp
qed simp

lemma be_bytes_inj:
  "8 * n = LENGTH('a) \<Longrightarrow> be_bytes n v = be_bytes n w \<longleftrightarrow> v = w" for v w :: "'a::len word"
  by (metis of_be_bytes_roundtrip)

section \<open>Laws of the strings\<close>

lemma unat_of_char [simp]: "unat (of_char c :: u8) = of_char c"
proof -
  have "unat (of_char c :: u8) = unat (of_nat (of_char c) :: u8)"
    by (simp only: of_nat_of_char)
  also have "\<dots> = of_char c"
    using nat_of_char_less_256 [of c] by (simp only: unat_of_nat) simp
  finally show ?thesis .
qed

lemma of_bytes_as_bytes [simp]: "of_bytes (as_bytes s) = s"
  by (simp add: of_bytes_def as_bytes_def comp_def)

lemma of_char_char_of_unat: "of_char (char_of (unat b)) = b" for b :: u8
proof -
  have "of_char (char_of (unat b)) = (of_nat (of_char (char_of (unat b))) :: u8)"
    by (rule of_nat_of_char [symmetric])
  also have "\<dots> = b"
    using unsigned_less [of b, where ?'a = nat] by (simp only: of_char_of) simp
  finally show ?thesis .
qed

lemma as_bytes_of_bytes [simp]: "as_bytes (of_bytes bs) = bs"
  by (simp add: of_bytes_def as_bytes_def comp_def of_char_char_of_unat)

lemma length_as_bytes [simp]: "length (as_bytes s) = length s"
  by (simp add: as_bytes_def)

lemma length_of_bytes [simp]: "length (of_bytes bs) = length bs"
  by (simp add: of_bytes_def)

lemma as_bytes_append [simp]: "as_bytes (s @ t) = as_bytes s @ as_bytes t"
  by (simp add: as_bytes_def)

lemma as_bytes_inj [simp]: "as_bytes s = as_bytes t \<longleftrightarrow> s = t"
  by (metis of_bytes_as_bytes)

lemma utf8_valid_ascii: "list_all (\<lambda>b. b \<le> 0x7F) bs \<Longrightarrow> utf8_valid bs"
proof (induction bs)
  case (Cons a r)
  then show ?case by (simp add: utf8_valid.simps [of "a # r"] utf8_step_def)
qed (simp add: utf8_valid.simps)

lemma from_utf8_as_bytes: "utf8_valid (as_bytes s) \<Longrightarrow> from_utf8 (as_bytes s) = Some s"
  by (simp add: from_utf8_def)

lemma from_utf8_SomeD: "from_utf8 bs = Some s \<Longrightarrow> as_bytes s = bs \<and> utf8_valid bs"
  by (auto simp: from_utf8_def split: if_splits)

section \<open>Laws of the ordered maps\<close>

lemma bt_sorted_Nil [simp, wf_intros]: "bt_sorted []"
  by (simp add: bt_sorted_def)

lemma bt_sorted_Cons: "bt_sorted (e # m) \<longleftrightarrow> (\<forall>k \<in> fst ` set m. fst e < k) \<and> bt_sorted m"
  by (auto simp: bt_sorted_def)

lemma bt_sorted_distinct: "bt_sorted m \<Longrightarrow> distinct (map fst m)"
  by (auto simp: bt_sorted_def strict_sorted_iff)

lemma bt_insert_keys [simp]: "fst ` set (bt_insert k v m) = insert k (fst ` set m)"
  by (induction m) auto

lemma set_bt_insert: "set (bt_insert k v m) \<subseteq> insert (k, v) (set m)"
  by (induction m) auto

lemma length_bt_insert_le: "length (bt_insert k v m) \<le> Suc (length m)"
  by (induction m) auto

lemma bt_sorted_insert [wf_intros]: "bt_sorted m \<Longrightarrow> bt_sorted (bt_insert k v m)"
  by (induction m) (auto simp: bt_sorted_Cons)

lemma bt_sorted_filter [wf_intros]: "bt_sorted m \<Longrightarrow> bt_sorted (filter P m)"
  by (induction m) (auto simp: bt_sorted_Cons)

lemma bt_sorted_remove [wf_intros]: "bt_sorted m \<Longrightarrow> bt_sorted (bt_remove k m)"
  by (simp add: bt_remove_def bt_sorted_filter)

lemma bt_get_Nil [simp]: "bt_get [] k = None"
  by (simp add: bt_get_def)

lemma bt_get_Cons [simp]: "bt_get (e # m) k = (if k = fst e then Some (snd e) else bt_get m k)"
  by (cases e) (simp add: bt_get_def)

lemma bt_get_insert [btree_simps]:
  "bt_sorted m \<Longrightarrow> bt_get (bt_insert k v m) k' = (if k' = k then Some v else bt_get m k')"
  by (induction m) (auto simp: bt_sorted_Cons)

lemma bt_get_remove [btree_simps]:
  "bt_get (bt_remove k m) k' = (if k' = k then None else bt_get m k')"
  by (induction m) (auto simp: bt_remove_def)

lemma bt_get_None_iff: "bt_get m k = None \<longleftrightarrow> k \<notin> fst ` set m"
  by (simp add: bt_get_def map_of_eq_None_iff)

lemma bt_get_Some_iff: "bt_sorted m \<Longrightarrow> bt_get m k = Some v \<longleftrightarrow> (k, v) \<in> set m"
  by (simp add: bt_get_def bt_sorted_distinct)

lemma length_bt_insert:
  "bt_sorted m \<Longrightarrow> length (bt_insert k v m) = (if k \<in> fst ` set m then length m else Suc (length m))"
  by (induction m) (auto simp: bt_sorted_Cons)

lemma bt_insert_snoc:
  "\<forall>k' \<in> fst ` set m. k' < k \<Longrightarrow> bt_insert k v m = m @ [(k, v)]"
  by (induction m) auto

text \<open>Two ordered maps with the same lookups are the same map.\<close>

lemma bt_conv_keys:
  assumes "bt_sorted m"
  shows "map (\<lambda>k. (k, the (bt_get m k))) (map fst m) = m"
proof -
  have "map (\<lambda>e. (fst e, the (bt_get m (fst e)))) m = map (\<lambda>e. e) m"
  proof (rule map_cong [OF refl])
    fix e assume "e \<in> set m"
    then have "bt_get m (fst e) = Some (snd e)"
      using bt_get_Some_iff [OF assms] by simp
    then show "(fst e, the (bt_get m (fst e))) = e" by simp
  qed
  then show ?thesis by (simp add: comp_def)
qed

lemma bt_ext:
  assumes "bt_sorted m" "bt_sorted m'" "\<And>k. bt_get m k = bt_get m' k"
  shows "m = m'"
proof -
  have "fst ` set m = fst ` set m'"
  proof (rule set_eqI)
    show "k \<in> fst ` set m \<longleftrightarrow> k \<in> fst ` set m'" for k
      using assms(3) [of k] bt_get_None_iff [of m k] bt_get_None_iff [of m' k] by simp
  qed
  then have "map fst m = map fst m'"
    using assms(1,2) by (intro strict_sorted_equal) (auto simp: bt_sorted_def)
  then have "map (\<lambda>k. (k, the (bt_get m k))) (map fst m) =
      map (\<lambda>k. (k, the (bt_get m' k))) (map fst m')"
    by (simp only: assms(3))
  then show ?thesis by (simp only: bt_conv_keys assms(1,2))
qed

lemma bt_fold_insert_sorted [wf_intros]:
  "bt_sorted m \<Longrightarrow> bt_sorted (fold (\<lambda>(k, v) m. bt_insert k v m) es m)"
  by (induction es arbitrary: m) (auto simp: wf_intros)

lemma bt_sorted_collect [wf_intros]: "bt_sorted (bt_collect es)"
  by (simp add: bt_collect_def wf_intros)

lemma bt_fold_insert_append:
  "bt_sorted (m @ es) \<Longrightarrow> fold (\<lambda>(k, v) m. bt_insert k v m) es m = m @ es"
proof (induction es arbitrary: m)
  case (Cons e es)
  then have "\<forall>k \<in> fst ` set m. k < fst e" by (auto simp: bt_sorted_def sorted_wrt_append)
  then have "bt_insert (fst e) (snd e) m = m @ [e]" by (simp add: bt_insert_snoc)
  then show ?case using Cons by (cases e) simp
qed simp

lemma bt_collect_sorted: "bt_sorted es \<Longrightarrow> bt_collect es = es"
  by (simp add: bt_collect_def bt_fold_insert_append)

end
