(* ===== verification/Text.thy ===== *)
theory Text
  imports Prelude
begin

text \<open>
  The text operations of the Rust standard library the sources use: decimal
  printing and parsing of integers, \<open>splitn\<close>, and \<open>String::from_utf8_lossy\<close>.
\<close>

section \<open>Decimal numbers\<close>

definition digit_char :: "nat \<Rightarrow> char" where
  "digit_char d = char_of (48 + d)"

definition is_digit :: "char \<Rightarrow> bool" where
  "is_digit c \<longleftrightarrow> 48 \<le> (of_char c :: nat) \<and> (of_char c :: nat) \<le> 57"

definition digit_value :: "char \<Rightarrow> nat" where
  "digit_value c = of_char c - 48"

text \<open>\<open>to_string\<close> of an unsigned integer.\<close>

fun show_nat :: "nat \<Rightarrow> string" where
  "show_nat n = (if n < 10 then [digit_char n] else show_nat (n div 10) @ [digit_char (n mod 10)])"

declare show_nat.simps [simp del]

definition show_int :: "int \<Rightarrow> string" where
  "show_int i = (if i < 0 then CHR ''-'' # show_nat (nat (- i)) else show_nat (nat i))"

definition digits_value :: "string \<Rightarrow> nat" where
  "digits_value s = foldl (\<lambda>acc c. acc * 10 + digit_value c) 0 s"

definition parse_digits :: "string \<Rightarrow> nat option" where
  "parse_digits s = (if s \<noteq> [] \<and> list_all is_digit s then Some (digits_value s) else None)"

text \<open>\<open>str::parse\<close> for \<open>u64\<close> and \<open>i64\<close>: an optional sign, digits, no overflow.\<close>

definition parse_u64 :: "string \<Rightarrow> u64 option" where
  "parse_u64 s =
    (case parse_digits (case s of [] \<Rightarrow> [] | c # r \<Rightarrow> if c = CHR ''+'' then r else s) of
       None \<Rightarrow> None
     | Some n \<Rightarrow> if n < 2 ^ 64 then Some (word_of_nat n) else None)"

definition parse_i64 :: "string \<Rightarrow> int option" where
  "parse_i64 s =
    (case s of
       [] \<Rightarrow> None
     | c # r \<Rightarrow>
         if c = CHR ''-'' then
           (case parse_digits r of None \<Rightarrow> None
            | Some n \<Rightarrow> if n \<le> 2 ^ 63 then Some (- int n) else None)
         else
           (case parse_digits (if c = CHR ''+'' then r else s) of None \<Rightarrow> None
            | Some n \<Rightarrow> if n < 2 ^ 63 then Some (int n) else None))"

section \<open>Splitting\<close>

fun splitn :: "nat \<Rightarrow> char \<Rightarrow> string \<Rightarrow> string list" where
  "splitn 0 c s = []"
| "splitn (Suc 0) c s = [s]"
| "splitn (Suc (Suc n)) c s =
    (if c \<in> set s
     then takeWhile (\<lambda>x. x \<noteq> c) s # splitn (Suc n) c (tl (dropWhile (\<lambda>x. x \<noteq> c) s))
     else [s])"

section \<open>Lossy UTF-8\<close>

function lossy_bytes :: "bytes \<Rightarrow> bytes" where
  "lossy_bytes bs =
    (if bs = [] then []
     else let (n, ok) = utf8_step bs in (if ok then take n bs else [0xEF, 0xBF, 0xBD]) @ lossy_bytes (drop n bs))"
  by auto
termination
  by (relation "measure length") (auto simp: utf8_step_shrinks)

declare lossy_bytes.simps [simp del]

definition from_utf8_lossy :: "bytes \<Rightarrow> string" where
  "from_utf8_lossy bs = of_bytes (lossy_bytes bs)"

section \<open>Laws\<close>

lemma lossy_valid: "utf8_valid bs \<Longrightarrow> lossy_bytes bs = bs"
proof (induction bs rule: lossy_bytes.induct)
  case (1 bs)
  obtain n ok where st: "utf8_step bs = (n, ok)" by fastforce
  show ?case
  proof (cases "bs = []")
    case False
    then have "ok" "utf8_valid (drop n bs)" using 1(2) st by (simp_all add: utf8_valid.simps [of bs])
    then show ?thesis using 1(1) [OF False] False st by (simp add: lossy_bytes.simps [of bs])
  qed (simp add: lossy_bytes.simps)
qed

lemma from_utf8_lossy_valid: "utf8_valid (as_bytes s) \<Longrightarrow> from_utf8_lossy (as_bytes s) = s"
  by (simp add: from_utf8_lossy_def lossy_valid)

lemma of_char_digit: "d < 10 \<Longrightarrow> (of_char (digit_char d) :: nat) = 48 + d"
  by (simp add: digit_char_def)

lemma digit_char_laws: "d < 10 \<Longrightarrow> is_digit (digit_char d) \<and> digit_value (digit_char d) = d"
  by (simp add: is_digit_def digit_value_def of_char_digit)

lemma show_nat_laws: "show_nat n \<noteq> [] \<and> list_all is_digit (show_nat n) \<and> digits_value (show_nat n) = n"
proof (induction n rule: show_nat.induct)
  case (1 n)
  show ?case
  proof (cases "n < 10")
    case True
    then show ?thesis by (simp add: show_nat.simps [of n] digit_char_laws digits_value_def)
  next
    case False
    then show ?thesis
      using 1 by (simp add: show_nat.simps [of n] digit_char_laws digits_value_def)
  qed
qed

lemma parse_show_nat: "parse_digits (show_nat n) = Some n"
  using show_nat_laws [of n] by (simp add: parse_digits_def)

lemma show_nat_first: "show_nat n = c # r \<Longrightarrow> is_digit c"
  using show_nat_laws [of n] by auto

lemma digit_not_sign: "is_digit c \<Longrightarrow> c \<noteq> CHR ''+'' \<and> c \<noteq> CHR ''-'' \<and> c \<noteq> CHR ''/''"
  by (auto simp: is_digit_def)

lemma parse_u64_show: "parse_u64 (show_nat (unat w)) = Some w"
proof -
  obtain c r where s: "show_nat (unat w) = c # r" using show_nat_laws [of "unat w"] by (cases "show_nat (unat w)") auto
  then have "c \<noteq> CHR ''+''" using show_nat_first digit_not_sign by blast
  moreover have "unat w < 2 ^ 64" using unsigned_less [of w, where ?'a = nat] by simp
  ultimately show ?thesis using s parse_show_nat [of "unat w"] by (simp add: parse_u64_def)
qed

lemma parse_i64_show:
  assumes "- (2 ^ 63) \<le> i" "i < 2 ^ 63"
  shows "parse_i64 (show_int i) = Some i"
proof (cases "i < 0")
  case True
  then show ?thesis using assms by (simp add: show_int_def parse_i64_def parse_show_nat nat_le_iff)
next
  case False
  obtain c r where s: "show_nat (nat i) = c # r" using show_nat_laws [of "nat i"] by (cases "show_nat (nat i)") auto
  then have "c \<noteq> CHR ''+''" "c \<noteq> CHR ''-''" using show_nat_first digit_not_sign by blast+
  then show ?thesis
    using False assms s parse_show_nat [of "nat i"] by (simp add: show_int_def parse_i64_def nat_less_iff)
qed

end
