(* ===== verification/Hlc.thy ===== *)
theory Hlc
  imports Text
begin

text \<open>
  Node identifiers and hybrid logical clock values
  (\<open>crates/bashfuldb-clock/src/node_id.rs\<close>, \<open>hlc.rs\<close>, \<open>error.rs\<close>).  A \<open>NodeId\<close> is
  the 128-bit value of its UUID, ordered as the UUID's big-endian bytes are; an
  \<open>Hlc\<close> is a \<open>u64\<close> with 48 bits of milliseconds above 16 bits of logical counter.
  A function that may panic returns an \<open>option\<close>, with \<open>None\<close> for the panic.
\<close>

datatype node_id = NodeId (as_uuid: u128)

datatype hlc = Hlc (to_u64: u64)

datatype clock_error =
    VectorClockCapacityExceeded
  | ClockSkew (expected_ms: u64) (got_ms: u64)
  | LogicalOverflow u64
  | PhysicalOverflow u64

definition show_clock_error :: "clock_error \<Rightarrow> string" where
  "show_clock_error e =
    (case e of
       VectorClockCapacityExceeded \<Rightarrow> ''vector clock capacity exceeded (max 4096 entries)''
     | ClockSkew expected got \<Rightarrow> ''physical clock moved backward: got '' @ show_nat (unat got)
         @ '', expected >= '' @ show_nat (unat expected)
     | LogicalOverflow ms \<Rightarrow> ''logical counter overflow at physical_ms='' @ show_nat (unat ms)
     | PhysicalOverflow ms \<Rightarrow> ''physical_ms '' @ show_nat (unat ms) @ '' exceeds 48-bit limit'')"

definition node_nil :: node_id where
  "node_nil = NodeId 0"

definition node_to_bytes :: "node_id \<Rightarrow> bytes" where
  "node_to_bytes n = be_bytes 16 (as_uuid n)"

definition node_from_bytes :: "bytes \<Rightarrow> node_id" where
  "node_from_bytes bs = NodeId (of_be_bytes bs)"

definition PHYSICAL_SHIFT :: nat where
  "PHYSICAL_SHIFT = 16"

definition LOGICAL_MASK :: u64 where
  "LOGICAL_MASK = 0xFFFF"

definition MAX_LOGICAL :: u16 where
  "MAX_LOGICAL = 65535"

definition hlc_zero :: hlc where
  "hlc_zero = Hlc 0"

definition try_new :: "u64 \<Rightarrow> u16 \<Rightarrow> (clock_error, hlc) result" where
  "try_new physical_ms logical =
    (if push_bit 48 1 \<le> physical_ms then Err (PhysicalOverflow physical_ms)
     else Ok (Hlc (or (push_bit PHYSICAL_SHIFT physical_ms) (ucast logical))))"

definition hlc_new :: "u64 \<Rightarrow> u16 \<Rightarrow> hlc option" where
  "hlc_new physical_ms logical =
    (case try_new physical_ms logical of Err _ \<Rightarrow> None | Ok h \<Rightarrow> Some h)"

definition physical_ms :: "hlc \<Rightarrow> u64" where
  "physical_ms h = drop_bit PHYSICAL_SHIFT (to_u64 h)"

definition logical :: "hlc \<Rightarrow> u16" where
  "logical h = ucast (and (to_u64 h) LOGICAL_MASK)"

definition hlc_from_u64 :: "u64 \<Rightarrow> hlc" where
  "hlc_from_u64 raw = Hlc raw"

definition hlc_to_bytes :: "hlc \<Rightarrow> bytes" where
  "hlc_to_bytes h = be_bytes 8 (to_u64 h)"

definition hlc_from_bytes :: "bytes \<Rightarrow> hlc" where
  "hlc_from_bytes bs = Hlc (of_be_bytes bs)"

text \<open>The derived orders.\<close>

instantiation node_id :: linorder
begin

definition less_eq_node_id :: "node_id \<Rightarrow> node_id \<Rightarrow> bool" where
  "less_eq_node_id a b \<longleftrightarrow> as_uuid a \<le> as_uuid b"

definition less_node_id :: "node_id \<Rightarrow> node_id \<Rightarrow> bool" where
  "less_node_id a b \<longleftrightarrow> as_uuid a < as_uuid b"

instance
  by standard (auto simp: less_eq_node_id_def less_node_id_def node_id.expand)

end

instantiation hlc :: linorder
begin

definition less_eq_hlc :: "hlc \<Rightarrow> hlc \<Rightarrow> bool" where
  "less_eq_hlc a b \<longleftrightarrow> to_u64 a \<le> to_u64 b"

definition less_hlc :: "hlc \<Rightarrow> hlc \<Rightarrow> bool" where
  "less_hlc a b \<longleftrightarrow> to_u64 a < to_u64 b"

instance
  by standard (auto simp: less_eq_hlc_def less_hlc_def hlc.expand)

end

lemmas hlc_order_defs = less_eq_hlc_def less_hlc_def

section \<open>The packed representation\<close>

lemma unat_physical_ms: "unat (physical_ms h) = unat (to_u64 h) div 65536"
  by (simp add: physical_ms_def PHYSICAL_SHIFT_def unat_drop_bit_eq drop_bit_eq_div unat_div)

lemma unat_logical: "unat (logical h) = unat (to_u64 h) mod 65536"
proof -
  have "and (to_u64 h) LOGICAL_MASK = take_bit 16 (to_u64 h)"
    by (simp add: take_bit_eq_mask LOGICAL_MASK_def mask_eq_exp_minus_1)
  then show ?thesis
    by (simp add: logical_def unsigned_ucast_eq take_bit_eq_mod unat_mod unsigned_take_bit_eq)
qed

lemma unat_to_u64: "unat (to_u64 h) = unat (physical_ms h) * 65536 + unat (logical h)"
  by (simp add: unat_physical_ms unat_logical)

lemma hlc_zero_le [simp]: "hlc_zero \<le> h"
  by (simp add: hlc_order_defs hlc_zero_def)

lemma hlc_eq_iff: "h = k \<longleftrightarrow> physical_ms h = physical_ms k \<and> logical h = logical k"
  by (metis hlc.expand unat_to_u64 word_unat_eq_iff)

text \<open>Comparing packed values is comparing milliseconds, then counters.\<close>

lemma hlc_less_iff:
  "h < k \<longleftrightarrow> physical_ms h < physical_ms k \<or>
    physical_ms h = physical_ms k \<and> logical h < logical k"
proof -
  have "unat (logical h) < 65536" "unat (logical k) < 65536"
    by (simp_all add: unat_logical)
  then show ?thesis
    unfolding less_hlc_def word_less_nat_alt unat_to_u64 word_unat_eq_iff by auto
qed

lemma hlc_le_iff:
  "h \<le> k \<longleftrightarrow> physical_ms h < physical_ms k \<or>
    physical_ms h = physical_ms k \<and> logical h \<le> logical k"
  using hlc_less_iff [of h k] hlc_eq_iff [of h k] by (auto simp: le_less)

lemma physical_ms_bound: "physical_ms h < 2 ^ 48"
proof -
  have "unat (to_u64 h) < 2 ^ 64" using unsigned_less [of "to_u64 h", where ?'a = nat] by simp
  then show ?thesis by (simp add: word_less_nat_alt unat_physical_ms)
qed

lemma bit_48_bits: "p < 2 ^ 48 \<Longrightarrow> bit p n \<Longrightarrow> n < 48" for p :: u64
proof -
  assume "p < 2 ^ 48" "bit p n"
  then have "take_bit 48 p = p"
    by (simp add: word_unat_eq_iff word_less_nat_alt unsigned_take_bit_eq take_bit_nat_eq_self)
  with \<open>bit p n\<close> show "n < 48" by (metis bit_take_bit_iff)
qed

lemma pack_physical:
  assumes "p < 2 ^ 48"
  shows "physical_ms (Hlc (or (push_bit 16 p) (ucast (l :: u16)))) = p"
  unfolding physical_ms_def PHYSICAL_SHIFT_def hlc.sel
proof (rule bit_word_eqI)
  fix n assume "n < LENGTH(64)"
  have "\<not> bit l (16 + n)" using bit_imp_le_length [of l "16 + n"] by auto
  moreover have "bit p n \<Longrightarrow> 16 + n < 64" using bit_48_bits [OF assms, of n] by simp
  ultimately show "bit (drop_bit 16 (or (push_bit 16 p) (ucast l))) n = bit p n"
    by (auto simp: bit_or_iff bit_push_bit_iff bit_drop_bit_eq bit_unsigned_iff)
qed

lemma pack_logical: "logical (Hlc (or (push_bit 16 p) (ucast l))) = l"
  unfolding logical_def LOGICAL_MASK_def hlc.sel
proof (rule bit_word_eqI)
  fix n assume n: "n < LENGTH(16)"
  have "(0xFFFF :: u64) = mask 16" by (simp add: mask_eq_exp_minus_1)
  then have "bit (0xFFFF :: u64) n" using n bit_mask_iff [of 16 n, where ?'a = u64] by simp
  then show "bit (ucast (and (or (push_bit 16 p) (ucast l)) (0xFFFF :: u64)) :: u16) n = bit l n"
    using n by (simp add: bit_or_iff bit_and_iff bit_push_bit_iff bit_unsigned_iff)
qed

lemma try_new_Ok_iff:
  "try_new p l = Ok h \<longleftrightarrow> p < 2 ^ 48 \<and> physical_ms h = p \<and> logical h = l"
proof -
  have "(push_bit 48 1 \<le> p) = (\<not> p < 2 ^ 48)" by (simp add: push_bit_of_1 not_less)
  then show ?thesis
    using pack_physical [of p l] pack_logical [of p l]
    by (auto simp: try_new_def PHYSICAL_SHIFT_def hlc_eq_iff)
qed

lemma try_new_Err_iff: "try_new p l = Err e \<longleftrightarrow> 2 ^ 48 \<le> p \<and> e = PhysicalOverflow p"
  by (auto simp: try_new_def push_bit_of_1)

lemma hlc_new_Some_iff:
  "hlc_new p l = Some h \<longleftrightarrow> p < 2 ^ 48 \<and> physical_ms h = p \<and> logical h = l"
  using try_new_Ok_iff [of p l] try_new_Err_iff [of p l]
  by (cases "try_new p l") (auto simp: hlc_new_def hlc_eq_iff)

lemma hlc_new_None_iff: "hlc_new p l = None \<longleftrightarrow> 2 ^ 48 \<le> p"
  by (auto simp: hlc_new_def try_new_def push_bit_of_1)

lemma node_bytes_inj: "node_to_bytes a = node_to_bytes b \<longleftrightarrow> a = b"
  by (auto simp: node_to_bytes_def be_bytes_inj node_id.expand)

lemma length_node_to_bytes [simp]: "length (node_to_bytes n) = 16"
  by (simp add: node_to_bytes_def)

text \<open>
  Packing is exact and total on 48-bit times: \<open>try_new\<close> succeeds exactly
  below 2^48, the two components are read back unchanged, and the packed values
  are ordered by time first and counter second.
\<close>

theorem hlc_pack_correct:
  "(try_new p l = Ok h \<longleftrightarrow> p < 2 ^ 48 \<and> physical_ms h = p \<and> logical h = l) \<and>
   (try_new p l = Err e \<longleftrightarrow> 2 ^ 48 \<le> p \<and> e = PhysicalOverflow p) \<and>
   (h < k \<longleftrightarrow> physical_ms h < physical_ms k \<or>
     physical_ms h = physical_ms k \<and> logical h < logical k)"
  by (intro conjI try_new_Ok_iff try_new_Err_iff hlc_less_iff)

text \<open>
  The eight- and sixteen-byte encodings of clock values and node identifiers
  round trip in both directions.
\<close>

theorem clock_bytes_roundtrip:
  "hlc_from_bytes (hlc_to_bytes h) = h \<and> node_from_bytes (node_to_bytes n) = n \<and>
   (length bs = 8 \<longrightarrow> hlc_to_bytes (hlc_from_bytes bs) = bs) \<and>
   (length ns = 16 \<longrightarrow> node_to_bytes (node_from_bytes ns) = ns)"
proof (intro conjI impI)
  show "hlc_to_bytes (hlc_from_bytes bs) = bs" if "length bs = 8"
    using be_bytes_of_be_bytes [of bs, where ?'a = 64] that
    by (simp add: hlc_to_bytes_def hlc_from_bytes_def)
  show "node_to_bytes (node_from_bytes ns) = ns" if "length ns = 16"
    using be_bytes_of_be_bytes [of ns, where ?'a = 128] that
    by (simp add: node_to_bytes_def node_from_bytes_def)
qed (simp_all add: hlc_from_bytes_def hlc_to_bytes_def node_from_bytes_def node_to_bytes_def
    of_be_bytes_roundtrip)

theorem clock_bytes_roundtrip_witness:
  "hlc_to_bytes (hlc_from_bytes [1, 2, 3, 4, 5, 6, 7, 8]) = [1, 2, 3, 4, 5, 6, 7, 8] \<and>
   node_to_bytes (node_from_bytes (replicate 16 7)) = replicate 16 7"
  using clock_bytes_roundtrip [of hlc_zero node_nil "[1, 2, 3, 4, 5, 6, 7, 8]" "replicate 16 7"]
  by simp

end
