(* ===== verification/Clocks.thy ===== *)
theory Clocks
  imports Hlc
begin

text \<open>
  The clocks of \<open>crates/bashfuldb-clock/src/traits.rs\<close>: \<open>WallClock\<close>, whose time is
  read from the system and so is an argument of each operation, and
  \<open>ManualClock\<close>, whose time is part of its state.  Both keep their value behind a
  mutex; a panic while the mutex is held poisons it, and every later operation on
  a poisoned mutex panics.  An operation returns \<open>None\<close> when it panics and the
  \<open>Result\<close> of the source otherwise, with the clock it leaves behind.
\<close>

type_synonym hlc_outcome = "(clock_error, hlc) result option"

record wall_clock =
  wc_state :: hlc
  wc_poisoned :: bool

record manual_clock =
  mc_state :: hlc
  mc_physical_ms :: u64
  mc_state_poisoned :: bool
  mc_physical_poisoned :: bool

text \<open>The body \<open>tick\<close> has in both clocks, given the physical time.\<close>

definition hlc_tick :: "u64 \<Rightarrow> hlc \<Rightarrow> hlc_outcome" where
  "hlc_tick now_ms st =
    (if physical_ms st < now_ms then map_option Ok (hlc_new now_ms 0)
     else case checked_add (logical st) 1 of
         None \<Rightarrow> Some (Err (LogicalOverflow (physical_ms st)))
       | Some next_logical \<Rightarrow> map_option Ok (hlc_new (physical_ms st) next_logical))"

text \<open>The body \<open>update\<close> has in both clocks.\<close>

definition hlc_update :: "u64 \<Rightarrow> hlc \<Rightarrow> hlc \<Rightarrow> hlc_outcome" where
  "hlc_update now_ms st received =
    (let max_physical = max (max now_ms (physical_ms st)) (physical_ms received);
         logical =
           (if max_physical = physical_ms st \<and> max_physical = physical_ms received
            then checked_add (max (logical st) (logical received)) 1
            else if max_physical = physical_ms st then checked_add (logical st) 1
            else if max_physical = physical_ms received then checked_add (logical received) 1
            else Some 0)
     in case logical of
         None \<Rightarrow> Some (Err (LogicalOverflow max_physical))
       | Some l \<Rightarrow> map_option Ok (hlc_new max_physical l))"

section \<open>WallClock\<close>

definition wall_new :: "u64 \<Rightarrow> wall_clock option" where
  "wall_new now_ms =
    map_option (\<lambda>h. \<lparr>wc_state = h, wc_poisoned = False\<rparr>) (hlc_new now_ms 0)"

definition from_persisted :: "u64 \<Rightarrow> hlc \<Rightarrow> wall_clock option" where
  "from_persisted now_ms persisted =
    (let physical = max now_ms (physical_ms persisted);
         l = (if physical = physical_ms persisted
              then saturating_add (logical persisted) 1 else 0)
     in map_option (\<lambda>h. \<lparr>wc_state = h, wc_poisoned = False\<rparr>) (hlc_new physical l))"

definition wall_now :: "wall_clock \<Rightarrow> hlc option" where
  "wall_now c = (if wc_poisoned c then None else Some (wc_state c))"

text \<open>What is left of the mutex after the body ran under its guard.\<close>

definition wall_guarded :: "(hlc \<Rightarrow> hlc_outcome) \<Rightarrow> wall_clock \<Rightarrow> hlc_outcome \<times> wall_clock" where
  "wall_guarded body c =
    (if wc_poisoned c then (None, c)
     else case body (wc_state c) of
         None \<Rightarrow> (None, c\<lparr>wc_poisoned := True\<rparr>)
       | Some (Err e) \<Rightarrow> (Some (Err e), c)
       | Some (Ok h) \<Rightarrow> (Some (Ok h), c\<lparr>wc_state := h\<rparr>))"

definition wall_tick :: "u64 \<Rightarrow> wall_clock \<Rightarrow> hlc_outcome \<times> wall_clock" where
  "wall_tick now_ms = wall_guarded (hlc_tick now_ms)"

definition wall_update :: "u64 \<Rightarrow> hlc \<Rightarrow> wall_clock \<Rightarrow> hlc_outcome \<times> wall_clock" where
  "wall_update now_ms received = wall_guarded (\<lambda>st. hlc_update now_ms st received)"

section \<open>ManualClock\<close>

definition manual_new :: "u64 \<Rightarrow> manual_clock option" where
  "manual_new initial_ms =
    map_option (\<lambda>h. \<lparr>mc_state = h, mc_physical_ms = initial_ms,
      mc_state_poisoned = False, mc_physical_poisoned = False\<rparr>) (hlc_new initial_ms 0)"

definition set_time :: "u64 \<Rightarrow> manual_clock \<Rightarrow> unit option \<times> manual_clock" where
  "set_time ms c =
    (if mc_physical_poisoned c then (None, c)
     else if mc_physical_ms c \<le> ms then (Some (), c\<lparr>mc_physical_ms := ms\<rparr>)
     else (None, c\<lparr>mc_physical_poisoned := True\<rparr>))"

definition current_time_ms :: "manual_clock \<Rightarrow> u64 option" where
  "current_time_ms c = (if mc_physical_poisoned c then None else Some (mc_physical_ms c))"

definition manual_now :: "manual_clock \<Rightarrow> hlc option" where
  "manual_now c = (if mc_state_poisoned c then None else Some (mc_state c))"

text \<open>Both mutexes are locked, the state's first; any panic poisons those held.\<close>

definition manual_guarded ::
  "(u64 \<Rightarrow> hlc \<Rightarrow> hlc_outcome) \<Rightarrow> manual_clock \<Rightarrow> hlc_outcome \<times> manual_clock" where
  "manual_guarded body c =
    (if mc_state_poisoned c then (None, c)
     else if mc_physical_poisoned c then (None, c\<lparr>mc_state_poisoned := True\<rparr>)
     else case body (mc_physical_ms c) (mc_state c) of
         None \<Rightarrow> (None, c\<lparr>mc_state_poisoned := True\<rparr>)
       | Some (Err e) \<Rightarrow> (Some (Err e), c)
       | Some (Ok h) \<Rightarrow> (Some (Ok h), c\<lparr>mc_state := h\<rparr>))"

definition manual_tick :: "manual_clock \<Rightarrow> hlc_outcome \<times> manual_clock" where
  "manual_tick = manual_guarded hlc_tick"

definition manual_update :: "hlc \<Rightarrow> manual_clock \<Rightarrow> hlc_outcome \<times> manual_clock" where
  "manual_update received = manual_guarded (\<lambda>now st. hlc_update now st received)"

section \<open>Sequences of operations\<close>

datatype wall_op = WTick u64 | WUpdate u64 hlc
datatype manual_op = MTick | MUpdate hlc | MSetTime u64

definition emitted :: "hlc_outcome \<Rightarrow> hlc option" where
  "emitted r = (case r of Some (Ok h) \<Rightarrow> Some h | _ \<Rightarrow> None)"

fun wall_exec :: "wall_op \<Rightarrow> wall_clock \<Rightarrow> hlc option \<times> wall_clock" where
  "wall_exec (WTick t) c = map_prod emitted id (wall_tick t c)"
| "wall_exec (WUpdate t r) c = map_prod emitted id (wall_update t r c)"

fun manual_exec :: "manual_op \<Rightarrow> manual_clock \<Rightarrow> hlc option \<times> manual_clock" where
  "manual_exec MTick c = map_prod emitted id (manual_tick c)"
| "manual_exec (MUpdate r) c = map_prod emitted id (manual_update r c)"
| "manual_exec (MSetTime ms) c = (None, snd (set_time ms c))"

fun wall_received :: "wall_op \<Rightarrow> hlc option" where
  "wall_received (WUpdate _ r) = Some r"
| "wall_received _ = None"

fun manual_received :: "manual_op \<Rightarrow> hlc option" where
  "manual_received (MUpdate r) = Some r"
| "manual_received _ = None"

primrec run_ops :: "('op \<Rightarrow> 'c \<Rightarrow> hlc option \<times> 'c) \<Rightarrow> 'op list \<Rightarrow> 'c \<Rightarrow> hlc list \<times> 'c" where
  "run_ops exec [] c = ([], c)"
| "run_ops exec (p # ps) c =
    (let (out, c') = exec p c; (hs, c'') = run_ops exec ps c'
     in (case out of None \<Rightarrow> hs | Some h \<Rightarrow> h # hs, c''))"

section \<open>The contract of a clock\<close>

text \<open>
  What the trait \<open>Clock\<close> promises: a value handed out is the new value of the
  clock and is above the old one and above the received one; nothing else moves
  the clock.
\<close>

locale monotone_clock =
  fixes exec :: "'op \<Rightarrow> 'c \<Rightarrow> hlc option \<times> 'c"
    and received :: "'op \<Rightarrow> hlc option"
    and reading :: "'c \<Rightarrow> hlc"
  assumes exec_Some: "exec p c = (Some h, c') \<Longrightarrow> reading c < h \<and> reading c' = h"
    and exec_None: "exec p c = (None, c') \<Longrightarrow> reading c' = reading c"
    and exec_received: "exec p c = (Some h, c') \<Longrightarrow> received p = Some r \<Longrightarrow> r < h"
begin

lemma run_above:
  "run_ops exec ps c = (hs, c') \<Longrightarrow> sorted_wrt (<) (reading c # hs) \<and> reading c \<le> reading c'"
proof (induction ps arbitrary: c hs c')
  case (Cons p ps)
  obtain out d where st: "exec p c = (out, d)" by fastforce
  obtain gs e where rest: "run_ops exec ps d = (gs, e)" by fastforce
  note IH = Cons.IH [OF rest]
  show ?case
  proof (cases out)
    case None
    then show ?thesis using exec_None [of p c d] st rest IH Cons.prems by simp
  next
    case (Some h)
    then show ?thesis using exec_Some [of p c h d] st rest IH Cons.prems by (fastforce intro: less_trans)
  qed
qed simp

lemma run_increasing: "sorted_wrt (<) (reading c # fst (run_ops exec ps c))"
  using run_above [of ps c] by (metis prod.collapse)

lemma run_after_receive:
  assumes "received p = Some r" "exec p c = (Some h, c')" "g \<in> set (fst (run_ops exec ps c'))"
  shows "r < h \<and> h < g"
  using exec_received [OF assms(2,1)] exec_Some [OF assms(2)] run_increasing [of c' ps] assms(3)
  by auto

end

section \<open>Laws of the shared bodies\<close>

lemma checked_succ_Some: "checked_add l 1 = Some m \<Longrightarrow> l < m" for l m :: u16
  by (auto simp: word_less_nat_alt dest: unat_checked_add)

lemma checked_succ_None: "checked_add l 1 = None \<longleftrightarrow> l = MAX_LOGICAL" for l :: u16
  using unsigned_less [of l, where ?'a = nat]
  by (auto simp: checked_add_def add_wraps_iff MAX_LOGICAL_def word_unat_eq_iff)

lemma hlc_tick_above: "hlc_tick t st = Some (Ok h) \<Longrightarrow> st < h"
  by (auto simp: hlc_tick_def hlc_less_iff hlc_new_Some_iff split: if_splits option.splits
      dest: checked_succ_Some)

lemma hlc_tick_physical:
  "hlc_tick t st = Some (Ok h) \<Longrightarrow> physical_ms h = max t (physical_ms st)"
  by (auto simp: hlc_tick_def hlc_new_Some_iff split: if_splits option.splits)

lemma hlc_update_above: "hlc_update t st r = Some (Ok h) \<Longrightarrow> st < h \<and> r < h"
  by (auto simp: hlc_update_def Let_def hlc_less_iff hlc_new_Some_iff max_def not_le
      split: if_splits option.splits dest!: checked_succ_Some)

lemma hlc_tick_cases:
  "hlc_tick t st = None \<longleftrightarrow> physical_ms st < t \<and> 2 ^ 48 \<le> t"
  "hlc_tick t st = Some (Err e) \<longleftrightarrow>
    t \<le> physical_ms st \<and> logical st = MAX_LOGICAL \<and> e = LogicalOverflow (physical_ms st)"
  using physical_ms_bound [of st] checked_succ_None [of "logical st"]
  by (auto simp: hlc_tick_def hlc_new_None_iff not_less not_le split: option.splits)

lemma hlc_tick_value:
  "hlc_tick t st = Some (Ok h) \<Longrightarrow>
    hlc_new (max t (physical_ms st)) (if physical_ms st < t then 0 else logical st + 1) = Some h"
  by (auto simp: hlc_tick_def max_def checked_add_Some split: if_splits option.splits)

lemma wall_tick_Ok:
  "wall_tick t c = (Some (Ok h), c') \<longleftrightarrow>
    \<not> wc_poisoned c \<and> hlc_tick t (wc_state c) = Some (Ok h) \<and> c' = c\<lparr>wc_state := h\<rparr>"
  by (auto simp: wall_tick_def wall_guarded_def split: option.splits sum.splits)

lemma wall_update_Ok:
  "wall_update t r c = (Some (Ok h), c') \<longleftrightarrow>
    \<not> wc_poisoned c \<and> hlc_update t (wc_state c) r = Some (Ok h) \<and> c' = c\<lparr>wc_state := h\<rparr>"
  by (auto simp: wall_update_def wall_guarded_def split: option.splits sum.splits)

interpretation wall: monotone_clock wall_exec wall_received wc_state
proof
  fix p c h c' r
  show "wc_state c < h \<and> wc_state c' = h" if "wall_exec p c = (Some h, c')"
    using that by (cases p) (auto simp: emitted_def wall_tick_def wall_update_def wall_guarded_def
        dest: hlc_tick_above hlc_update_above split: if_splits option.splits sum.splits)
  show "wc_state c' = wc_state c" if "wall_exec p c = (None, c')"
    using that by (cases p) (auto simp: emitted_def wall_tick_def wall_update_def wall_guarded_def
        split: if_splits option.splits sum.splits)
  show "r < h" if "wall_exec p c = (Some h, c')" "wall_received p = Some r"
    using that by (cases p) (auto simp: emitted_def wall_update_def wall_guarded_def
        dest: hlc_update_above split: if_splits option.splits sum.splits)
qed

interpretation manual: monotone_clock manual_exec manual_received mc_state
proof
  fix p c h c' r
  show "mc_state c < h \<and> mc_state c' = h" if "manual_exec p c = (Some h, c')"
    using that by (cases p) (auto simp: emitted_def manual_tick_def manual_update_def
        manual_guarded_def dest: hlc_tick_above hlc_update_above
        split: if_splits option.splits sum.splits)
  show "mc_state c' = mc_state c" if "manual_exec p c = (None, c')"
    using that by (cases p) (auto simp: emitted_def manual_tick_def manual_update_def
        manual_guarded_def set_time_def split: if_splits option.splits sum.splits)
  show "r < h" if "manual_exec p c = (Some h, c')" "manual_received p = Some r"
    using that by (cases p) (auto simp: emitted_def manual_update_def manual_guarded_def
        dest: hlc_update_above split: if_splits option.splits sum.splits)
qed

lemma manual_clock_monotone:
  "sorted_wrt (<) (mc_state c # fst (run_ops manual_exec ps c))"
  by (rule manual.run_increasing)

lemma from_persisted_state:
  "from_persisted now_ms p = Some c \<Longrightarrow>
    p \<le> wc_state c \<and>
    (wc_state c = p \<longleftrightarrow> now_ms \<le> physical_ms p \<and> logical p = MAX_LOGICAL)"
proof -
  have "logical p \<le> saturating_add (logical p) 1" by (rule saturating_add_mono)
  moreover have "saturating_add (logical p) 1 = logical p \<longleftrightarrow> logical p = MAX_LOGICAL"
    using checked_succ_None [of "logical p"]
    by (auto simp: saturating_add_def checked_add_def MAX_LOGICAL_def)
  moreover assume "from_persisted now_ms p = Some c"
  ultimately show ?thesis
    by (auto simp: from_persisted_def Let_def hlc_new_Some_iff hlc_le_iff hlc_eq_iff max_def
        split: if_splits)
qed

section \<open>Properties\<close>

text \<open>The definitions a concrete run of a clock unfolds.\<close>

lemmas clock_eval = wall_tick_def wall_update_def wall_guarded_def hlc_tick_def hlc_update_def
  hlc_new_def try_new_def physical_ms_def logical_def PHYSICAL_SHIFT_def LOGICAL_MASK_def
  checked_add_def saturating_add_def emitted_def from_persisted_def

text \<open>
  C16: every sequence of \<open>tick\<close> and \<open>update\<close> calls on a \<open>WallClock\<close>, whatever system
  times it reads (backward jumps included) and whatever values it receives, hands
  out strictly increasing values above the clock's first value; and a value
  returned by \<open>update\<close> is above the received one and below everything handed out
  later.
\<close>

theorem wall_clock_monotone:
  "sorted_wrt (<) (wc_state c # fst (run_ops wall_exec ps c)) \<and>
   (\<forall>t r h c' g. wall_update t r c = (Some (Ok h), c') \<longrightarrow>
     g \<in> set (fst (run_ops wall_exec ps c')) \<longrightarrow> r < h \<and> h < g)"
proof (intro conjI allI impI)
  show "sorted_wrt (<) (wc_state c # fst (run_ops wall_exec ps c))"
    by (rule wall.run_increasing)
  fix t r h c' g
  assume "wall_update t r c = (Some (Ok h), c')" "g \<in> set (fst (run_ops wall_exec ps c'))"
  then show "r < h" "h < g"
    using wall.run_after_receive [of "WUpdate t r" r c h c' g ps] by (simp_all add: emitted_def)
qed

theorem wall_clock_monotone_witness:
  "fst (run_ops wall_exec [WTick 5, WTick 3, WUpdate 4 (Hlc 0x90001), WTick 7]
      \<lparr>wc_state = Hlc 0x40000, wc_poisoned = False\<rparr>) =
     [Hlc 0x50000, Hlc 0x50001, Hlc 0x90002, Hlc 0x90003] \<and>
   sorted_wrt (<) [Hlc 0x40000, Hlc 0x50000, Hlc 0x50001, Hlc 0x90002, Hlc 0x90003]"
proof -
  let ?c = "\<lparr>wc_state = Hlc 0x40000, wc_poisoned = False\<rparr>"
  let ?ps = "[WTick 5, WTick 3, WUpdate 4 (Hlc 0x90001), WTick 7]"
  have "fst (run_ops wall_exec ?ps ?c) = [Hlc 0x50000, Hlc 0x50001, Hlc 0x90002, Hlc 0x90003]"
    by (simp add: clock_eval)
  then show ?thesis using wall_clock_monotone [of ?c ?ps] by simp
qed

text \<open>
  A clock restored from a persisted value never starts below it, starts at it
  exactly when the persisted counter is saturated and the system time has not
  passed the persisted time, and every value it ticks out is above the persisted
  one.
\<close>

theorem from_persisted_ahead:
  assumes "from_persisted now_ms p = Some c"
  shows "p \<le> wc_state c \<and>
    (wc_state c = p \<longleftrightarrow> now_ms \<le> physical_ms p \<and> logical p = MAX_LOGICAL) \<and>
    (\<forall>t h c'. wall_tick t c = (Some (Ok h), c') \<longrightarrow> p < h)"
  using from_persisted_state [OF assms]
  by (auto simp: wall_tick_Ok dest: hlc_tick_above intro: le_less_trans)

theorem from_persisted_ahead_witness:
  "from_persisted 3 (Hlc 0x50007) = Some \<lparr>wc_state = Hlc 0x50008, wc_poisoned = False\<rparr> \<and>
   Hlc 0x50007 \<le> Hlc 0x50008 \<and>
   from_persisted 3 (Hlc 0x5FFFF) = Some \<lparr>wc_state = Hlc 0x5FFFF, wc_poisoned = False\<rparr> \<and>
   logical (Hlc 0x5FFFF) = MAX_LOGICAL"
proof -
  have a: "from_persisted 3 (Hlc 0x50007) = Some \<lparr>wc_state = Hlc 0x50008, wc_poisoned = False\<rparr>"
    by (simp add: clock_eval)
  have b: "from_persisted 3 (Hlc 0x5FFFF) = Some \<lparr>wc_state = Hlc 0x5FFFF, wc_poisoned = False\<rparr>"
    by (simp add: clock_eval unsigned_minus_1_eq_mask mask_eq_exp_minus_1)
  show ?thesis
    using a b from_persisted_ahead [OF a] from_persisted_ahead [OF b] by simp
qed

text \<open>
  \<open>tick\<close> on an unpoisoned \<open>WallClock\<close> has exactly three outcomes: it panics and
  poisons the clock when the system time moved forward past 48 bits, it reports
  \<open>LogicalOverflow\<close> and leaves the clock alone when time stands still and the
  counter is at its maximum, and otherwise it returns the new value, whose time is
  the later of the two.
\<close>

theorem wall_tick_outcome:
  assumes "\<not> wc_poisoned c"
  shows "wall_tick t c =
    (if physical_ms (wc_state c) < t \<and> 2 ^ 48 \<le> t then (None, c\<lparr>wc_poisoned := True\<rparr>)
     else if t \<le> physical_ms (wc_state c) \<and> logical (wc_state c) = MAX_LOGICAL
     then (Some (Err (LogicalOverflow (physical_ms (wc_state c)))), c)
     else let h = the (hlc_new (max t (physical_ms (wc_state c)))
                        (if physical_ms (wc_state c) < t then 0 else logical (wc_state c) + 1))
          in (Some (Ok h), c\<lparr>wc_state := h\<rparr>))"
proof (cases "hlc_tick t (wc_state c)")
  case None
  then show ?thesis
    using assms hlc_tick_cases(1) [of t "wc_state c"] by (simp add: wall_tick_def wall_guarded_def)
next
  case (Some r)
  show ?thesis
  proof (cases r)
    case (Inl e)
    then show ?thesis
      using assms Some hlc_tick_cases(2) [of t "wc_state c" e]
      by (auto simp: wall_tick_def wall_guarded_def)
  next
    case (Inr h)
    then show ?thesis
      using assms Some hlc_tick_value [of t "wc_state c" h] hlc_tick_cases(1) [of t "wc_state c"]
        hlc_tick_cases(2) [of t "wc_state c" "LogicalOverflow (physical_ms (wc_state c))"]
      by (simp add: wall_tick_def wall_guarded_def)
  qed
qed

theorem wall_tick_outcome_witness:
  "wall_tick 4 \<lparr>wc_state = Hlc 0x5FFFF, wc_poisoned = False\<rparr> =
    (Some (Err (LogicalOverflow 5)), \<lparr>wc_state = Hlc 0x5FFFF, wc_poisoned = False\<rparr>)"
  by (subst wall_tick_outcome) (simp_all add: clock_eval MAX_LOGICAL_def)

end
