(* ===== verification/Vector_Clock.thy ===== *)
theory Vector_Clock
  imports Hlc
begin

text \<open>
  Vector clocks (\<open>crates/bashfuldb-clock/src/vector_clock.rs\<close>): an ordered map from
  node identifiers to clock values, capped at \<open>MAX_ENTRIES\<close>.  \<open>increment\<close> and
  \<open>merge\<close> return the new clock or the error; on an error the source leaves the
  clock as it was.
\<close>

definition MAX_ENTRIES :: nat where
  "MAX_ENTRIES = 4096"

datatype causal_order = Before | After | Concurrent | Equal

record vector_clock =
  vc_entries :: "(node_id, hlc) btree"

definition vc_new :: vector_clock where
  "vc_new = \<lparr>vc_entries = []\<rparr>"

definition vc_len :: "vector_clock \<Rightarrow> nat" where
  "vc_len c = length (vc_entries c)"

definition vc_is_empty :: "vector_clock \<Rightarrow> bool" where
  "vc_is_empty c = (vc_entries c = [])"

definition vc_get :: "vector_clock \<Rightarrow> node_id \<Rightarrow> hlc option" where
  "vc_get c node = bt_get (vc_entries c) node"

text \<open>\<open>entry(node).and_modify(...).or_insert(hlc)\<close>.\<close>

definition raise_entry :: "node_id \<Rightarrow> hlc \<Rightarrow> (node_id, hlc) btree \<Rightarrow> (node_id, hlc) btree" where
  "raise_entry node h m =
    (case bt_get m node of
       None \<Rightarrow> bt_insert node h m
     | Some existing \<Rightarrow> if existing < h then bt_insert node h m else m)"

definition increment :: "node_id \<Rightarrow> hlc \<Rightarrow> vector_clock \<Rightarrow> (clock_error, vector_clock) result" where
  "increment node h c =
    (if bt_get (vc_entries c) node = None \<and> MAX_ENTRIES \<le> length (vc_entries c)
     then Err VectorClockCapacityExceeded
     else Ok (c\<lparr>vc_entries := raise_entry node h (vc_entries c)\<rparr>))"

definition vc_merge :: "vector_clock \<Rightarrow> vector_clock \<Rightarrow> (clock_error, vector_clock) result" where
  "vc_merge self other =
    (let new_nodes = length (filter (\<lambda>k. bt_get (vc_entries self) k = None)
                                    (map fst (vc_entries other)))
     in if MAX_ENTRIES < length (vc_entries self) + new_nodes
        then Err VectorClockCapacityExceeded
        else Ok (self\<lparr>vc_entries :=
               fold (\<lambda>(node, h) m. raise_entry node h m) (vc_entries other) (vc_entries self)\<rparr>))"

definition hlc_or_zero :: "vector_clock \<Rightarrow> node_id \<Rightarrow> hlc" where
  "hlc_or_zero c node = (case vc_get c node of None \<Rightarrow> hlc_zero | Some h \<Rightarrow> h)"

text \<open>The loop over the nodes of either clock, with its two flags.\<close>

definition compare_step ::
  "vector_clock \<Rightarrow> vector_clock \<Rightarrow> node_id \<Rightarrow> bool \<times> bool \<Rightarrow> bool \<times> bool" where
  "compare_step self other node = (\<lambda>(self_le, other_le).
    (if hlc_or_zero other node < hlc_or_zero self node then False else self_le,
     if hlc_or_zero self node < hlc_or_zero other node then False else other_le))"

definition vc_compare :: "vector_clock \<Rightarrow> vector_clock \<Rightarrow> causal_order" where
  "vc_compare self other =
    (let all_nodes = sort (remdups (map fst (vc_entries self) @ map fst (vc_entries other)))
     in case fold (compare_step self other) all_nodes (True, True) of
          (True, True) \<Rightarrow> Equal
        | (True, False) \<Rightarrow> Before
        | (False, True) \<Rightarrow> After
        | (False, False) \<Rightarrow> Concurrent)"

text \<open>\<open>min_by_key\<close> returns the first of the entries with the least value.\<close>

fun min_entry :: "(node_id, hlc) btree \<Rightarrow> (node_id \<times> hlc) option" where
  "min_entry [] = None"
| "min_entry (e # m) =
    (case min_entry m of None \<Rightarrow> Some e | Some f \<Rightarrow> Some (if snd f < snd e then f else e))"

definition evict_oldest :: "vector_clock \<Rightarrow> vector_clock" where
  "evict_oldest c =
    (case min_entry (vc_entries c) of
       None \<Rightarrow> c
     | Some (oldest_node, _) \<Rightarrow> c\<lparr>vc_entries := bt_remove oldest_node (vc_entries c)\<rparr>)"

section \<open>The well-formedness invariant\<close>

definition vc_wf :: "vector_clock \<Rightarrow> bool" where
  "vc_wf c \<longleftrightarrow> bt_sorted (vc_entries c) \<and> length (vc_entries c) \<le> MAX_ENTRIES"

definition vc_le :: "vector_clock \<Rightarrow> vector_clock \<Rightarrow> bool" where
  "vc_le a b \<longleftrightarrow> (\<forall>n. hlc_or_zero a n \<le> hlc_or_zero b n)"

lemma vc_wf_new [simp, wf_intros]: "vc_wf vc_new"
  by (simp add: vc_wf_def vc_new_def)

lemma bt_sorted_raise [wf_intros]: "bt_sorted m \<Longrightarrow> bt_sorted (raise_entry n h m)"
  by (auto simp: raise_entry_def wf_intros split: option.splits)

lemma bt_get_raise [btree_simps]:
  "bt_sorted m \<Longrightarrow> bt_get (raise_entry n h m) k =
    (if k = n then Some (case bt_get m n of None \<Rightarrow> h | Some e \<Rightarrow> max e h) else bt_get m k)"
  by (auto simp: raise_entry_def btree_simps max_def split: option.splits)

lemma length_raise:
  "bt_sorted m \<Longrightarrow>
    length (raise_entry n h m) = (if bt_get m n = None then Suc (length m) else length m)"
  by (auto simp: raise_entry_def length_bt_insert bt_get_None_iff [symmetric] split: option.splits)

text \<open>What the fold of \<open>merge\<close> computes.\<close>

lemma merge_fold_sorted:
  "bt_sorted m \<Longrightarrow> bt_sorted (fold (\<lambda>(n, h) m. raise_entry n h m) es m)"
  by (induction es arbitrary: m) (auto simp: wf_intros)

definition max_opt :: "hlc option \<Rightarrow> hlc option \<Rightarrow> hlc option" where
  "max_opt a b = (case a of None \<Rightarrow> b | Some x \<Rightarrow> (case b of None \<Rightarrow> a | Some y \<Rightarrow> Some (max x y)))"

lemma merge_fold_get:
  "bt_sorted m \<Longrightarrow> bt_sorted es \<Longrightarrow>
    bt_get (fold (\<lambda>(n, h) m. raise_entry n h m) es m) k = max_opt (bt_get m k) (bt_get es k)"
proof (induction es arbitrary: m)
  case (Cons e es)
  have "bt_get es (fst e) = None" using Cons.prems(2) by (auto simp: bt_get_None_iff bt_sorted_Cons)
  then show ?case
    using Cons by (cases e)
      (auto simp: btree_simps wf_intros bt_sorted_Cons max_opt_def split: option.splits)
qed (simp add: max_opt_def split: option.splits)

lemma merge_fold_length:
  "bt_sorted m \<Longrightarrow> bt_sorted es \<Longrightarrow>
    length (fold (\<lambda>(n, h) m. raise_entry n h m) es m) =
    length m + length (filter (\<lambda>k. bt_get m k = None) (map fst es))"
proof (induction es arbitrary: m)
  case (Cons e es)
  have "filter ((\<lambda>k. bt_get (raise_entry (fst e) (snd e) m) k = None) \<circ> fst) es =
      filter ((\<lambda>k. bt_get m k = None) \<circ> fst) es"
    using Cons.prems by (intro filter_cong) (auto simp: btree_simps bt_sorted_Cons)
  then show ?case
    using Cons by (cases e) (auto simp: bt_sorted_Cons length_raise wf_intros filter_map)
qed simp

lemma hlc_or_zero_alt: "hlc_or_zero c n = (case vc_get c n of None \<Rightarrow> hlc_zero | Some h \<Rightarrow> h)"
  by (simp add: hlc_or_zero_def)

lemma max_hlc_zero [simp]: "max hlc_zero h = h" "max h hlc_zero = h"
  by (simp_all add: max_def antisym)

lemma vc_increment_Ok:
  assumes "vc_wf c" "increment n h c = Ok c'"
  shows "vc_wf c' \<and>
    vc_get c' k = (if k = n then max_opt (vc_get c n) (Some h) else vc_get c k)"
proof -
  have c': "c' = c\<lparr>vc_entries := raise_entry n h (vc_entries c)\<rparr>"
    and room: "bt_get (vc_entries c) n = None \<Longrightarrow> length (vc_entries c) < MAX_ENTRIES"
    using assms(2) by (auto simp: increment_def split: if_splits)
  have "vc_wf c'"
    using assms(1) room by (auto simp: vc_wf_def c' wf_intros length_raise)
  then show ?thesis
    using assms(1) by (auto simp: c' vc_wf_def vc_get_def btree_simps max_opt_def split: option.splits)
qed

lemma vc_merge_Ok:
  assumes "vc_wf a" "vc_wf b" "vc_merge a b = Ok c"
  shows "vc_wf c \<and> vc_get c k = max_opt (vc_get a k) (vc_get b k)"
  using assms
  by (auto simp: vc_merge_def Let_def vc_wf_def vc_get_def merge_fold_sorted merge_fold_get
      merge_fold_length split: if_splits)

lemma hlc_or_zero_merge:
  assumes "vc_wf a" "vc_wf b" "vc_merge a b = Ok c"
  shows "hlc_or_zero c k = max (hlc_or_zero a k) (hlc_or_zero b k)"
  using vc_merge_Ok [OF assms, of k]
  by (auto simp: hlc_or_zero_def max_opt_def split: option.splits)

text \<open>The clocks that merge are those whose union fits.\<close>

lemma merge_union_size:
  assumes "vc_wf a" "vc_wf b"
  shows "length (vc_entries a) +
      length (filter (\<lambda>k. bt_get (vc_entries a) k = None) (map fst (vc_entries b))) =
    card (fst ` set (vc_entries a) \<union> fst ` set (vc_entries b))"
proof -
  let ?A = "map fst (vc_entries a)" and ?B = "map fst (vc_entries b)"
  have d: "distinct ?A" "distinct ?B"
    using assms by (auto simp: vc_wf_def bt_sorted_distinct)
  let ?N = "filter (\<lambda>k. bt_get (vc_entries a) k = None) ?B"
  have "distinct (?A @ ?N)" using d by (auto simp: bt_get_None_iff)
  then have "card (set (?A @ ?N)) = length (?A @ ?N)" by (rule distinct_card)
  moreover have "set (?A @ ?N) = fst ` set (vc_entries a) \<union> fst ` set (vc_entries b)"
    by (auto simp: bt_get_None_iff image_iff)
  ultimately show ?thesis by simp
qed

lemma vc_merge_Err_iff:
  assumes "vc_wf a" "vc_wf b"
  shows "vc_merge a b = Err e \<longleftrightarrow>
    e = VectorClockCapacityExceeded \<and>
    MAX_ENTRIES < card (fst ` set (vc_entries a) \<union> fst ` set (vc_entries b))"
  unfolding vc_merge_def Let_def merge_union_size [OF assms] by auto

lemma vc_eqI:
  assumes "vc_wf a" "vc_wf b" "\<And>k. vc_get a k = vc_get b k"
  shows "a = b"
  using assms bt_ext [of "vc_entries a" "vc_entries b"]
  by (simp add: vc_wf_def vc_get_def vector_clock.equality)

lemma max_opt_ac:
  "max_opt x y = max_opt y x" "max_opt (max_opt x y) z = max_opt x (max_opt y z)"
  "max_opt x x = x"
  by (auto simp: max_opt_def max.commute max.left_commute split: option.splits)

section \<open>Comparison\<close>

lemma compare_fold:
  "fold (compare_step a b) ns (sl, ol) =
    (sl \<and> (\<forall>n \<in> set ns. hlc_or_zero a n \<le> hlc_or_zero b n),
     ol \<and> (\<forall>n \<in> set ns. hlc_or_zero b n \<le> hlc_or_zero a n))"
  by (induction ns arbitrary: sl ol) (auto simp: compare_step_def not_less)

lemma hlc_or_zero_absent: "n \<notin> fst ` set (vc_entries a) \<Longrightarrow> hlc_or_zero a n = hlc_zero"
  by (simp add: hlc_or_zero_def vc_get_def bt_get_None_iff [symmetric])

lemma vc_le_on_nodes:
  "vc_le a b \<longleftrightarrow>
    (\<forall>n \<in> fst ` set (vc_entries a) \<union> fst ` set (vc_entries b). hlc_or_zero a n \<le> hlc_or_zero b n)"
proof -
  have "hlc_or_zero a n \<le> hlc_or_zero b n" if "n \<notin> fst ` set (vc_entries a)" for n
    using hlc_or_zero_absent [OF that] by simp
  then show ?thesis unfolding vc_le_def by blast
qed

lemma vc_compare_eq:
  "vc_compare a b =
    (if vc_le a b then if vc_le b a then Equal else Before
     else if vc_le b a then After else Concurrent)"
  unfolding vc_le_on_nodes
  by (simp add: vc_compare_def Let_def compare_fold Un_commute split: bool.split)

lemma vc_le_refl [simp]: "vc_le a a"
  by (simp add: vc_le_def)

lemma vc_le_trans: "vc_le a b \<Longrightarrow> vc_le b c \<Longrightarrow> vc_le a c"
  unfolding vc_le_def by (meson order_trans)

text \<open>
  The contract conflict resolution relies on: a comparison that reports how two
  versions stand in a preorder.
\<close>

fun flip_order :: "causal_order \<Rightarrow> causal_order" where
  "flip_order Before = After"
| "flip_order After = Before"
| "flip_order Concurrent = Concurrent"
| "flip_order Equal = Equal"

locale causal_versions =
  fixes le :: "'v \<Rightarrow> 'v \<Rightarrow> bool" and compare :: "'v \<Rightarrow> 'v \<Rightarrow> causal_order"
  assumes refl_le: "le a a"
    and trans_le: "le a b \<Longrightarrow> le b c \<Longrightarrow> le a c"
    and compare_le: "compare a b =
      (if le a b then if le b a then Equal else Before else if le b a then After else Concurrent)"
begin

lemma compare_flip: "compare b a = flip_order (compare a b)"
  by (simp add: compare_le)

lemma compare_self: "compare a a = Equal"
  by (simp add: compare_le refl_le)

lemma before_trans: "compare a b = Before \<Longrightarrow> compare b c = Before \<Longrightarrow> compare a c = Before"
  by (auto simp: compare_le split: if_splits dest: trans_le)

lemma equal_trans: "compare a b = Equal \<Longrightarrow> compare b c = Equal \<Longrightarrow> compare a c = Equal"
  by (auto simp: compare_le split: if_splits dest: trans_le)

lemma equal_subst: "compare a b = Equal \<Longrightarrow> compare a c = compare b c"
  by (auto simp: compare_le split: if_splits dest: trans_le)

end

interpretation vc: causal_versions vc_le vc_compare
  by unfold_locales (auto simp: vc_compare_eq intro: vc_le_trans)

lemma vc_merge_upper:
  assumes "vc_wf a" "vc_wf b" "vc_merge a b = Ok c"
  shows "vc_le a c" "vc_le b c" "vc_le a d \<Longrightarrow> vc_le b d \<Longrightarrow> vc_le c d"
  using hlc_or_zero_merge [OF assms] by (simp_all add: vc_le_def)

lemma vc_merge_commute:
  assumes "vc_wf a" "vc_wf b"
  shows "vc_merge a b = vc_merge b a"
proof (cases "vc_merge a b")
  case (Inl e)
  then show ?thesis
    using vc_merge_Err_iff [OF assms, of e] vc_merge_Err_iff [OF assms(2,1), of e]
    by (simp add: Un_commute)
next
  case (Inr c)
  show ?thesis
  proof (cases "vc_merge b a")
    case (Inl e)
    then show ?thesis
      using vc_merge_Err_iff [OF assms, of e] vc_merge_Err_iff [OF assms(2,1), of e]
      by (simp add: Un_commute)
  next
    case d: (Inr d)
    have "c = d"
      using vc_merge_Ok [OF assms Inr] vc_merge_Ok [OF assms(2,1) d]
      by (intro vc_eqI) (auto simp: max_opt_ac(1))
    then show ?thesis using Inr d by simp
  qed
qed

lemma vc_merge_idem: "vc_wf a \<Longrightarrow> vc_merge a a = Ok a"
proof (cases "vc_merge a a")
  case (Inl e)
  assume "vc_wf a"
  moreover have "card (fst ` set (vc_entries a)) \<le> length (vc_entries a)"
    by (metis card_length length_map set_map)
  ultimately show ?thesis
    using Inl vc_merge_Err_iff [of a a e] by (simp add: vc_wf_def)
next
  case (Inr c)
  assume "vc_wf a"
  then show ?thesis
    using Inr vc_merge_Ok [OF _ _ Inr] by (auto simp: max_opt_ac(3) intro: vc_eqI)
qed

section \<open>Eviction\<close>

lemma min_entry_None [simp]: "min_entry m = None \<longleftrightarrow> m = []"
  by (cases m) (auto split: option.splits)

lemma min_entry_Some:
  "min_entry m = Some e \<Longrightarrow> e \<in> set m \<and> (\<forall>f \<in> set m. snd e \<le> snd f)"
proof (induction m arbitrary: e)
  case (Cons a m)
  show ?case
  proof (cases "min_entry m")
    case (Some f)
    then show ?thesis
      using Cons.prems Cons.IH [OF Some] by (auto split: if_splits intro: order_trans)
  qed (use Cons.prems in auto)
qed simp

lemma evict_oldest_wf [wf_intros]: "vc_wf c \<Longrightarrow> vc_wf (evict_oldest c)"
  by (auto simp: evict_oldest_def vc_wf_def bt_remove_def wf_intros
      split: option.splits intro: order_trans [OF length_filter_le])

section \<open>Properties\<close>

text \<open>
  C23: \<open>compare\<close> decides the causal order.  It reports \<open>Equal\<close> exactly when every
  node reads the same (a missing entry reads as zero), \<open>Before\<close> exactly when no
  node of the first clock is ahead and some node of the second is; swapping the
  arguments flips the answer, and happened-before is transitive.
\<close>

theorem compare_causal:
  "(vc_compare a b = Equal \<longleftrightarrow> (\<forall>n. hlc_or_zero a n = hlc_or_zero b n)) \<and>
   (vc_compare a b = Before \<longleftrightarrow>
     (\<forall>n. hlc_or_zero a n \<le> hlc_or_zero b n) \<and> (\<exists>n. hlc_or_zero a n < hlc_or_zero b n)) \<and>
   vc_compare b a = flip_order (vc_compare a b) \<and>
   (vc_compare a b = Before \<longrightarrow> vc_compare b c = Before \<longrightarrow> vc_compare a c = Before)"
proof (intro conjI impI)
  show "vc_compare a b = Equal \<longleftrightarrow> (\<forall>n. hlc_or_zero a n = hlc_or_zero b n)"
    by (auto simp: vc_compare_eq vc_le_def antisym)
  show "vc_compare a b = Before \<longleftrightarrow>
     (\<forall>n. hlc_or_zero a n \<le> hlc_or_zero b n) \<and> (\<exists>n. hlc_or_zero a n < hlc_or_zero b n)"
    by (auto simp: vc_compare_eq vc_le_def simp flip: not_le)
qed (auto intro: vc.compare_flip vc.before_trans)

theorem compare_causal_witness:
  "vc_compare \<lparr>vc_entries = [(NodeId 1, Hlc 4)]\<rparr> \<lparr>vc_entries = [(NodeId 1, Hlc 9)]\<rparr> = Before \<and>
   vc_compare \<lparr>vc_entries = [(NodeId 1, Hlc 4)]\<rparr>
     \<lparr>vc_entries = [(NodeId 1, Hlc 9), (NodeId 2, Hlc 1)]\<rparr> = Before"
proof -
  let ?a = "\<lparr>vc_entries = [(NodeId 1, Hlc 4)]\<rparr>" and ?b = "\<lparr>vc_entries = [(NodeId 1, Hlc 9)]\<rparr>"
  let ?c = "\<lparr>vc_entries = [(NodeId 1, Hlc 9), (NodeId 2, Hlc 1)]\<rparr>"
  have "vc_compare ?a ?b = Before" "vc_compare ?b ?c = Before" by code_simp+
  then show ?thesis using compare_causal [of ?a ?b ?c] by simp
qed

text \<open>
  C15: \<open>merge\<close> is a join.  It fails exactly when the two clocks together name more
  than \<open>MAX_ENTRIES\<close> nodes; when it succeeds the result is well formed and is the
  least clock above both; it commutes, and merging a clock with itself changes
  nothing.
\<close>

theorem merge_is_join:
  assumes "vc_wf a" "vc_wf b"
  shows "(vc_merge a b = Err VectorClockCapacityExceeded \<longleftrightarrow>
      MAX_ENTRIES < card (fst ` set (vc_entries a) \<union> fst ` set (vc_entries b))) \<and>
    (\<forall>c. vc_merge a b = Ok c \<longrightarrow> vc_wf c \<and> vc_le a c \<and> vc_le b c \<and>
      (\<forall>d. vc_le a d \<longrightarrow> vc_le b d \<longrightarrow> vc_le c d)) \<and>
    vc_merge a b = vc_merge b a \<and> vc_merge a a = Ok a"
  using vc_merge_Err_iff [OF assms] vc_merge_Ok [OF assms] vc_merge_upper [OF assms]
    vc_merge_commute [OF assms] vc_merge_idem [OF assms(1)]
  by simp

theorem merge_is_join_witness:
  "vc_merge \<lparr>vc_entries = [(NodeId 1, Hlc 4), (NodeId 3, Hlc 2)]\<rparr>
     \<lparr>vc_entries = [(NodeId 1, Hlc 3), (NodeId 2, Hlc 1)]\<rparr> =
   Ok \<lparr>vc_entries = [(NodeId 1, Hlc 4), (NodeId 2, Hlc 1), (NodeId 3, Hlc 2)]\<rparr> \<and>
   vc_wf \<lparr>vc_entries = [(NodeId 1, Hlc 4), (NodeId 2, Hlc 1), (NodeId 3, Hlc 2)]\<rparr>"
proof -
  let ?a = "\<lparr>vc_entries = [(NodeId 1, Hlc 4), (NodeId 3, Hlc 2)]\<rparr>"
  let ?b = "\<lparr>vc_entries = [(NodeId 1, Hlc 3), (NodeId 2, Hlc 1)]\<rparr>"
  have "vc_wf ?a" "vc_wf ?b"
    by (simp_all add: vc_wf_def bt_sorted_def less_node_id_def MAX_ENTRIES_def)
  moreover have "vc_merge ?a ?b =
      Ok \<lparr>vc_entries = [(NodeId 1, Hlc 4), (NodeId 2, Hlc 1), (NodeId 3, Hlc 2)]\<rparr>"
    by (simp add: vc_merge_def raise_entry_def less_node_id_def less_hlc_def MAX_ENTRIES_def)
  ultimately show ?thesis using merge_is_join [of ?a ?b] by simp
qed

text \<open>
  \<open>increment\<close> raises one entry and never lowers it: it fails exactly when the
  node is new and the clock is full, it keeps the clock well formed, the node's
  reading becomes the larger of the old and the new value, every other reading
  stays, and the result is causally at or after the old clock.
\<close>

theorem increment_correct:
  assumes "vc_wf c"
  shows "(increment n h c = Err VectorClockCapacityExceeded \<longleftrightarrow>
      vc_get c n = None \<and> vc_len c = MAX_ENTRIES) \<and>
    (\<forall>c'. increment n h c = Ok c' \<longrightarrow> vc_wf c' \<and> vc_le c c' \<and>
      hlc_or_zero c' n = max (hlc_or_zero c n) h \<and>
      (\<forall>k. k \<noteq> n \<longrightarrow> vc_get c' k = vc_get c k))"
proof (intro conjI allI impI)
  show "increment n h c = Err VectorClockCapacityExceeded \<longleftrightarrow>
      vc_get c n = None \<and> vc_len c = MAX_ENTRIES"
    using assms by (auto simp: increment_def vc_get_def vc_len_def vc_wf_def)
  fix c' assume "increment n h c = Ok c'"
  note inc = vc_increment_Ok [OF assms this]
  show "vc_wf c'" using inc by blast
  show "hlc_or_zero c' n = max (hlc_or_zero c n) h"
    using inc [of n] by (auto simp: hlc_or_zero_def max_opt_def split: option.splits)
  then show "vc_le c c'"
    unfolding vc_le_def using inc by (metis hlc_or_zero_def max.cobounded1 order_refl)
  show "vc_get c' k = vc_get c k" if "k \<noteq> n" for k using inc [of k] that by simp
qed

theorem increment_correct_witness:
  "increment (NodeId 2) (Hlc 7) \<lparr>vc_entries = [(NodeId 2, Hlc 5)]\<rparr> =
    Ok \<lparr>vc_entries = [(NodeId 2, Hlc 7)]\<rparr> \<and>
   vc_le \<lparr>vc_entries = [(NodeId 2, Hlc 5)]\<rparr> \<lparr>vc_entries = [(NodeId 2, Hlc 7)]\<rparr>"
proof -
  let ?c = "\<lparr>vc_entries = [(NodeId 2, Hlc 5)]\<rparr>"
  have "vc_wf ?c" by (simp add: vc_wf_def bt_sorted_def MAX_ENTRIES_def)
  moreover have "increment (NodeId 2) (Hlc 7) ?c = Ok \<lparr>vc_entries = [(NodeId 2, Hlc 7)]\<rparr>"
    by (simp add: increment_def raise_entry_def less_hlc_def)
  ultimately show ?thesis using increment_correct [of ?c "NodeId 2" "Hlc 7"] by simp
qed

end
