(* ===== verification/Doc_Value.thy ===== *)
theory Doc_Value
  imports Hlc
begin

text \<open>
  The document model of \<open>crates/bashfuldb-document/src\<close>: values (\<open>value.rs\<close>), their
  JSON forms, object identifiers, documents and names.  An \<open>f64\<close> is its IEEE 754
  bit pattern, an \<open>i64\<close> its two's complement word.  Numbers of the \<open>serde_json\<close>
  crate and its base64 text are parameters: the conversions take the accessors
  they call as arguments.
\<close>

section \<open>Limits and errors\<close>

definition MAX_NESTING_DEPTH :: nat where "MAX_NESTING_DEPTH = 64"
definition MAX_STRING_BLOB_SIZE :: nat where "MAX_STRING_BLOB_SIZE = 16 * 1024 * 1024"
definition MAX_ARRAY_ELEMENTS :: nat where "MAX_ARRAY_ELEMENTS = 1000000"
definition MAX_OBJECT_KEYS :: nat where "MAX_OBJECT_KEYS = 100000"
definition MAX_KEY_SIZE :: nat where "MAX_KEY_SIZE = 256"

type_synonym i64 = "64 word"
type_synonym f64 = "64 word"

datatype document_error =
    NestingDepthExceeded (depth: nat) (max_depth: nat)
  | ValueTooLarge (kind: string) (size_of: nat) (max_size: nat)
  | ArrayTooLarge nat nat
  | ObjectTooManyKeys nat nat
  | InvalidName string
  | ReservedName string
  | NotAnObject string
  | UnknownTypeTag u8
  | UnexpectedEof nat
  | InvalidUtf8 nat
  | NonFiniteFloat f64
  | UnsupportedCodecVersion u8
  | TrailingBytes nat nat
  | KeyTooLarge nat nat

text \<open>\<open>f64::is_finite\<close>: the exponent is not all ones.\<close>

definition f64_is_finite :: "f64 \<Rightarrow> bool" where
  "f64_is_finite f \<longleftrightarrow> and (drop_bit 52 f) 0x7FF \<noteq> 0x7FF"

section \<open>Values\<close>

datatype doc_value =
    VNull
  | VBool bool
  | VInt i64
  | VFloat f64
  | VString string
  | VBlob bytes
  | VArray "doc_value list"
  | VObject "(string \<times> doc_value) list"

fun type_name :: "doc_value \<Rightarrow> string" where
  "type_name VNull = ''Null''"
| "type_name (VBool _) = ''Bool''"
| "type_name (VInt _) = ''Int''"
| "type_name (VFloat _) = ''Float''"
| "type_name (VString _) = ''String''"
| "type_name (VBlob _) = ''Blob''"
| "type_name (VArray _) = ''Array''"
| "type_name (VObject _) = ''Object''"

fun is_object :: "doc_value \<Rightarrow> bool" where
  "is_object (VObject _) = True"
| "is_object _ = False"

fun is_null :: "doc_value \<Rightarrow> bool" where
  "is_null VNull = True"
| "is_null _ = False"

fun type_tag :: "doc_value \<Rightarrow> u8" where
  "type_tag VNull = 0x00"
| "type_tag (VBool _) = 0x01"
| "type_tag (VInt _) = 0x02"
| "type_tag (VFloat _) = 0x03"
| "type_tag (VString _) = 0x04"
| "type_tag (VBlob _) = 0x05"
| "type_tag (VArray _) = 0x06"
| "type_tag (VObject _) = 0x07"

fun as_str :: "doc_value \<Rightarrow> string option" where
  "as_str (VString s) = Some s"
| "as_str _ = None"

fun as_int :: "doc_value \<Rightarrow> i64 option" where
  "as_int (VInt i) = Some i"
| "as_int _ = None"

fun as_float :: "doc_value \<Rightarrow> f64 option" where
  "as_float (VFloat f) = Some f"
| "as_float _ = None"

fun as_bool :: "doc_value \<Rightarrow> bool option" where
  "as_bool (VBool b) = Some b"
| "as_bool _ = None"

fun as_array :: "doc_value \<Rightarrow> doc_value list option" where
  "as_array (VArray a) = Some a"
| "as_array _ = None"

fun as_object :: "doc_value \<Rightarrow> (string, doc_value) btree option" where
  "as_object (VObject m) = Some m"
| "as_object _ = None"

fun as_blob :: "doc_value \<Rightarrow> bytes option" where
  "as_blob (VBlob b) = Some b"
| "as_blob _ = None"

text \<open>
  \<open>Debug\<close>.  How the standard library prints a float and quotes a string are arguments; \<open>&v[..n]\<close> panics when
  \<open>n\<close> is not a character boundary.
\<close>

definition slice_to :: "nat \<Rightarrow> string \<Rightarrow> string option" where
  "slice_to n v = (if n < length v \<and> utf8_cont (of_char (v ! n)) \<or> length v < n then None else Some (take n v))"

fun debug_value :: "(f64 \<Rightarrow> string) \<Rightarrow> (string \<Rightarrow> string) \<Rightarrow> doc_value \<Rightarrow> string option" where
  "debug_value fl quote VNull = Some ''Null''"
| "debug_value fl quote (VBool v) = Some (''Bool('' @ (if v then ''true'' else ''false'') @ '')'')"
| "debug_value fl quote (VInt v) = Some (''Int('' @ show_int (sint v) @ '')'')"
| "debug_value fl quote (VFloat v) = Some (''Float('' @ fl v @ '')'')"
| "debug_value fl quote (VString v) =
    (if 32 < length v
     then map_option (\<lambda>p. ''String('' @ [CHR 0x22] @ p @ ''...'' @ [CHR 0x22] @ '' len='' @ show_nat (length v) @ '')'')
       (slice_to 32 v)
     else Some (''String('' @ quote v @ '')''))"
| "debug_value fl quote (VBlob v) = Some (''Blob('' @ show_nat (length v) @ '' bytes)'')"
| "debug_value fl quote (VArray v) = Some (''Array('' @ show_nat (length v) @ '' items)'')"
| "debug_value fl quote (VObject v) = Some (''Object('' @ show_nat (length v) @ '' keys)'')"

text \<open>What the Rust types guarantee: strings are UTF-8 and maps are ordered.\<close>

fun value_wf :: "doc_value \<Rightarrow> bool" where
  "value_wf (VString s) = utf8_valid (as_bytes s)"
| "value_wf (VArray vs) = (\<forall>v \<in> set vs. value_wf v)"
| "value_wf (VObject m) =
    (bt_sorted m \<and> (\<forall>(k, v) \<in> set m. utf8_valid (as_bytes k) \<and> value_wf v))"
| "value_wf _ = True"

section \<open>JSON\<close>

datatype 'n json =
    JNull
  | JBool bool
  | JNumber 'n
  | JString string
  | JArray "'n json list"
  | JObject "(string \<times> 'n json) list"

fun json_to_doc :: "('n \<Rightarrow> i64 option) \<Rightarrow> ('n \<Rightarrow> f64 option) \<Rightarrow> 'n json \<Rightarrow> doc_value" where
  "json_to_doc as_i64 as_f64 JNull = VNull"
| "json_to_doc as_i64 as_f64 (JBool b) = VBool b"
| "json_to_doc as_i64 as_f64 (JNumber n) =
    (case as_i64 n of
       Some i \<Rightarrow> VInt i
     | None \<Rightarrow> VFloat (case as_f64 n of Some f \<Rightarrow> f | None \<Rightarrow> 0))"
| "json_to_doc as_i64 as_f64 (JString s) = VString s"
| "json_to_doc as_i64 as_f64 (JArray a) = VArray (map (json_to_doc as_i64 as_f64) a)"
| "json_to_doc as_i64 as_f64 (JObject m) =
    VObject (bt_collect (map (\<lambda>(k, v). (k, json_to_doc as_i64 as_f64 v)) m))"

fun doc_to_json ::
  "(i64 \<Rightarrow> 'n) \<Rightarrow> (f64 \<Rightarrow> 'n option) \<Rightarrow> (bytes \<Rightarrow> string) \<Rightarrow> doc_value \<Rightarrow> 'n json" where
  "doc_to_json of_i64 of_f64 b64 VNull = JNull"
| "doc_to_json of_i64 of_f64 b64 (VBool b) = JBool b"
| "doc_to_json of_i64 of_f64 b64 (VInt i) = JNumber (of_i64 i)"
| "doc_to_json of_i64 of_f64 b64 (VFloat f) =
    (case of_f64 f of Some n \<Rightarrow> JNumber n | None \<Rightarrow> JNull)"
| "doc_to_json of_i64 of_f64 b64 (VString s) = JString s"
| "doc_to_json of_i64 of_f64 b64 (VBlob b) = JString (b64 b)"
| "doc_to_json of_i64 of_f64 b64 (VArray a) = JArray (map (doc_to_json of_i64 of_f64 b64) a)"
| "doc_to_json of_i64 of_f64 b64 (VObject m) =
    JObject (bt_collect (map (\<lambda>(k, v). (k, doc_to_json of_i64 of_f64 b64 v)) m))"

text \<open>The values JSON can express: no blob, no infinity or NaN.\<close>

fun json_expressible :: "doc_value \<Rightarrow> bool" where
  "json_expressible (VFloat f) = f64_is_finite f"
| "json_expressible (VBlob _) = False"
| "json_expressible (VArray vs) = (\<forall>v \<in> set vs. json_expressible v)"
| "json_expressible (VObject m) = (\<forall>(k, v) \<in> set m. json_expressible v)"
| "json_expressible _ = True"

section \<open>Documents and names\<close>

datatype object_id = ObjectId (oid_uuid: u128)

instantiation object_id :: linorder
begin

definition less_eq_object_id :: "object_id \<Rightarrow> object_id \<Rightarrow> bool" where
  "less_eq_object_id a b \<longleftrightarrow> oid_uuid a \<le> oid_uuid b"

definition less_object_id :: "object_id \<Rightarrow> object_id \<Rightarrow> bool" where
  "less_object_id a b \<longleftrightarrow> oid_uuid a < oid_uuid b"

instance
  by standard (auto simp: less_eq_object_id_def less_object_id_def object_id.expand)

end

definition oid_to_bytes :: "object_id \<Rightarrow> bytes" where
  "oid_to_bytes i = be_bytes 16 (oid_uuid i)"

definition oid_from_bytes :: "bytes \<Rightarrow> object_id" where
  "oid_from_bytes bs = ObjectId (of_be_bytes bs)"

definition oid_nil :: object_id where
  "oid_nil = ObjectId 0"

record document =
  doc_id :: object_id
  doc_data :: doc_value

definition document_new :: "object_id \<Rightarrow> doc_value \<Rightarrow> (document_error, document) result" where
  "document_new i d =
    (if \<not> is_object d then Err (NotAnObject (type_name d)) else Ok \<lparr>doc_id = i, doc_data = d\<rparr>)"

definition into_parts :: "document \<Rightarrow> object_id \<times> doc_value" where
  "into_parts d = (doc_id d, doc_data d)"

definition is_name_byte :: "u8 \<Rightarrow> bool" where
  "is_name_byte b \<longleftrightarrow> (97 \<le> b \<and> b \<le> 122) \<or> (48 \<le> b \<and> b \<le> 57) \<or> b = 95"

definition validate_name :: "string \<Rightarrow> (document_error, unit) result" where
  "validate_name name =
    (if name = [] \<or> 64 < length name then Err (InvalidName name)
     else if \<not> list_all is_name_byte (as_bytes name) then Err (InvalidName name)
     else if name = ''_default'' \<or> name = ''_system'' then Err (ReservedName name)
     else Ok ())"

section \<open>JSON round trip\<close>

text \<open>
  What the \<open>serde_json\<close> documentation says of numbers: an integer made from an
  \<open>i64\<close> reads back as it, and a finite float is a number that is not an integer
  and reads back as itself.
\<close>

definition number_laws ::
  "('n \<Rightarrow> i64 option) \<Rightarrow> ('n \<Rightarrow> f64 option) \<Rightarrow> (i64 \<Rightarrow> 'n) \<Rightarrow> (f64 \<Rightarrow> 'n option) \<Rightarrow> bool" where
  "number_laws as_i64 as_f64 of_i64 of_f64 \<longleftrightarrow>
    (\<forall>i. as_i64 (of_i64 i) = Some i) \<and>
    (\<forall>f. f64_is_finite f \<longrightarrow>
      (\<exists>n. of_f64 f = Some n \<and> as_i64 n = None \<and> as_f64 n = Some f))"

lemma bt_sorted_map_value: "bt_sorted (map (\<lambda>(k, v). (k, f v)) m) \<longleftrightarrow> bt_sorted m"
  by (simp add: bt_sorted_def comp_def case_prod_unfold)

lemma bt_collect_map_value:
  "bt_sorted m \<Longrightarrow> bt_collect (map (\<lambda>(k, v). (k, f v)) m) = map (\<lambda>(k, v). (k, f v)) m"
  by (simp add: bt_collect_sorted bt_sorted_map_value)

lemma json_roundtrip:
  assumes laws: "number_laws as_i64 as_f64 of_i64 of_f64"
  shows "value_wf v \<Longrightarrow> json_expressible v \<Longrightarrow>
    json_to_doc as_i64 as_f64 (doc_to_json of_i64 of_f64 b64 v) = v"
proof (induction v)
  case (VFloat f)
  then obtain n where "of_f64 f = Some n" "as_i64 n = None" "as_f64 n = Some f"
    using laws by (auto simp: number_laws_def)
  then show ?case by simp
next
  case (VArray vs)
  then show ?case by (auto intro!: map_idI)
next
  case (VObject m)
  let ?f = "\<lambda>v. json_to_doc as_i64 as_f64 (doc_to_json of_i64 of_f64 b64 v)"
  have "map (\<lambda>(k, v). (k, ?f v)) m = m"
    using VObject by (intro map_idI) fastforce
  moreover have "bt_sorted m" using VObject by simp
  ultimately show ?case
    by (simp add: bt_collect_map_value bt_sorted_map_value)
      (simp add: comp_def case_prod_unfold bt_collect_sorted)
qed (use laws in \<open>auto simp: number_laws_def\<close>)

section \<open>Names\<close>

lemma is_name_byte_char:
  "is_name_byte (of_char c) \<longleftrightarrow> c \<in> set ''abcdefghijklmnopqrstuvwxyz0123456789_''"
proof -
  have "\<forall>c. is_name_byte (of_char c) \<longleftrightarrow> c \<in> set ''abcdefghijklmnopqrstuvwxyz0123456789_''"
    by code_simp
  then show ?thesis by blast
qed

section \<open>Debug output\<close>

text \<open>A value within every limit on which \<open>Debug\<close> panics: 31 letters and a character of two bytes.\<close>

lemma debug_value_panics:
  "value_wf (VString (replicate 31 (CHR ''a'') @ [CHR 0xC3, CHR 0xA9])) \<and>
   debug_value fl quote (VString (replicate 31 (CHR ''a'') @ [CHR 0xC3, CHR 0xA9])) = None"
proof -
  have "value_wf (VString (replicate 31 (CHR ''a'') @ [CHR 0xC3, CHR 0xA9]))" by code_simp
  moreover have "slice_to 32 (replicate 31 (CHR ''a'') @ [CHR 0xC3, CHR 0xA9]) = None" by code_simp
  ultimately show ?thesis by simp
qed

section \<open>Properties\<close>

text \<open>
  Converting a document value to JSON and back gives the value again, for
  every value JSON can express (no blob, no infinity, no NaN), given what the JSON
  library documents of its numbers.
\<close>

theorem doc_json_roundtrip:
  assumes "number_laws as_i64 as_f64 of_i64 of_f64" "value_wf v" "json_expressible v"
  shows "json_to_doc as_i64 as_f64 (doc_to_json of_i64 of_f64 b64 v) = v"
  using assms by (rule json_roundtrip)

theorem doc_json_roundtrip_witness:
  "json_to_doc (case_sum Some (\<lambda>_. None)) (case_sum (\<lambda>_. None) Some)
    (doc_to_json Inl (\<lambda>f. if f64_is_finite f then Some (Inr f) else None) (\<lambda>_. [])
      (VObject [(''a'', VArray [VInt 7, VFloat 0]), (''b'', VString ''x'')])) =
   VObject [(''a'', VArray [VInt 7, VFloat 0]), (''b'', VString ''x'')]"
proof (rule doc_json_roundtrip)
  show "number_laws (case_sum Some (\<lambda>_. None)) (case_sum (\<lambda>_. None) Some) Inl
      (\<lambda>f. if f64_is_finite f then Some (Inr f) else None)"
    by (simp add: number_laws_def)
qed (code_simp, code_simp)

text \<open>
  \<open>validate_name\<close> accepts exactly the names of 1 to 64 characters from
  \<open>[a-z0-9_]\<close> other than the two reserved ones, and reports a reserved name as
  such.
\<close>

theorem validate_name_iff:
  "(validate_name name = Ok () \<longleftrightarrow>
    name \<noteq> [] \<and> length name \<le> 64 \<and>
    set name \<subseteq> set ''abcdefghijklmnopqrstuvwxyz0123456789_'' \<and>
    name \<notin> {''_default'', ''_system''}) \<and>
   (validate_name name = Err (ReservedName name) \<longleftrightarrow> name \<in> {''_default'', ''_system''})"
proof -
  have "list_all is_name_byte (as_bytes name) \<longleftrightarrow>
      set name \<subseteq> set ''abcdefghijklmnopqrstuvwxyz0123456789_''"
    by (auto simp: as_bytes_def list_all_iff is_name_byte_char simp del: set_simps)
  moreover have "set s \<subseteq> set ''abcdefghijklmnopqrstuvwxyz0123456789_''"
    if "s \<in> {''_default'', ''_system''}" for s
    using that by auto
  ultimately show ?thesis
    by (auto simp: validate_name_def simp del: set_simps)
qed

end
