(* ===== verification/Codec.thy ===== *)
theory Codec
  imports Doc_Value
begin

text \<open>
  The tagged binary codec (\<open>crates/bashfuldb-document/src/codec.rs\<close>).  The encoder
  appends to a buffer and stops at the first error; the decoder reads an input at
  an offset it advances.  The three loops of each are functions of their own:
  \<open>decode_items\<close> and \<open>decode_entries\<close> count down the elements left to read.
\<close>

definition CODEC_MAGIC :: bytes where "CODEC_MAGIC = as_bytes ''BDB''"
definition CODEC_VERSION :: u8 where "CODEC_VERSION = 1"
definition HEADER_SIZE :: nat where "HEADER_SIZE = 4"

type_synonym 'a decoded = "(document_error, 'a \<times> nat) result"

section \<open>Encoding\<close>

definition be_len :: "nat \<Rightarrow> bytes" where
  "be_len n = be_bytes 4 (word_of_nat n :: u32)"

fun encode_value :: "doc_value \<Rightarrow> bytes \<Rightarrow> nat \<Rightarrow> (document_error, bytes) result"
  and encode_items :: "doc_value list \<Rightarrow> bytes \<Rightarrow> nat \<Rightarrow> (document_error, bytes) result"
  and encode_entries :: "(string \<times> doc_value) list \<Rightarrow> bytes \<Rightarrow> nat \<Rightarrow> (document_error, bytes) result"
where
  "encode_value v buf d =
    (if MAX_NESTING_DEPTH < d then Err (NestingDepthExceeded d MAX_NESTING_DEPTH)
     else let buf = buf @ [type_tag v] in
       case v of
         VNull \<Rightarrow> Ok buf
       | VBool b \<Rightarrow> Ok (buf @ [if b then 0x01 else 0x00])
       | VInt i \<Rightarrow> Ok (buf @ be_bytes 8 i)
       | VFloat f \<Rightarrow>
           if \<not> f64_is_finite f then Err (NonFiniteFloat f) else Ok (buf @ be_bytes 8 f)
       | VString s \<Rightarrow>
           if MAX_STRING_BLOB_SIZE < length s
           then Err (ValueTooLarge ''String'' (length s) MAX_STRING_BLOB_SIZE)
           else Ok (buf @ be_len (length s) @ as_bytes s)
       | VBlob b \<Rightarrow>
           if MAX_STRING_BLOB_SIZE < length b
           then Err (ValueTooLarge ''Blob'' (length b) MAX_STRING_BLOB_SIZE)
           else Ok (buf @ be_len (length b) @ b)
       | VArray items \<Rightarrow>
           if MAX_ARRAY_ELEMENTS < length items
           then Err (ArrayTooLarge (length items) MAX_ARRAY_ELEMENTS)
           else encode_items items (buf @ be_len (length items)) d
       | VObject m \<Rightarrow>
           if MAX_OBJECT_KEYS < length m
           then Err (ObjectTooManyKeys (length m) MAX_OBJECT_KEYS)
           else encode_entries m (buf @ be_len (length m)) d)"
| "encode_items [] buf d = Ok buf"
| "encode_items (item # items) buf d =
    (case encode_value item buf (d + 1) of
       Err e \<Rightarrow> Err e
     | Ok buf' \<Rightarrow> encode_items items buf' d)"
| "encode_entries [] buf d = Ok buf"
| "encode_entries ((k, v) # m) buf d =
    (if MAX_KEY_SIZE < length k then Err (KeyTooLarge (length k) MAX_KEY_SIZE)
     else case encode_value v (buf @ be_len (length k) @ as_bytes k) (d + 1) of
       Err e \<Rightarrow> Err e
     | Ok buf' \<Rightarrow> encode_entries m buf' d)"

definition encode :: "doc_value \<Rightarrow> (document_error, bytes) result" where
  "encode v = encode_value v (CODEC_MAGIC @ [CODEC_VERSION]) 0"

fun compute_size :: "doc_value \<Rightarrow> nat" where
  "compute_size VNull = 1 + 0"
| "compute_size (VBool _) = 1 + 1"
| "compute_size (VInt _) = 1 + 8"
| "compute_size (VFloat _) = 1 + 8"
| "compute_size (VString s) = 1 + (4 + length s)"
| "compute_size (VBlob b) = 1 + (4 + length b)"
| "compute_size (VArray items) = 1 + (4 + sum_list (map compute_size items))"
| "compute_size (VObject m) = 1 + (4 + sum_list (map (\<lambda>(k, v). 4 + length k + compute_size v) m))"

definition encoded_size :: "doc_value \<Rightarrow> nat" where
  "encoded_size v = compute_size v"

section \<open>Decoding\<close>

definition read_u8 :: "bytes \<Rightarrow> nat \<Rightarrow> u8 decoded" where
  "read_u8 bs off = (if length bs \<le> off then Err (UnexpectedEof off) else Ok (bs ! off, off + 1))"

definition read_bytes :: "nat \<Rightarrow> bytes \<Rightarrow> nat \<Rightarrow> bytes decoded" where
  "read_bytes n bs off =
    (if length bs < off + n then Err (UnexpectedEof off) else Ok (take n (drop off bs), off + n))"

definition read_slice :: "bytes \<Rightarrow> nat \<Rightarrow> nat \<Rightarrow> bytes decoded" where
  "read_slice bs off len =
    (if length bs < off + len then Err (UnexpectedEof off)
     else Ok (take len (drop off bs), off + len))"

definition read_len :: "bytes \<Rightarrow> nat \<Rightarrow> nat decoded" where
  "read_len bs off = (case read_bytes 4 bs off of
      Err e \<Rightarrow> Err e
    | Ok (b, off') \<Rightarrow> Ok (unat (of_be_bytes b :: u32), off'))"

definition read_str :: "bytes \<Rightarrow> nat \<Rightarrow> nat \<Rightarrow> string decoded" where
  "read_str bs off len = (case read_slice bs off len of
      Err e \<Rightarrow> Err e
    | Ok (b, off') \<Rightarrow>
        (case from_utf8 b of None \<Rightarrow> Err (InvalidUtf8 (off' - len)) | Some s \<Rightarrow> Ok (s, off')))"

text \<open>
  The nesting limit bounds the recursion: below it a call at depth \<open>d\<close> has a rank
  that falls with \<open>d\<close>, above it the decoder returns at once.
\<close>

definition decode_rank :: "nat \<Rightarrow> nat" where
  "decode_rank d = (if MAX_NESTING_DEPTH < d then 0 else 2 * (MAX_NESTING_DEPTH + 1 - d) + 1)"

definition loop_rank :: "nat \<Rightarrow> nat" where
  "loop_rank d = (if MAX_NESTING_DEPTH < d then 1 else 2 * (MAX_NESTING_DEPTH + 1 - d))"

lemma rank_loop: "decode_rank (Suc d) < loop_rank d"
  by (auto simp: decode_rank_def loop_rank_def)

lemma rank_decode: "\<not> MAX_NESTING_DEPTH < d \<Longrightarrow> loop_rank d < decode_rank d"
  by (auto simp: decode_rank_def loop_rank_def)

text \<open>The limits both directions enforce, and those only the encoder does.\<close>

fun structure_ok :: "doc_value \<Rightarrow> nat \<Rightarrow> bool" where
  "structure_ok (VString s) d = (d \<le> MAX_NESTING_DEPTH \<and> length s \<le> MAX_STRING_BLOB_SIZE)"
| "structure_ok (VBlob b) d = (d \<le> MAX_NESTING_DEPTH \<and> length b \<le> MAX_STRING_BLOB_SIZE)"
| "structure_ok (VArray vs) d =
    (d \<le> MAX_NESTING_DEPTH \<and> length vs \<le> MAX_ARRAY_ELEMENTS \<and> (\<forall>v \<in> set vs. structure_ok v (d + 1)))"
| "structure_ok (VObject m) d =
    (d \<le> MAX_NESTING_DEPTH \<and> length m \<le> MAX_OBJECT_KEYS \<and>
     (\<forall>(k, v) \<in> set m. structure_ok v (d + 1)))"
| "structure_ok _ d = (d \<le> MAX_NESTING_DEPTH)"

fun payload_ok :: "doc_value \<Rightarrow> bool" where
  "payload_ok (VFloat f) = f64_is_finite f"
| "payload_ok (VArray vs) = (\<forall>v \<in> set vs. payload_ok v)"
| "payload_ok (VObject m) = (\<forall>(k, v) \<in> set m. length k \<le> MAX_KEY_SIZE \<and> payload_ok v)"
| "payload_ok _ = True"

function (sequential) decode_value :: "bytes \<Rightarrow> nat \<Rightarrow> nat \<Rightarrow> doc_value decoded"
  and decode_items :: "nat \<Rightarrow> doc_value list \<Rightarrow> bytes \<Rightarrow> nat \<Rightarrow> nat \<Rightarrow> doc_value list decoded"
  and decode_entries ::
    "nat \<Rightarrow> (string, doc_value) btree \<Rightarrow> bytes \<Rightarrow> nat \<Rightarrow> nat \<Rightarrow> (string, doc_value) btree decoded"
where
  "decode_value bs off d =
    (if MAX_NESTING_DEPTH < d then Err (NestingDepthExceeded d MAX_NESTING_DEPTH)
     else case read_u8 bs off of
       Err e \<Rightarrow> Err e
     | Ok (tag, off) \<Rightarrow>
         if tag = 0x00 then Ok (VNull, off)
         else if tag = 0x01 then
           (case read_u8 bs off of Err e \<Rightarrow> Err e | Ok (b, off) \<Rightarrow> Ok (VBool (b \<noteq> 0), off))
         else if tag = 0x02 then
           (case read_bytes 8 bs off of Err e \<Rightarrow> Err e
            | Ok (b, off) \<Rightarrow> Ok (VInt (of_be_bytes b), off))
         else if tag = 0x03 then
           (case read_bytes 8 bs off of Err e \<Rightarrow> Err e
            | Ok (b, off) \<Rightarrow> Ok (VFloat (of_be_bytes b), off))
         else if tag = 0x04 then
           (case read_len bs off of Err e \<Rightarrow> Err e
            | Ok (len, off) \<Rightarrow>
                if MAX_STRING_BLOB_SIZE < len
                then Err (ValueTooLarge ''String'' len MAX_STRING_BLOB_SIZE)
                else case read_str bs off len of Err e \<Rightarrow> Err e
                  | Ok (s, off) \<Rightarrow> Ok (VString s, off))
         else if tag = 0x05 then
           (case read_len bs off of Err e \<Rightarrow> Err e
            | Ok (len, off) \<Rightarrow>
                if MAX_STRING_BLOB_SIZE < len
                then Err (ValueTooLarge ''Blob'' len MAX_STRING_BLOB_SIZE)
                else case read_slice bs off len of Err e \<Rightarrow> Err e
                  | Ok (b, off) \<Rightarrow> Ok (VBlob b, off))
         else if tag = 0x06 then
           (case read_len bs off of Err e \<Rightarrow> Err e
            | Ok (count, off) \<Rightarrow>
                if MAX_ARRAY_ELEMENTS < count then Err (ArrayTooLarge count MAX_ARRAY_ELEMENTS)
                else case decode_items count [] bs off d of Err e \<Rightarrow> Err e
                  | Ok (items, off) \<Rightarrow> Ok (VArray items, off))
         else if tag = 0x07 then
           (case read_len bs off of Err e \<Rightarrow> Err e
            | Ok (count, off) \<Rightarrow>
                if MAX_OBJECT_KEYS < count then Err (ObjectTooManyKeys count MAX_OBJECT_KEYS)
                else case decode_entries count [] bs off d of Err e \<Rightarrow> Err e
                  | Ok (m, off) \<Rightarrow> Ok (VObject m, off))
         else Err (UnknownTypeTag tag))"
| "decode_items 0 items bs off d = Ok (items, off)"
| "decode_items (Suc n) items bs off d =
    (case decode_value bs off (d + 1) of
       Err e \<Rightarrow> Err e
     | Ok (v, off') \<Rightarrow> decode_items n (items @ [v]) bs off' d)"
| "decode_entries 0 m bs off d = Ok (m, off)"
| "decode_entries (Suc n) m bs off d =
    (case read_len bs off of Err e \<Rightarrow> Err e
     | Ok (key_len, off) \<Rightarrow>
         (case read_str bs off key_len of Err e \<Rightarrow> Err e
          | Ok (key, off) \<Rightarrow>
              (case decode_value bs off (d + 1) of Err e \<Rightarrow> Err e
               | Ok (v, off) \<Rightarrow> decode_entries n (bt_insert key v m) bs off d)))"
  by pat_completeness auto

termination
  by (relation "inv_image (less_than <*lex*> less_than) (\<lambda>c. case c of
      Inl (bs, off, d) \<Rightarrow> (decode_rank d, 0)
    | Inr (Inl (n, items, bs, off, d)) \<Rightarrow> (loop_rank d, n)
    | Inr (Inr (n, m, bs, off, d)) \<Rightarrow> (loop_rank d, n))")
    (auto simp: rank_loop rank_decode)

definition decode :: "bytes \<Rightarrow> (document_error, doc_value) result" where
  "decode bs =
    (if length bs < HEADER_SIZE then Err (UnexpectedEof 0)
     else if take 3 bs \<noteq> CODEC_MAGIC then Err (UnknownTypeTag (bs ! 0))
     else if bs ! 3 \<noteq> CODEC_VERSION then Err (UnsupportedCodecVersion (bs ! 3))
     else case decode_value bs HEADER_SIZE 0 of
       Err e \<Rightarrow> Err e
     | Ok (v, off) \<Rightarrow>
         if off < length bs then Err (TrailingBytes off (length bs - off)) else Ok v)"

declare encode_value.simps [simp del] decode_value.simps [simp del]

section \<open>Reading what was written\<close>

named_theorems read_simps \<open>the readers at a known position\<close>

lemma length_be_len [simp]: "length (be_len n) = 4"
  by (simp add: be_len_def)

lemma read_u8_at [read_simps]:
  "off = length pre \<Longrightarrow> read_u8 (pre @ b # post) off = Ok (b, Suc off)"
  by (simp add: read_u8_def)

lemma read_bytes_at [read_simps]:
  "off = length pre \<Longrightarrow> n = length x \<Longrightarrow> read_bytes n (pre @ x @ post) off = Ok (x, off + n)"
  by (simp add: read_bytes_def)

lemma read_slice_at [read_simps]:
  "off = length pre \<Longrightarrow> n = length x \<Longrightarrow> read_slice (pre @ x @ post) off n = Ok (x, off + n)"
  by (simp add: read_slice_def)

lemma read_len_at [read_simps]:
  assumes "off = length pre" "n < 2 ^ 32"
  shows "read_len (pre @ be_len n @ post) off = Ok (n, off + 4)"
proof -
  have "of_be_bytes (be_len n) = (word_of_nat n :: u32)"
    by (simp add: be_len_def of_be_bytes_roundtrip)
  moreover have "unat (word_of_nat n :: u32) = n" using assms(2) by (simp add: unat_of_nat)
  ultimately show ?thesis using assms(1) by (simp add: read_len_def read_simps)
qed

lemma read_str_at [read_simps]:
  "off = length pre \<Longrightarrow> n = length s \<Longrightarrow> utf8_valid (as_bytes s) \<Longrightarrow>
    read_str (pre @ as_bytes s @ post) off n = Ok (s, off + n)"
  by (simp add: read_str_def read_slice_at from_utf8_as_bytes)

lemma decode_fixed:
  assumes "d \<le> MAX_NESTING_DEPTH"
  shows "decode_value (pre @ [0] @ post) (length pre) d = Ok (VNull, length pre + 1)"
    "decode_value (pre @ [1, c] @ post) (length pre) d = Ok (VBool (c \<noteq> 0), length pre + 2)"
    "decode_value (pre @ (2 # be_bytes 8 i) @ post) (length pre) d = Ok (VInt i, length pre + 9)"
    "decode_value (pre @ (3 # be_bytes 8 f) @ post) (length pre) d = Ok (VFloat f, length pre + 9)"
proof -
  have r: "read_bytes 8 (pre @ t # be_bytes 8 w @ post) (Suc (length pre)) =
      Ok (be_bytes 8 w, Suc (length pre) + 8)" for t and w :: i64
    using read_bytes_at [of "Suc (length pre)" "pre @ [t]" 8 "be_bytes 8 w" post] by simp
  have b: "read_u8 (pre @ t # c # post) (Suc (length pre)) = Ok (c, Suc (Suc (length pre)))" for t c
    using read_u8_at [of "Suc (length pre)" "pre @ [t]" c post] by simp
  show "decode_value (pre @ [0] @ post) (length pre) d = Ok (VNull, length pre + 1)"
    "decode_value (pre @ [1, c] @ post) (length pre) d = Ok (VBool (c \<noteq> 0), length pre + 2)"
    "decode_value (pre @ (2 # be_bytes 8 i) @ post) (length pre) d = Ok (VInt i, length pre + 9)"
    "decode_value (pre @ (3 # be_bytes 8 f) @ post) (length pre) d = Ok (VFloat f, length pre + 9)"
    using assms by (simp_all add: decode_value.simps read_u8_at r b of_be_bytes_roundtrip)
qed

lemma decode_sized:
  assumes "d \<le> MAX_NESTING_DEPTH"
  shows "utf8_valid (as_bytes s) \<Longrightarrow> length s \<le> MAX_STRING_BLOB_SIZE \<Longrightarrow>
      decode_value (pre @ (4 # be_len (length s) @ as_bytes s) @ post) (length pre) d =
      Ok (VString s, length pre + (5 + length s))"
    "length b \<le> MAX_STRING_BLOB_SIZE \<Longrightarrow>
      decode_value (pre @ (5 # be_len (length b) @ b) @ post) (length pre) d =
      Ok (VBlob b, length pre + (5 + length b))"
proof -
  have l: "read_len (pre @ t # be_len n @ rest) (Suc (length pre)) = Ok (n, Suc (length pre) + 4)"
    if "n \<le> MAX_STRING_BLOB_SIZE" for t n rest
    using read_len_at [of "Suc (length pre)" "pre @ [t]" n rest] that
    by (simp add: MAX_STRING_BLOB_SIZE_def)
  show "decode_value (pre @ (4 # be_len (length s) @ as_bytes s) @ post) (length pre) d =
      Ok (VString s, length pre + (5 + length s))"
    if "utf8_valid (as_bytes s)" "length s \<le> MAX_STRING_BLOB_SIZE"
    using assms that l read_str_at [of "5 + length pre" "pre @ 4 # be_len (length s)" "length s" s post]
    by (simp add: decode_value.simps read_u8_at)
  show "decode_value (pre @ (5 # be_len (length b) @ b) @ post) (length pre) d =
      Ok (VBlob b, length pre + (5 + length b))"
    if "length b \<le> MAX_STRING_BLOB_SIZE"
    using assms that l read_slice_at [of "5 + length pre" "pre @ 5 # be_len (length b)" "length b" b post]
    by (simp add: decode_value.simps read_u8_at)
qed

text \<open>What it means that \<open>enc\<close>, written after \<open>buf\<close>, reads back.\<close>

definition reads_value :: "doc_value \<Rightarrow> bytes \<Rightarrow> nat \<Rightarrow> bytes \<Rightarrow> bool" where
  "reads_value v buf d enc \<longleftrightarrow> length enc = compute_size v \<and>
    (\<forall>post. decode_value (buf @ enc @ post) (length buf) d = Ok (v, length buf + length enc))"

definition reads_items :: "doc_value list \<Rightarrow> bytes \<Rightarrow> nat \<Rightarrow> bytes \<Rightarrow> bool" where
  "reads_items vs buf d enc \<longleftrightarrow> length enc = sum_list (map compute_size vs) \<and>
    (\<forall>post acc. decode_items (length vs) acc (buf @ enc @ post) (length buf) d =
        Ok (acc @ vs, length buf + length enc))"

definition reads_entries :: "(string \<times> doc_value) list \<Rightarrow> bytes \<Rightarrow> nat \<Rightarrow> bytes \<Rightarrow> bool" where
  "reads_entries m buf d enc \<longleftrightarrow>
    length enc = sum_list (map (\<lambda>(k, v). 4 + length k + compute_size v) m) \<and>
    (\<forall>post acc. bt_sorted (acc @ m) \<longrightarrow>
        decode_entries (length m) acc (buf @ enc @ post) (length buf) d =
        Ok (acc @ m, length buf + length enc))"

lemma reads_array:
  assumes "d \<le> MAX_NESTING_DEPTH" "length vs \<le> MAX_ARRAY_ELEMENTS"
    and "reads_items vs (buf @ 6 # be_len (length vs)) d enc"
  shows "reads_value (VArray vs) buf d (6 # be_len (length vs) @ enc)"
proof -
  have "read_len (buf @ 6 # be_len (length vs) @ rest) (Suc (length buf)) =
      Ok (length vs, length buf + 5)" for rest
    using read_len_at [of "Suc (length buf)" "buf @ [6]" "length vs" rest] assms(2)
    by (simp add: MAX_ARRAY_ELEMENTS_def)
  then show ?thesis
    using assms by (simp add: reads_value_def reads_items_def decode_value.simps read_u8_at)
qed

lemma reads_object:
  assumes "d \<le> MAX_NESTING_DEPTH" "length m \<le> MAX_OBJECT_KEYS" "bt_sorted m"
    and "reads_entries m (buf @ 7 # be_len (length m)) d enc"
  shows "reads_value (VObject m) buf d (7 # be_len (length m) @ enc)"
proof -
  have "read_len (buf @ 7 # be_len (length m) @ rest) (Suc (length buf)) =
      Ok (length m, length buf + 5)" for rest
    using read_len_at [of "Suc (length buf)" "buf @ [7]" "length m" rest] assms(2)
    by (simp add: MAX_OBJECT_KEYS_def)
  then show ?thesis
    using assms by (simp add: reads_value_def reads_entries_def decode_value.simps read_u8_at)
qed

lemma reads_items_Cons:
  "reads_value v buf (Suc d) x \<Longrightarrow> reads_items vs (buf @ x) d y \<Longrightarrow> reads_items (v # vs) buf d (x @ y)"
  by (simp add: reads_value_def reads_items_def)

lemma reads_entries_Cons:
  assumes k: "length k \<le> MAX_KEY_SIZE" "utf8_valid (as_bytes k)"
    and v: "reads_value v (buf @ be_len (length k) @ as_bytes k) (Suc d) x"
    and m: "reads_entries m (buf @ be_len (length k) @ as_bytes k @ x) d y"
  shows "reads_entries ((k, v) # m) buf d (be_len (length k) @ as_bytes k @ x @ y)"
proof -
  have l: "read_len (buf @ be_len (length k) @ rest) (length buf) = Ok (length k, length buf + 4)" for rest
    using read_len_at [of "length buf" buf "length k" rest] k(1) by (simp add: MAX_KEY_SIZE_def)
  have s: "read_str (buf @ be_len (length k) @ as_bytes k @ rest) (length buf + 4) (length k) =
      Ok (k, length buf + 4 + length k)" for rest
    using read_str_at [of "length buf + 4" "buf @ be_len (length k)" "length k" k rest] k(2) by simp
  have i: "bt_insert k v acc = acc @ [(k, v)]" if "bt_sorted (acc @ (k, v) # m)" for acc
    using that by (intro bt_insert_snoc) (auto simp: bt_sorted_def sorted_wrt_append)
  show ?thesis
    using v m by (simp add: reads_value_def reads_entries_def l s i add.assoc)
qed

section \<open>Decoding inverts encoding\<close>

lemma roundtrip_at:
  "encode_value v buf d = Ok out \<Longrightarrow> value_wf v \<Longrightarrow>
    \<exists>enc. out = buf @ enc \<and> reads_value v buf d enc"
  "encode_items vs buf d = Ok out \<Longrightarrow> \<forall>v \<in> set vs. value_wf v \<Longrightarrow>
    \<exists>enc. out = buf @ enc \<and> reads_items vs buf d enc"
  "encode_entries m buf d = Ok out \<Longrightarrow>
    \<forall>(k, v) \<in> set m. utf8_valid (as_bytes k) \<and> value_wf v \<Longrightarrow>
    \<exists>enc. out = buf @ enc \<and> reads_entries m buf d enc"
proof (induction v buf d and vs buf d and m buf d arbitrary: out and out and out
    rule: encode_value_encode_items_encode_entries.induct)
  case (1 v buf d)
  then have d: "d \<le> MAX_NESTING_DEPTH" by (auto simp: encode_value.simps split: if_splits)
  show ?case
  proof (cases v)
    case (VArray items)
    then have n: "length items \<le> MAX_ARRAY_ELEMENTS"
      and e: "encode_items items ((buf @ [6]) @ be_len (length items)) d = Ok out"
      using 1(3) d by (auto simp: encode_value.simps Let_def split: if_splits)
    then obtain enc where "out = buf @ 6 # be_len (length items) @ enc"
      "reads_items items (buf @ 6 # be_len (length items)) d enc"
      using 1(1) [of "buf @ [6]" items out] d 1(4) VArray by auto
    then show ?thesis using reads_array [OF d n] VArray by blast
  next
    case (VObject m)
    then have n: "length m \<le> MAX_OBJECT_KEYS"
      and e: "encode_entries m ((buf @ [7]) @ be_len (length m)) d = Ok out"
      using 1(3) d by (auto simp: encode_value.simps Let_def split: if_splits)
    then obtain enc where "out = buf @ 7 # be_len (length m) @ enc"
      "reads_entries m (buf @ 7 # be_len (length m)) d enc"
      using 1(2) [of "buf @ [7]" m out] d 1(4) VObject by auto
    then show ?thesis using reads_object [OF d n] 1(4) VObject by auto
  qed (use 1(3,4) d decode_fixed [OF d] decode_sized [OF d] in
      \<open>auto simp: encode_value.simps reads_value_def Let_def split: if_splits\<close>)
next
  case (3 item items buf d)
  then obtain buf' where e: "encode_value item buf (d + 1) = Ok buf'"
    "encode_items items buf' d = Ok out" by (auto split: sum.splits)
  then obtain x y where "buf' = buf @ x" "reads_value item buf (d + 1) x"
    "out = buf' @ y" "reads_items items buf' d y"
    using 3(1) [OF e(1)] 3(2) [OF e] 3(4) by auto
  then show ?case using reads_items_Cons [of item buf d x items y] by auto
next
  case (5 k v m buf d)
  let ?b = "buf @ be_len (length k) @ as_bytes k"
  obtain buf' where k: "length k \<le> MAX_KEY_SIZE"
    and e: "encode_value v ?b (d + 1) = Ok buf'" "encode_entries m buf' d = Ok out"
    using 5(3) by (auto split: sum.splits if_splits)
  then obtain x y where "buf' = ?b @ x" "reads_value v ?b (d + 1) x"
    "out = buf' @ y" "reads_entries m buf' d y"
    using 5(1) [OF _ e(1)] 5(2) [OF _ e] 5(4) by auto
  then show ?case using reads_entries_Cons [of k v buf d x m y] k 5(4) by auto
qed (auto simp: reads_items_def reads_entries_def)

lemma decode_encode:
  assumes "value_wf v" "encode v = Ok bs"
  shows "decode bs = Ok v" "length bs = HEADER_SIZE + encoded_size v"
proof -
  let ?h = "CODEC_MAGIC @ [CODEC_VERSION]"
  have h: "?h = [66, 68, 66, 1]" by code_simp
  obtain enc where enc: "bs = ?h @ enc" "reads_value v ?h 0 enc"
    using roundtrip_at(1) [of v ?h 0 bs] assms by (auto simp: encode_def)
  then have "decode_value (?h @ enc @ []) (length ?h) 0 = Ok (v, length ?h + length enc)"
    unfolding reads_value_def by blast
  then have "decode_value bs (length ?h) 0 = Ok (v, length bs)" using enc(1) by simp
  moreover have "length ?h = HEADER_SIZE" by (simp add: h HEADER_SIZE_def)
  moreover have "take 3 bs = CODEC_MAGIC" "bs ! 3 = CODEC_VERSION" "HEADER_SIZE \<le> length bs"
    using enc(1) h by (simp_all add: HEADER_SIZE_def CODEC_MAGIC_def CODEC_VERSION_def as_bytes_def)
  ultimately show "decode bs = Ok v" by (simp add: decode_def)
  show "length bs = HEADER_SIZE + encoded_size v"
    using enc \<open>length ?h = HEADER_SIZE\<close> by (simp add: reads_value_def encoded_size_def)
qed

section \<open>What encodes\<close>

lemma encode_succeeds_iff:
  "(\<exists>out. encode_value v buf d = Ok out) \<longleftrightarrow> structure_ok v d \<and> payload_ok v"
  "(\<exists>out. encode_items vs buf d = Ok out) \<longleftrightarrow>
    (\<forall>v \<in> set vs. structure_ok v (d + 1) \<and> payload_ok v)"
  "(\<exists>out. encode_entries m buf d = Ok out) \<longleftrightarrow>
    (\<forall>(k, v) \<in> set m. structure_ok v (d + 1) \<and> length k \<le> MAX_KEY_SIZE \<and> payload_ok v)"
proof (induction v buf d and vs buf d and m buf d
    rule: encode_value_encode_items_encode_entries.induct)
  case (1 v buf d)
  show ?case
  proof (cases v)
    case (VArray vs)
    then show ?thesis
      using 1(1) [of "buf @ [6]" vs] by (auto simp: encode_value.simps Let_def not_less)
  next
    case (VObject m)
    then show ?thesis
      using 1(2) [of "buf @ [7]" m] by (auto simp: encode_value.simps Let_def not_less)
  qed (auto simp: encode_value.simps Let_def not_less)
next
  case (3 item items buf d)
  then show ?case by (cases "encode_value item buf (d + 1)") auto
next
  case (5 k v m buf d)
  then show ?case
    by (cases "encode_value v (buf @ be_len (length k) @ as_bytes k) (d + 1)") auto
qed auto

section \<open>What decodes\<close>

lemma read_str_Ok: "read_str bs off n = Ok (s, off') \<Longrightarrow> utf8_valid (as_bytes s) \<and> length s = n"
  by (auto simp: read_str_def read_slice_def from_utf8_def split: if_splits option.splits)

definition value_ok :: "nat \<Rightarrow> doc_value \<Rightarrow> bool" where
  "value_ok d v \<longleftrightarrow> value_wf v \<and> structure_ok v d"

definition entries_ok :: "nat \<Rightarrow> (string, doc_value) btree \<Rightarrow> bool" where
  "entries_ok d m \<longleftrightarrow> bt_sorted m \<and> (\<forall>(k, v) \<in> set m. utf8_valid (as_bytes k) \<and> value_ok d v)"

lemma entries_ok_insert:
  "entries_ok d m \<Longrightarrow> utf8_valid (as_bytes k) \<Longrightarrow> value_ok d v \<Longrightarrow> entries_ok d (bt_insert k v m)"
  using set_bt_insert [of k v m] by (fastforce simp: entries_ok_def wf_intros)

lemma value_ok_object:
  "entries_ok (Suc d) m \<Longrightarrow> d \<le> MAX_NESTING_DEPTH \<Longrightarrow> length m \<le> MAX_OBJECT_KEYS \<Longrightarrow>
    value_ok d (VObject m)"
  by (auto simp: entries_ok_def value_ok_def)

lemma value_ok_array:
  "list_all (value_ok (Suc d)) vs \<Longrightarrow> d \<le> MAX_NESTING_DEPTH \<Longrightarrow> length vs \<le> MAX_ARRAY_ELEMENTS \<Longrightarrow>
    value_ok d (VArray vs)"
  by (auto simp: value_ok_def list_all_iff)

lemma decode_sound_at:
  "decode_value bs off d = Ok (v, off') \<Longrightarrow> value_ok d v"
  "decode_items n acc bs off d = Ok (vs, off') \<Longrightarrow> list_all (value_ok (Suc d)) acc \<Longrightarrow>
    length vs = length acc + n \<and> list_all (value_ok (Suc d)) vs"
  "decode_entries n m bs off d = Ok (es, off') \<Longrightarrow> entries_ok (Suc d) m \<Longrightarrow>
    length es \<le> length m + n \<and> entries_ok (Suc d) es"
proof (induction bs off d and n acc bs off d and n m bs off d
    arbitrary: v off' and vs off' and es off'
    rule: decode_value_decode_items_decode_entries.induct)
  case (1 bs off d)
  then obtain tag o1 where r: "\<not> MAX_NESTING_DEPTH < d" "read_u8 bs off = Ok (tag, o1)"
    by (auto simp: decode_value.simps split: if_splits sum.splits)
  note ih = 1(1,2) and dec = 1(3)
  consider "tag = 6" | "tag = 7" | "tag \<noteq> 6" "tag \<noteq> 7" by blast
  then show ?case
  proof cases
    case 1
    then obtain n o2 vs where v: "read_len bs o1 = Ok (n, o2)" "\<not> MAX_ARRAY_ELEMENTS < n"
      "v = VArray vs" "decode_items n [] bs o2 d = Ok (vs, off')"
      using dec r by (auto simp: decode_value.simps [of bs off d] split: if_splits sum.splits)
    have "length vs = length ([] :: doc_value list) + n \<and> list_all (value_ok (Suc d)) vs"
      by (rule ih(1)) (use 1 r v in auto)
    then show ?thesis using r v by (auto intro: value_ok_array)
  next
    case 2
    then obtain n o2 m where v: "read_len bs o1 = Ok (n, o2)" "\<not> MAX_OBJECT_KEYS < n"
      "v = VObject m" "decode_entries n [] bs o2 d = Ok (m, off')"
      using dec r by (auto simp: decode_value.simps [of bs off d] split: if_splits sum.splits)
    have "length m \<le> length ([] :: (string, doc_value) btree) + n \<and> entries_ok (Suc d) m"
      by (rule ih(2)) (use 2 r v in \<open>auto simp: entries_ok_def\<close>)
    then show ?thesis using r v by (auto intro: value_ok_object)
  next
    case 3
    then show ?thesis
      using dec r by (auto simp: decode_value.simps [of bs off d] value_ok_def read_slice_def
          dest!: read_str_Ok split: if_splits sum.splits)
  qed
next
  case (3 n acc bs off d)
  then show ?case by (fastforce split: sum.splits)
next
  case (5 n m bs off d)
  obtain l o1 k o2 v o3 where r: "read_len bs off = Ok (l, o1)" "read_str bs o1 l = Ok (k, o2)"
    "decode_value bs o2 (d + 1) = Ok (v, o3)" "decode_entries n (bt_insert k v m) bs o3 d = Ok (es, off')"
    using 5(3) by (auto split: sum.splits)
  have "entries_ok (Suc d) (bt_insert k v m)"
    using 5(1) [OF r(1) _ r(2) _ r(3)] 5(4) read_str_Ok [OF r(2)] by (auto intro: entries_ok_insert)
  then show ?case
    using 5(2) [OF r(1) _ r(2) _ r(3) _ r(4)] length_bt_insert_le [of k v m] by auto
qed auto

section \<open>Properties\<close>

text \<open>
  C2: the codec round trips.  What \<open>encode\<close> writes for a value whose strings are
  UTF-8 and whose maps are ordered, \<open>decode\<close> reads back as the same value, and the
  buffer has exactly the announced size: the header and \<open>encoded_size\<close>.
\<close>

theorem codec_roundtrip:
  assumes "value_wf v" "encode v = Ok bs"
  shows "decode bs = Ok v \<and> length bs = HEADER_SIZE + encoded_size v"
  using decode_encode [OF assms] by simp

theorem codec_roundtrip_witness:
  "decode [66, 68, 66, 1, 7, 0, 0, 0, 1, 0, 0, 0, 1, 97, 6, 0, 0, 0, 2, 1, 1, 0] =
    Ok (VObject [(''a'', VArray [VBool True, VNull])])"
proof -
  let ?v = "VObject [(''a'', VArray [VBool True, VNull])]"
  have "value_wf ?v" by code_simp
  moreover have "encode ?v =
      Ok [66, 68, 66, 1, 7, 0, 0, 0, 1, 0, 0, 0, 1, 97, 6, 0, 0, 0, 2, 1, 1, 0]" by code_simp
  ultimately show ?thesis using codec_roundtrip [of ?v] by simp
qed

text \<open>
  \<open>encode\<close> is total and strict: it succeeds exactly on the values within all
  limits (nesting depth, string, array and object sizes, key sizes) whose floats
  are finite.
\<close>

theorem encode_iff_within_limits:
  "(\<exists>bs. encode v = Ok bs) \<longleftrightarrow> structure_ok v 0 \<and> payload_ok v"
  unfolding encode_def by (rule encode_succeeds_iff)

text \<open>
  C21: \<open>decode\<close> only produces well-formed values within the structural limits,
  whatever the input bytes; such a value can be encoded again, and then reads back
  unchanged, exactly when its floats are finite and its keys are short, which
  \<open>decode\<close> does not check.
\<close>

theorem decode_sound:
  assumes "decode bs = Ok v"
  shows "value_wf v \<and> structure_ok v 0 \<and>
    ((\<exists>bs'. encode v = Ok bs' \<and> decode bs' = Ok v) \<longleftrightarrow> payload_ok v)"
proof -
  have "value_ok 0 v"
    using assms decode_sound_at(1) by (auto simp: decode_def split: if_splits sum.splits)
  then have ok: "value_wf v" "structure_ok v 0" by (auto simp: value_ok_def)
  moreover have "(\<exists>bs'. encode v = Ok bs') \<longleftrightarrow> payload_ok v"
    unfolding encode_def using encode_succeeds_iff(1) [of v] ok(2) by blast
  ultimately show ?thesis using decode_encode(1) by blast
qed

theorem decode_sound_witness:
  "decode [66, 68, 66, 1, 3, 0x7F, 0xF8, 0, 0, 0, 0, 0, 0] = Ok (VFloat 0x7FF8000000000000) \<and>
   \<not> (\<exists>bs'. encode (VFloat 0x7FF8000000000000) = Ok bs' \<and> decode bs' = Ok (VFloat 0x7FF8000000000000))"
proof -
  have "decode [66, 68, 66, 1, 3, 0x7F, 0xF8, 0, 0, 0, 0, 0, 0] = Ok (VFloat 0x7FF8000000000000)"
    by code_simp
  moreover have "\<not> payload_ok (VFloat 0x7FF8000000000000)" by code_simp
  ultimately show ?thesis using decode_sound by blast
qed

end
