(* ===== verification/Storage.thy ===== *)
theory Storage
  imports Prelude
begin

text \<open>
  The storage layer of \<open>crates/bashfuldb-storage/src\<close>: column families, write
  batches, the \<open>StorageEngine\<close> trait and the in-memory engine (\<open>storage/mem.rs\<close>).
  The trait is the record \<open>engine\<close> of its methods over the engine's state, which
  is how the components above use it; its contract is the locale
  \<open>storage_engine\<close>, stated over an abstract view of the state (the ordered
  contents of each column family) and discharged for \<open>MemEngine\<close>.

  A method takes the engine's lock for its whole body, so each is one atomic
  step.  \<open>BTreeMap::range\<close> panics on a range whose start is above its end.
\<close>

section \<open>Types\<close>

definition CF_DEFAULT :: string where "CF_DEFAULT = ''default''"
definition CF_METADATA :: string where "CF_METADATA = ''metadata''"
definition CF_INDEXES :: string where "CF_INDEXES = ''indexes''"
definition CF_TOMBSTONES :: string where "CF_TOMBSTONES = ''tombstones''"
definition CF_HINTS :: string where "CF_HINTS = ''hints''"
definition CF_SYSTEM :: string where "CF_SYSTEM = ''system''"

definition cf_all :: "string list" where
  "cf_all = [CF_DEFAULT, CF_METADATA, CF_INDEXES, CF_TOMBSTONES, CF_HINTS, CF_SYSTEM]"

datatype storage_error =
    UnknownColumnFamily string
  | StorageIo string
  | Engine string
  | CheckpointFailed string
  | KeyNotFound

text \<open>\<open>Display\<close> of an error; \<open>dbg\<close> is the standard library's quoting of a string.\<close>

fun storage_error_display :: "(string \<Rightarrow> string) \<Rightarrow> storage_error \<Rightarrow> string" where
  "storage_error_display dbg (UnknownColumnFamily name) = ''unknown column family: '' @ dbg name"
| "storage_error_display dbg (StorageIo m) = ''storage I/O error: '' @ m"
| "storage_error_display dbg (Engine m) = ''storage engine error: '' @ m"
| "storage_error_display dbg (CheckpointFailed m) = ''checkpoint failed: '' @ m"
| "storage_error_display dbg KeyNotFound = ''key not found''"

type_synonym scan_item = "bytes \<times> bytes"
type_synonym scan_iter = "(storage_error, scan_item) result list"
type_synonym kv_map = "(bytes, bytes) btree"

datatype batch_op = Put string bytes bytes | Delete string bytes

record write_batch =
  batch_ops :: "batch_op list"

definition batch_new :: write_batch where
  "batch_new = \<lparr>batch_ops = []\<rparr>"

definition batch_put :: "string \<Rightarrow> bytes \<Rightarrow> bytes \<Rightarrow> write_batch \<Rightarrow> write_batch" where
  "batch_put cf k v b = b\<lparr>batch_ops := batch_ops b @ [Put cf k v]\<rparr>"

definition batch_delete :: "string \<Rightarrow> bytes \<Rightarrow> write_batch \<Rightarrow> write_batch" where
  "batch_delete cf k b = b\<lparr>batch_ops := batch_ops b @ [Delete cf k]\<rparr>"

definition batch_len :: "write_batch \<Rightarrow> nat" where
  "batch_len b = length (batch_ops b)"

definition batch_is_empty :: "write_batch \<Rightarrow> bool" where
  "batch_is_empty b \<longleftrightarrow> batch_ops b = []"

fun op_cf :: "batch_op \<Rightarrow> string" where
  "op_cf (Put cf _ _) = cf"
| "op_cf (Delete cf _) = cf"

section \<open>The traits\<close>

record snapshot =
  s_get :: "string \<Rightarrow> bytes \<Rightarrow> (storage_error, bytes option) result"
  s_scan :: "string \<Rightarrow> bytes \<Rightarrow> bytes \<Rightarrow> (storage_error, scan_iter) result option"

record 's engine =
  e_put :: "string \<Rightarrow> bytes \<Rightarrow> bytes \<Rightarrow> ('s, storage_error, unit) act"
  e_get :: "string \<Rightarrow> bytes \<Rightarrow> ('s, storage_error, bytes option) act"
  e_delete :: "string \<Rightarrow> bytes \<Rightarrow> ('s, storage_error, unit) act"
  e_scan :: "string \<Rightarrow> bytes \<Rightarrow> bytes \<Rightarrow> ('s, storage_error, scan_iter) act"
  e_write_batch :: "write_batch \<Rightarrow> ('s, storage_error, unit) act"
  e_snapshot :: "('s, storage_error, snapshot) act"
  e_has_cf :: "string \<Rightarrow> bool"

section \<open>The in-memory engine\<close>

type_synonym cf_map = "string \<Rightarrow> kv_map option"

record mem_engine =
  mem_cfs :: cf_map
  mem_poisoned :: bool

definition init_cf_map :: cf_map where
  "init_cf_map = fold (\<lambda>cf m. m(cf \<mapsto> [])) cf_all Map.empty"

definition mem_new :: mem_engine where
  "mem_new = \<lparr>mem_cfs = init_cf_map, mem_poisoned = False\<rparr>"

text \<open>\<open>#[derive(Default)]\<close> on \<open>MemEngine\<close>: an empty map.\<close>

definition mem_default :: mem_engine where
  "mem_default = \<lparr>mem_cfs = Map.empty, mem_poisoned = False\<rparr>"

definition validate_cf_name :: "string \<Rightarrow> (storage_error, string) result" where
  "validate_cf_name cf =
    (case find (\<lambda>name. name = cf) cf_all of
       None \<Rightarrow> Err (UnknownColumnFamily cf)
     | Some name \<Rightarrow> Ok name)"

definition range_bounds :: "bytes \<Rightarrow> bytes \<Rightarrow> bytes option \<times> bytes option" where
  "range_bounds start end =
    (if start = [] then None else Some start, if end = [] then None else Some end)"

text \<open>\<open>BTreeMap::range\<close> from an included to an excluded bound, \<open>None\<close> being unbounded.\<close>

definition bt_range :: "bytes option \<times> bytes option \<Rightarrow> kv_map \<Rightarrow> kv_map option" where
  "bt_range bounds m =
    (case bounds of
       (Some lo, Some hi) \<Rightarrow>
         if hi < lo then None else Some (filter (\<lambda>(k, _). lo \<le> k \<and> k < hi) m)
     | (Some lo, None) \<Rightarrow> Some (filter (\<lambda>(k, _). lo \<le> k) m)
     | (None, Some hi) \<Rightarrow> Some (filter (\<lambda>(k, _). k < hi) m)
     | (None, None) \<Rightarrow> Some m)"

definition write_poisoned :: storage_error where
  "write_poisoned = Engine ''mem engine write lock poisoned''"

definition read_poisoned :: storage_error where
  "read_poisoned = Engine ''mem engine read lock poisoned''"

definition mem_put :: "string \<Rightarrow> bytes \<Rightarrow> bytes \<Rightarrow> (mem_engine, storage_error, unit) act" where
  "mem_put cf key v = act_bind (act_of_result (validate_cf_name cf)) (\<lambda>cf_name e.
    if mem_poisoned e then (Some (Err write_poisoned), e)
    else case mem_cfs e cf_name of
        None \<Rightarrow> (Some (Err (UnknownColumnFamily cf)), e)
      | Some m \<Rightarrow> (Some (Ok ()), e\<lparr>mem_cfs := (mem_cfs e)(cf_name \<mapsto> bt_insert key v m)\<rparr>))"

definition mem_get :: "string \<Rightarrow> bytes \<Rightarrow> (mem_engine, storage_error, bytes option) act" where
  "mem_get cf key = act_bind (act_of_result (validate_cf_name cf)) (\<lambda>cf_name e.
    if mem_poisoned e then (Some (Err read_poisoned), e)
    else (Some (Ok (case mem_cfs e cf_name of None \<Rightarrow> None | Some m \<Rightarrow> bt_get m key)), e))"

definition mem_delete :: "string \<Rightarrow> bytes \<Rightarrow> (mem_engine, storage_error, unit) act" where
  "mem_delete cf key = act_bind (act_of_result (validate_cf_name cf)) (\<lambda>cf_name e.
    if mem_poisoned e then (Some (Err write_poisoned), e)
    else case mem_cfs e cf_name of
        None \<Rightarrow> (Some (Err (UnknownColumnFamily cf)), e)
      | Some m \<Rightarrow> (Some (Ok ()), e\<lparr>mem_cfs := (mem_cfs e)(cf_name \<mapsto> bt_remove key m)\<rparr>))"

definition mem_scan ::
  "string \<Rightarrow> bytes \<Rightarrow> bytes \<Rightarrow> (mem_engine, storage_error, scan_iter) act" where
  "mem_scan cf start end = act_bind (act_of_result (validate_cf_name cf)) (\<lambda>cf_name e.
    if mem_poisoned e then (Some (Err read_poisoned), e)
    else case mem_cfs e cf_name of
        None \<Rightarrow> (Some (Err (UnknownColumnFamily cf)), e)
      | Some m \<Rightarrow>
          (map_option (\<lambda>rows. Ok (map Ok rows)) (bt_range (range_bounds start end) m), e))"

text \<open>The two passes of \<open>write_batch\<close>: validate every family, then apply in order.\<close>

primrec validate_ops :: "batch_op list \<Rightarrow> (storage_error, unit) result" where
  "validate_ops [] = Ok ()"
| "validate_ops (b # bs) =
    (case validate_cf_name (op_cf b) of Err e \<Rightarrow> Err e | Ok _ \<Rightarrow> validate_ops bs)"

fun apply_op :: "batch_op \<Rightarrow> (mem_engine, storage_error, unit) act" where
  "apply_op (Put cf key v) = act_bind (act_of_result (validate_cf_name cf)) (\<lambda>cf_name e.
    case mem_cfs e cf_name of
        None \<Rightarrow> (Some (Err (UnknownColumnFamily cf)), e)
      | Some m \<Rightarrow> (Some (Ok ()), e\<lparr>mem_cfs := (mem_cfs e)(cf_name \<mapsto> bt_insert key v m)\<rparr>))"
| "apply_op (Delete cf key) = act_bind (act_of_result (validate_cf_name cf)) (\<lambda>cf_name e.
    case mem_cfs e cf_name of
        None \<Rightarrow> (Some (Err (UnknownColumnFamily cf)), e)
      | Some m \<Rightarrow> (Some (Ok ()), e\<lparr>mem_cfs := (mem_cfs e)(cf_name \<mapsto> bt_remove key m)\<rparr>))"

definition mem_write_batch :: "write_batch \<Rightarrow> (mem_engine, storage_error, unit) act" where
  "mem_write_batch batch = act_bind (act_of_result (validate_ops (batch_ops batch))) (\<lambda>_ e.
    if mem_poisoned e then (Some (Err write_poisoned), e)
    else act_for (batch_ops batch) apply_op e)"

definition mem_snapshot_get ::
  "cf_map \<Rightarrow> string \<Rightarrow> bytes \<Rightarrow> (storage_error, bytes option) result" where
  "mem_snapshot_get cfs cf key =
    (case validate_cf_name cf of
       Err e \<Rightarrow> Err e
     | Ok cf_name \<Rightarrow> Ok (case cfs cf_name of None \<Rightarrow> None | Some m \<Rightarrow> bt_get m key))"

definition mem_snapshot_scan ::
  "cf_map \<Rightarrow> string \<Rightarrow> bytes \<Rightarrow> bytes \<Rightarrow> (storage_error, scan_iter) result option" where
  "mem_snapshot_scan cfs cf start end =
    (case validate_cf_name cf of
       Err e \<Rightarrow> Some (Err e)
     | Ok cf_name \<Rightarrow>
         (case cfs cf_name of
            None \<Rightarrow> Some (Err (UnknownColumnFamily cf))
          | Some m \<Rightarrow>
              map_option (\<lambda>rows. Ok (map Ok rows)) (bt_range (range_bounds start end) m)))"

definition mem_snapshot :: "(mem_engine, storage_error, snapshot) act" where
  "mem_snapshot e =
    (if mem_poisoned e then (Some (Err read_poisoned), e)
     else (Some (Ok \<lparr>s_get = mem_snapshot_get (mem_cfs e), s_scan = mem_snapshot_scan (mem_cfs e)\<rparr>), e))"

definition mem_has_column_family :: "string \<Rightarrow> bool" where
  "mem_has_column_family cf \<longleftrightarrow> cf \<in> set cf_all"

definition MemEngine :: "mem_engine engine" where
  "MemEngine = \<lparr>e_put = mem_put, e_get = mem_get, e_delete = mem_delete, e_scan = mem_scan,
    e_write_batch = mem_write_batch, e_snapshot = mem_snapshot,
    e_has_cf = mem_has_column_family\<rparr>"

section \<open>The contract of a storage engine\<close>

text \<open>The part of a map a scan of \<open>[start, end)\<close> shows, empty bounds being open.\<close>

definition scan_range :: "bytes \<Rightarrow> bytes \<Rightarrow> kv_map \<Rightarrow> kv_map" where
  "scan_range start end m =
    filter (\<lambda>(k, _). start \<le> k \<and> (end = [] \<or> k < end)) m"

fun apply_view :: "batch_op \<Rightarrow> (string \<Rightarrow> kv_map) \<Rightarrow> (string \<Rightarrow> kv_map)" where
  "apply_view (Put cf k v) w = w(cf := bt_insert k v (w cf))"
| "apply_view (Delete cf k) w = w(cf := bt_remove k (w cf))"

definition after_put :: "'s engine \<Rightarrow> string \<Rightarrow> bytes \<Rightarrow> bytes \<Rightarrow> 's \<Rightarrow> 's" where
  "after_put E cf k v s = snd (e_put E cf k v s)"

definition after_delete :: "'s engine \<Rightarrow> string \<Rightarrow> bytes \<Rightarrow> 's \<Rightarrow> 's" where
  "after_delete E cf k s = snd (e_delete E cf k s)"

definition after_batch :: "'s engine \<Rightarrow> write_batch \<Rightarrow> 's \<Rightarrow> 's" where
  "after_batch E b s = snd (e_write_batch E b s)"

locale storage_engine =
  fixes E :: "'s engine" and inv :: "'s \<Rightarrow> bool" and view :: "'s \<Rightarrow> string \<Rightarrow> kv_map"
  assumes view_sorted: "inv s \<Longrightarrow> bt_sorted (view s cf)"
    and put_law: "inv s \<Longrightarrow> cf \<in> set cf_all \<Longrightarrow>
      \<exists>t. e_put E cf k v s = (Some (Ok ()), t) \<and> inv t \<and>
        view t = (view s)(cf := bt_insert k v (view s cf))"
    and get_law: "inv s \<Longrightarrow> cf \<in> set cf_all \<Longrightarrow>
      e_get E cf k s = (Some (Ok (bt_get (view s cf) k)), s)"
    and delete_law: "inv s \<Longrightarrow> cf \<in> set cf_all \<Longrightarrow>
      \<exists>t. e_delete E cf k s = (Some (Ok ()), t) \<and> inv t \<and>
        view t = (view s)(cf := bt_remove k (view s cf))"
    and scan_law: "inv s \<Longrightarrow> cf \<in> set cf_all \<Longrightarrow> end = [] \<or> start \<le> end \<Longrightarrow>
      e_scan E cf start end s = (Some (Ok (map Ok (scan_range start end (view s cf)))), s)"
    and batch_law: "inv s \<Longrightarrow> op_cf ` set (batch_ops b) \<subseteq> set cf_all \<Longrightarrow>
      \<exists>t. e_write_batch E b s = (Some (Ok ()), t) \<and> inv t \<and>
        view t = fold apply_view (batch_ops b) (view s)"
    and batch_rejects: "inv s \<Longrightarrow> \<not> op_cf ` set (batch_ops b) \<subseteq> set cf_all \<Longrightarrow>
      \<exists>cf. e_write_batch E b s = (Some (Err (UnknownColumnFamily cf)), s)"
    and unknown_cf: "cf \<notin> set cf_all \<Longrightarrow>
      e_get E cf k s = (Some (Err (UnknownColumnFamily cf)), s)"
    and snapshot_law: "inv s \<Longrightarrow> \<exists>sn. e_snapshot E s = (Some (Ok sn), s) \<and>
      (\<forall>cf k. cf \<in> set cf_all \<longrightarrow> s_get sn cf k = Ok (bt_get (view s cf) k))"
    and has_cf_law: "e_has_cf E cf \<longleftrightarrow> cf \<in> set cf_all"
begin

lemma put_run:
  assumes "inv s" "cf \<in> set cf_all"
  shows "e_put E cf k v s = (Some (Ok ()), after_put E cf k v s)"
    "inv (after_put E cf k v s)"
    "view (after_put E cf k v s) = (view s)(cf := bt_insert k v (view s cf))"
  using put_law [OF assms, of k v] by (auto simp: after_put_def)

lemma delete_run:
  assumes "inv s" "cf \<in> set cf_all"
  shows "e_delete E cf k s = (Some (Ok ()), after_delete E cf k s)"
    "inv (after_delete E cf k s)"
    "view (after_delete E cf k s) = (view s)(cf := bt_remove k (view s cf))"
  using delete_law [OF assms, of k] by (auto simp: after_delete_def)

lemma batch_run:
  assumes "inv s" "op_cf ` set (batch_ops b) \<subseteq> set cf_all"
  shows "e_write_batch E b s = (Some (Ok ()), after_batch E b s)"
    "inv (after_batch E b s)"
    "view (after_batch E b s) = fold apply_view (batch_ops b) (view s)"
  using batch_law [OF assms] by (auto simp: after_batch_def)

lemmas engine_run = put_run get_law delete_run batch_run

lemma get_after_put:
  assumes "inv s" "cf \<in> set cf_all" "cf' \<in> set cf_all"
  shows "e_get E cf' k' (after_put E cf k v s) =
    (Some (Ok (if cf' = cf \<and> k' = k then Some v else bt_get (view s cf') k')), after_put E cf k v s)"
  using assms view_sorted [of s cf] by (auto simp: engine_run btree_simps)

end

section \<open>The in-memory engine meets the contract\<close>

definition mem_view :: "mem_engine \<Rightarrow> string \<Rightarrow> kv_map" where
  "mem_view e cf = (case mem_cfs e cf of None \<Rightarrow> [] | Some m \<Rightarrow> m)"

definition mem_inv :: "mem_engine \<Rightarrow> bool" where
  "mem_inv e \<longleftrightarrow> \<not> mem_poisoned e \<and>
    (\<forall>cf. (mem_cfs e cf \<noteq> None) = (cf \<in> set cf_all)) \<and> (\<forall>cf. bt_sorted (mem_view e cf))"

lemma validate_cf_name_eq:
  "validate_cf_name cf = (if cf \<in> set cf_all then Ok cf else Err (UnknownColumnFamily cf))"
proof -
  have "find (\<lambda>name. name = cf) xs = (if cf \<in> set xs then Some cf else None)" for xs
    by (induction xs) auto
  then show ?thesis by (simp add: validate_cf_name_def)
qed

lemma mem_inv_new [wf_intros]: "mem_inv mem_new"
  by (auto simp: mem_inv_def mem_new_def mem_view_def init_cf_map_def cf_all_def split: option.splits)

lemma mem_inv_upd [wf_intros]:
  "mem_inv e \<Longrightarrow> cf \<in> set cf_all \<Longrightarrow> bt_sorted m \<Longrightarrow> mem_inv (e\<lparr>mem_cfs := (mem_cfs e)(cf \<mapsto> m)\<rparr>)"
  by (auto simp: mem_inv_def mem_view_def)

lemma mem_view_upd: "mem_view (e\<lparr>mem_cfs := (mem_cfs e)(cf \<mapsto> m)\<rparr>) = (mem_view e)(cf := m)"
  by (auto simp: mem_view_def)

lemma mem_inv_Some: "mem_inv e \<Longrightarrow> cf \<in> set cf_all \<Longrightarrow> mem_cfs e cf = Some (mem_view e cf)"
  by (auto simp: mem_inv_def mem_view_def split: option.splits)

lemma mem_inv_sorted: "mem_inv e \<Longrightarrow> bt_sorted (mem_view e cf)"
  by (simp add: mem_inv_def)

lemma mem_inv_unpoisoned: "mem_inv e \<Longrightarrow> \<not> mem_poisoned e"
  by (simp add: mem_inv_def)

lemmas mem_facts = mem_inv_unpoisoned validate_cf_name_eq act_simps mem_inv_Some mem_inv_upd mem_view_upd
  mem_inv_sorted bt_sorted_insert bt_sorted_remove

lemma bt_range_scan:
  "end = [] \<or> start \<le> end \<Longrightarrow> bt_range (range_bounds start end) m = Some (scan_range start end m)"
  by (cases "start = []"; cases "end = []")
    (auto simp: bt_range_def range_bounds_def scan_range_def not_less)

lemma apply_op_run:
  assumes "mem_inv e" "op_cf b \<in> set cf_all"
  shows "\<exists>e'. apply_op b e = (Some (Ok ()), e') \<and> mem_inv e' \<and> mem_view e' = apply_view b (mem_view e)"
  using assms by (cases b) (auto simp: mem_facts)

lemma apply_ops_run:
  "mem_inv e \<Longrightarrow> op_cf ` set bs \<subseteq> set cf_all \<Longrightarrow>
    \<exists>e'. act_for bs apply_op e = (Some (Ok ()), e') \<and> mem_inv e' \<and>
      mem_view e' = fold apply_view bs (mem_view e)"
proof (induction bs arbitrary: e)
  case (Cons b bs)
  then obtain e1 where e1: "apply_op b e = (Some (Ok ()), e1)" "mem_inv e1"
    "mem_view e1 = apply_view b (mem_view e)" using apply_op_run [of e b] by auto
  then show ?case using Cons.IH [OF e1(2)] Cons.prems by (simp add: act_simps)
qed (simp add: act_simps)

lemma validate_ops_eq:
  "validate_ops bs = (case find (\<lambda>b. op_cf b \<notin> set cf_all) bs of
      None \<Rightarrow> Ok () | Some b \<Rightarrow> Err (UnknownColumnFamily (op_cf b)))"
  by (induction bs) (auto simp: validate_cf_name_eq)

interpretation mem: storage_engine MemEngine mem_inv mem_view
proof
  fix e :: mem_engine and cf :: string and k v start "end" :: bytes and b :: write_batch
  show "bt_sorted (mem_view e cf)" if "mem_inv e" using that by (rule mem_inv_sorted)
  show "\<exists>t. e_put MemEngine cf k v e = (Some (Ok ()), t) \<and> mem_inv t \<and>
      mem_view t = (mem_view e)(cf := bt_insert k v (mem_view e cf))" if "mem_inv e" "cf \<in> set cf_all"
    using that by (auto simp: MemEngine_def mem_put_def mem_facts)
  show "e_get MemEngine cf k e = (Some (Ok (bt_get (mem_view e cf) k)), e)"
    if "mem_inv e" "cf \<in> set cf_all"
    using that by (auto simp: MemEngine_def mem_get_def mem_facts)
  show "\<exists>t. e_delete MemEngine cf k e = (Some (Ok ()), t) \<and> mem_inv t \<and>
      mem_view t = (mem_view e)(cf := bt_remove k (mem_view e cf))" if "mem_inv e" "cf \<in> set cf_all"
    using that by (auto simp: MemEngine_def mem_delete_def mem_facts)
  show "e_scan MemEngine cf start end e =
      (Some (Ok (map Ok (scan_range start end (mem_view e cf)))), e)"
    if "mem_inv e" "cf \<in> set cf_all" "end = [] \<or> start \<le> end"
    using that bt_range_scan [OF that(3)]
    by (auto simp: MemEngine_def mem_scan_def mem_facts)
  show "\<exists>t. e_write_batch MemEngine b e = (Some (Ok ()), t) \<and> mem_inv t \<and>
      mem_view t = fold apply_view (batch_ops b) (mem_view e)"
    if "mem_inv e" "op_cf ` set (batch_ops b) \<subseteq> set cf_all"
  proof -
    have "find (\<lambda>b. op_cf b \<notin> set cf_all) (batch_ops b) = None"
      using that(2) by (auto simp: find_None_iff)
    then show ?thesis
      using that apply_ops_run [OF that]
      by (simp add: MemEngine_def mem_write_batch_def validate_ops_eq act_simps mem_inv_def)
  qed
  show "\<exists>cf. e_write_batch MemEngine b e = (Some (Err (UnknownColumnFamily cf)), e)"
    if "mem_inv e" "\<not> op_cf ` set (batch_ops b) \<subseteq> set cf_all"
  proof -
    have "find (\<lambda>b. op_cf b \<notin> set cf_all) (batch_ops b) \<noteq> None"
      using that(2) by (auto simp: find_None_iff)
    then show ?thesis
      by (auto simp: MemEngine_def mem_write_batch_def validate_ops_eq act_simps)
  qed
  show "e_get MemEngine cf k e = (Some (Err (UnknownColumnFamily cf)), e)" if "cf \<notin> set cf_all"
    using that by (simp add: MemEngine_def mem_get_def mem_facts)
  show "\<exists>sn. e_snapshot MemEngine e = (Some (Ok sn), e) \<and>
      (\<forall>cf k. cf \<in> set cf_all \<longrightarrow> s_get sn cf k = Ok (bt_get (mem_view e cf) k))" if "mem_inv e"
    using that by (auto simp: MemEngine_def mem_snapshot_def mem_snapshot_get_def mem_facts)
     
  show "e_has_cf MemEngine cf \<longleftrightarrow> cf \<in> set cf_all"
    by (simp add: MemEngine_def mem_has_column_family_def)
qed

section \<open>Properties\<close>

text \<open>
  \<open>write_batch\<close> on the in-memory engine is atomic.  When every operation names
  a known column family all of them take effect, in order; otherwise the call
  reports the unknown family and the engine is unchanged.
\<close>

theorem mem_write_batch_atomic:
  assumes "mem_inv e"
  shows "if op_cf ` set (batch_ops b) \<subseteq> set cf_all
    then \<exists>e'. mem_write_batch b e = (Some (Ok ()), e') \<and> mem_inv e' \<and>
      mem_view e' = fold apply_view (batch_ops b) (mem_view e)
    else \<exists>cf. cf \<notin> set cf_all \<and> mem_write_batch b e = (Some (Err (UnknownColumnFamily cf)), e)"
proof (cases "op_cf ` set (batch_ops b) \<subseteq> set cf_all")
  case True
  then show ?thesis using mem.batch_law [OF assms True] by (simp add: MemEngine_def)
next
  case False
  then obtain x where "find (\<lambda>b. op_cf b \<notin> set cf_all) (batch_ops b) = Some x"
    by (cases "find (\<lambda>b. op_cf b \<notin> set cf_all) (batch_ops b)") (auto simp: find_None_iff)
  then show ?thesis
    using False find_Some_iff [of "\<lambda>b. op_cf b \<notin> set cf_all" "batch_ops b" x]
    by (auto simp: mem_write_batch_def validate_ops_eq act_simps)
qed

theorem mem_write_batch_atomic_witness:
  "snd (mem_write_batch \<lparr>batch_ops = [Put ''default'' [1] [2], Put ''nope'' [1] [2]]\<rparr> mem_new) = mem_new"
proof -
  let ?b = "\<lparr>batch_ops = [Put ''default'' [1] [2], Put ''nope'' [1] [2]]\<rparr>"
  have "\<not> op_cf ` set (batch_ops ?b) \<subseteq> set cf_all"
    by (simp add: cf_all_def CF_DEFAULT_def CF_METADATA_def CF_INDEXES_def CF_TOMBSTONES_def
        CF_HINTS_def CF_SYSTEM_def)
  then show ?thesis using mem_write_batch_atomic [OF mem_inv_new, of ?b] by auto
qed

text \<open>
  A scan of the in-memory engine panics exactly when both bounds are given
  and the start is above the end; otherwise it yields the entries of
  \<open>[start, end)\<close>, each once, in key order, and changes nothing.
\<close>

theorem mem_scan_correct:
  assumes "mem_inv e" "cf \<in> set cf_all"
  shows "mem_scan cf start end e =
      (if start \<noteq> [] \<and> end \<noteq> [] \<and> end < start then None
       else Some (Ok (map Ok (scan_range start end (mem_view e cf)))), e) \<and>
    bt_sorted (scan_range start end (mem_view e cf)) \<and>
    (\<forall>k v. (k, v) \<in> set (scan_range start end (mem_view e cf)) \<longleftrightarrow>
      start \<le> k \<and> (end = [] \<or> k < end) \<and> bt_get (mem_view e cf) k = Some v)"
proof (intro conjI allI)
  show "mem_scan cf start end e =
      (if start \<noteq> [] \<and> end \<noteq> [] \<and> end < start then None
       else Some (Ok (map Ok (scan_range start end (mem_view e cf)))), e)"
  proof (cases "start \<noteq> [] \<and> end \<noteq> [] \<and> end < start")
    case True
    then show ?thesis
      using assms by (simp add: mem_scan_def mem_facts bt_range_def range_bounds_def)
  next
    case False
    then have "end = [] \<or> start \<le> end" by (cases start) (auto simp: not_less)
    from mem.scan_law [OF assms this] show ?thesis using False by (auto simp: MemEngine_def)
  qed
  show "bt_sorted (scan_range start end (mem_view e cf))"
    unfolding scan_range_def using mem_inv_sorted [OF assms(1)] by (rule bt_sorted_filter)
  show "(k, v) \<in> set (scan_range start end (mem_view e cf)) \<longleftrightarrow>
      start \<le> k \<and> (end = [] \<or> k < end) \<and> bt_get (mem_view e cf) k = Some v" for k v
    using bt_get_Some_iff [OF mem_inv_sorted [OF assms(1)], of cf k v] by (auto simp: scan_range_def)
qed

theorem mem_scan_correct_witness:
  "fst (mem_scan ''default'' [2] [1] mem_new) = None"
  using mem_scan_correct [OF mem_inv_new, of "''default''" "[2]" "[1]"]
  by (simp add: cf_all_def CF_DEFAULT_def)

text \<open>A default-constructed engine has no column family at all.\<close>

lemma mem_default_rejects:
  "mem_put ''default'' k v mem_default = (Some (Err (UnknownColumnFamily ''default'')), mem_default)"
  by (simp add: mem_put_def mem_facts mem_default_def cf_all_def CF_DEFAULT_def)

end
