(* ===== verification/Conformance.thy ===== *)
theory Conformance
  imports Storage
begin

text \<open>
  The conformance suite every storage engine has to pass
  (\<open>crates/bashfuldb-storage/src/conformance.rs\<close>), as a program over the
  \<open>StorageEngine\<close> interface, and the proof that any engine meeting the contract of
  \<open>storage_engine\<close>, the in-memory engine in particular, passes it.
\<close>

definition test_put_get_delete :: "'s engine \<Rightarrow> ('s, storage_error, unit) act" where
  "test_put_get_delete E =
    act_bind (e_put E CF_DEFAULT (as_bytes ''cf_put_get_k'') (as_bytes ''v1'')) (\<lambda>_.
    act_bind (e_get E CF_DEFAULT (as_bytes ''cf_put_get_k'')) (\<lambda>got.
    if got \<noteq> Some (as_bytes ''v1'') then act_err (Engine ''put/get roundtrip failed'')
    else
    act_bind (e_delete E CF_DEFAULT (as_bytes ''cf_put_get_k'')) (\<lambda>_.
    act_bind (e_get E CF_DEFAULT (as_bytes ''cf_put_get_k'')) (\<lambda>got.
    if got \<noteq> None then act_err (Engine ''delete should remove value'')
    else act_ok ()))))"

definition bad_batch :: write_batch where
  "bad_batch = batch_put ''unknown_cf'' (as_bytes ''cf_batch_new'') (as_bytes ''new'')
    (batch_put CF_DEFAULT (as_bytes ''cf_batch_guard'') (as_bytes ''after'') batch_new)"

definition good_batch :: write_batch where
  "good_batch = batch_delete CF_DEFAULT (as_bytes ''cf_batch_new'')
    (batch_put CF_DEFAULT (as_bytes ''cf_batch_guard'') (as_bytes ''after'') batch_new)"

definition test_write_batch_atomicity ::
  "(string \<Rightarrow> string) \<Rightarrow> 's engine \<Rightarrow> ('s, storage_error, unit) act" where
  "test_write_batch_atomicity dbg E =
    act_bind (e_delete E CF_DEFAULT (as_bytes ''cf_batch_guard'')) (\<lambda>_.
    act_bind (e_delete E CF_DEFAULT (as_bytes ''cf_batch_new'')) (\<lambda>_.
    act_bind (e_put E CF_DEFAULT (as_bytes ''cf_batch_guard'') (as_bytes ''before'')) (\<lambda>_.
    act_bind (act_try (e_write_batch E bad_batch)) (\<lambda>r.
    case r of
      Ok _ \<Rightarrow> act_panic
    | Err err \<Rightarrow>
        act_bind
          (case err of
             UnknownColumnFamily _ \<Rightarrow> act_ok ()
           | other \<Rightarrow> act_err (Engine (''unexpected error for invalid cf in batch: '' @
                                      storage_error_display dbg other))) (\<lambda>_.
        act_bind (e_get E CF_DEFAULT (as_bytes ''cf_batch_guard'')) (\<lambda>guard.
        if guard \<noteq> Some (as_bytes ''before'') then act_err (Engine ''write_batch was not atomic'')
        else
        act_bind (e_get E CF_DEFAULT (as_bytes ''cf_batch_new'')) (\<lambda>got.
        if got \<noteq> None then act_err (Engine ''write_batch inserted partial data'')
        else
        act_bind (e_write_batch E good_batch) (\<lambda>_. act_ok ()))))))))"

text \<open>\<open>collect::<Result<Vec<_>>>\<close>: the first error, or all items.\<close>

primrec collect_results :: "('e, 'a) result list \<Rightarrow> ('e, 'a list) result" where
  "collect_results [] = Ok []"
| "collect_results (r # rs) =
    (case r of Err e \<Rightarrow> Err e
     | Ok a \<Rightarrow> (case collect_results rs of Err e \<Rightarrow> Err e | Ok as \<Rightarrow> Ok (a # as)))"

definition test_scan_range_ordering :: "'s engine \<Rightarrow> ('s, storage_error, unit) act" where
  "test_scan_range_ordering E =
    act_bind (act_for [(''scan_a'', ''1''), (''scan_b'', ''2''), (''scan_c'', ''3'')]
      (\<lambda>(k, v). e_put E CF_INDEXES (as_bytes k) (as_bytes v))) (\<lambda>_.
    act_bind (e_scan E CF_INDEXES (as_bytes ''scan_b'') (as_bytes ''scan_d'')) (\<lambda>it.
    act_bind (act_of_result (collect_results it)) (\<lambda>middle.
    if map fst middle \<noteq> [as_bytes ''scan_b'', as_bytes ''scan_c'']
    then act_err (Engine ''scan [start,end) ordering is incorrect'')
    else
    act_bind (e_scan E CF_INDEXES [] []) (\<lambda>it.
    act_bind (act_of_result (collect_results it)) (\<lambda>unbounded.
    if length unbounded < 3 then act_err (Engine ''scan with empty bounds should be unbounded'')
    else act_ok ())))))"

definition test_snapshot_isolation :: "'s engine \<Rightarrow> ('s, storage_error, unit) act" where
  "test_snapshot_isolation E =
    act_bind (e_put E CF_METADATA (as_bytes ''snap_key'') (as_bytes ''before'')) (\<lambda>_.
    act_bind (e_snapshot E) (\<lambda>snapshot.
    act_bind (e_put E CF_METADATA (as_bytes ''snap_key'') (as_bytes ''after'')) (\<lambda>_.
    act_bind (act_of_result (s_get snapshot CF_METADATA (as_bytes ''snap_key''))) (\<lambda>snap_val.
    if snap_val \<noteq> Some (as_bytes ''before'') then act_err (Engine ''snapshot is not isolated'')
    else
    act_bind (e_get E CF_METADATA (as_bytes ''snap_key'')) (\<lambda>live_val.
    if live_val \<noteq> Some (as_bytes ''after'')
    then act_err (Engine ''live view should see latest write'')
    else act_ok ())))))"

definition test_column_family_validation ::
  "(string \<Rightarrow> string) \<Rightarrow> 's engine \<Rightarrow> ('s, storage_error, unit) act" where
  "test_column_family_validation dbg E =
    (if \<not> e_has_cf E CF_SYSTEM then act_err (Engine ''known column family should exist'')
     else if e_has_cf E ''unknown_cf'' then act_err (Engine ''unknown column family should not exist'')
     else act_bind (act_try (e_get E ''unknown_cf'' (as_bytes ''k''))) (\<lambda>r.
       case r of
         Err (UnknownColumnFamily _) \<Rightarrow> act_ok ()
       | Ok _ \<Rightarrow> act_err (Engine ''invalid column family should return an error'')
       | Err err \<Rightarrow> act_err (Engine (''unexpected error for invalid column family: '' @
                                       storage_error_display dbg err))))"

definition conformance_tests ::
  "(string \<Rightarrow> string) \<Rightarrow> 's engine \<Rightarrow> ('s, storage_error, unit) act" where
  "conformance_tests dbg E =
    act_bind (test_put_get_delete E) (\<lambda>_.
    act_bind (test_write_batch_atomicity dbg E) (\<lambda>_.
    act_bind (test_scan_range_ordering E) (\<lambda>_.
    act_bind (test_snapshot_isolation E) (\<lambda>_.
    act_bind (test_column_family_validation dbg E) (\<lambda>_. act_ok ())))))"

section \<open>Engines that meet the contract pass\<close>

lemma cf_known [simp]:
  "CF_DEFAULT \<in> set cf_all" "CF_METADATA \<in> set cf_all" "CF_INDEXES \<in> set cf_all"
  "CF_TOMBSTONES \<in> set cf_all" "CF_HINTS \<in> set cf_all" "CF_SYSTEM \<in> set cf_all"
  by (simp_all add: cf_all_def)

lemma cf_unknown [simp]: "''unknown_cf'' \<notin> set cf_all"
  by (simp add: cf_all_def CF_DEFAULT_def CF_METADATA_def CF_INDEXES_def CF_TOMBSTONES_def
      CF_HINTS_def CF_SYSTEM_def)

lemma cf_distinct [simp]: "CF_DEFAULT \<noteq> CF_INDEXES" "CF_METADATA \<noteq> CF_INDEXES"
  "CF_INDEXES \<noteq> CF_DEFAULT" "CF_INDEXES \<noteq> CF_METADATA"
  by (simp_all add: CF_DEFAULT_def CF_METADATA_def CF_INDEXES_def)

lemma collect_results_Ok [simp]: "collect_results (map Ok xs) = Ok xs"
  by (induction xs) auto

text \<open>No foreign key stands where the ordering test looks.\<close>

definition scan_area_free :: "kv_map \<Rightarrow> bool" where
  "scan_area_free m \<longleftrightarrow> (\<forall>k \<in> fst ` set m. as_bytes ''scan_b'' \<le> k \<longrightarrow> k < as_bytes ''scan_d'' \<longrightarrow>
    k = as_bytes ''scan_b'' \<or> k = as_bytes ''scan_c'')"

definition scan_puts :: "kv_map \<Rightarrow> kv_map" where
  "scan_puts m = bt_insert (as_bytes ''scan_c'') (as_bytes ''3'')
    (bt_insert (as_bytes ''scan_b'') (as_bytes ''2'')
      (bt_insert (as_bytes ''scan_a'') (as_bytes ''1'') m))"

lemma scan_keys_order:
  "as_bytes ''scan_a'' < as_bytes ''scan_b''" "as_bytes ''scan_b'' < as_bytes ''scan_c''"
  "as_bytes ''scan_c'' < as_bytes ''scan_d''"
  by (simp_all add: as_bytes_def)

lemma scan_middle:
  assumes "bt_sorted m" "scan_area_free m"
  shows "map fst (scan_range (as_bytes ''scan_b'') (as_bytes ''scan_d'') (scan_puts m)) =
    [as_bytes ''scan_b'', as_bytes ''scan_c'']"
proof (rule strict_sorted_equal)
  have "bt_sorted (scan_puts m)" using assms(1) by (simp add: scan_puts_def wf_intros)
  then have "bt_sorted (scan_range (as_bytes ''scan_b'') (as_bytes ''scan_d'') (scan_puts m))"
    unfolding scan_range_def by (rule bt_sorted_filter)
  then show "sorted_wrt (<) (map fst (scan_range (as_bytes ''scan_b'') (as_bytes ''scan_d'') (scan_puts m)))"
    by (simp add: bt_sorted_def)
  have keys: "fst ` set (scan_puts m) =
      {as_bytes ''scan_a'', as_bytes ''scan_b'', as_bytes ''scan_c''} \<union> fst ` set m"
    by (auto simp: scan_puts_def)
  have "fst ` set (scan_range (as_bytes ''scan_b'') (as_bytes ''scan_d'') (scan_puts m)) =
      {k \<in> fst ` set (scan_puts m). as_bytes ''scan_b'' \<le> k \<and> k < as_bytes ''scan_d''}"
    by (force simp: scan_range_def as_bytes_def)
  also have "\<dots> = {as_bytes ''scan_b'', as_bytes ''scan_c''}"
    unfolding keys using assms(2) scan_keys_order by (auto simp: scan_area_free_def)
  finally show "set (map fst (scan_range (as_bytes ''scan_b'') (as_bytes ''scan_d'') (scan_puts m))) =
      set [as_bytes ''scan_b'', as_bytes ''scan_c'']" by simp
qed (use scan_keys_order in simp)

lemma scan_unbounded:
  assumes "bt_sorted m"
  shows "3 \<le> length (scan_range [] [] (scan_puts m))"
proof -
  let ?K = "{as_bytes ''scan_a'', as_bytes ''scan_b'', as_bytes ''scan_c''}"
  have "?K \<subseteq> fst ` set (scan_puts m)" by (auto simp: scan_puts_def)
  then have "card ?K \<le> card (fst ` set (scan_puts m))" by (intro card_mono) auto
  also have "\<dots> \<le> length (scan_puts m)" by (metis card_length length_map set_map)
  finally show ?thesis
    using scan_keys_order by (auto simp: scan_range_def case_prod_unfold)
qed

definition passes :: "('s, storage_error, unit) act \<Rightarrow> 's \<Rightarrow> 's \<Rightarrow> bool" where
  "passes t s s' \<longleftrightarrow> t s = (Some (Ok ()), s')"

context storage_engine
begin

lemma put_get_delete_passes:
  assumes "inv s"
  shows "\<exists>t. passes (test_put_get_delete E) s t \<and> inv t \<and> view t CF_INDEXES = view s CF_INDEXES"
  using assms view_sorted [OF assms, of CF_DEFAULT]
  by (simp add: passes_def test_put_get_delete_def act_simps engine_run btree_simps)

lemma write_batch_passes:
  assumes "inv s"
  shows "\<exists>t. passes (test_write_batch_atomicity dbg E) s t \<and> inv t \<and>
    view t CF_INDEXES = view s CF_INDEXES"
proof -
  let ?g = "as_bytes ''cf_batch_guard''" and ?n = "as_bytes ''cf_batch_new''"
  let ?t = "after_put E CF_DEFAULT ?g (as_bytes ''before'')
    (after_delete E CF_DEFAULT ?n (after_delete E CF_DEFAULT ?g s))"
  have t: "inv ?t" "view ?t = (view s)(CF_DEFAULT :=
      bt_insert ?g (as_bytes ''before'') (bt_remove ?n (bt_remove ?g (view s CF_DEFAULT))))"
    using assms by (simp_all add: engine_run)
  have srt: "bt_sorted (bt_remove ?n (bt_remove ?g (view s CF_DEFAULT)))"
    using view_sorted [OF assms] by (simp add: wf_intros)
  have ne: "?n \<noteq> ?g" by simp
  obtain cf where bad: "e_write_batch E bad_batch ?t = (Some (Err (UnknownColumnFamily cf)), ?t)"
    using batch_rejects [OF t(1), of bad_batch]
    by (auto simp: bad_batch_def batch_put_def batch_new_def)
  have ok: "op_cf ` set (batch_ops good_batch) \<subseteq> set cf_all"
    by (simp add: good_batch_def batch_put_def batch_delete_def batch_new_def)
  have "test_write_batch_atomicity dbg E s = (Some (Ok ()), after_batch E good_batch ?t)"
    using assms bad t srt ne
    by (simp add: test_write_batch_atomicity_def act_simps engine_run ok btree_simps)
  moreover have "view (after_batch E good_batch ?t) CF_INDEXES = view s CF_INDEXES"
    using t by (simp add: batch_run ok) (simp add: good_batch_def batch_put_def batch_delete_def batch_new_def)
  ultimately show ?thesis using batch_run(2) [OF t(1) ok] by (auto simp: passes_def)
qed

lemma scan_passes:
  assumes "inv s" "scan_area_free (view s CF_INDEXES)"
  shows "\<exists>t. passes (test_scan_range_ordering E) s t \<and> inv t"
proof -
  let ?t = "after_put E CF_INDEXES (as_bytes ''scan_c'') (as_bytes ''3'')
    (after_put E CF_INDEXES (as_bytes ''scan_b'') (as_bytes ''2'')
      (after_put E CF_INDEXES (as_bytes ''scan_a'') (as_bytes ''1'') s))"
  have t: "inv ?t" "view ?t CF_INDEXES = scan_puts (view s CF_INDEXES)"
    using assms(1) by (simp_all add: engine_run scan_puts_def)
  have srt: "bt_sorted (view s CF_INDEXES)" using view_sorted [OF assms(1)] .
  have ord: "as_bytes ''scan_b'' \<le> as_bytes ''scan_d''" using scan_keys_order by simp
  have "test_scan_range_ordering E s = (Some (Ok ()), ?t)"
    using assms(1) t scan_middle [OF srt assms(2)] scan_unbounded [OF srt] ord
    by (simp add: test_scan_range_ordering_def act_simps engine_run scan_law)
  then show ?thesis using t by (auto simp: passes_def)
qed

lemma snapshot_passes:
  assumes "inv s"
  shows "\<exists>t. passes (test_snapshot_isolation E) s t \<and> inv t"
proof -
  let ?s1 = "after_put E CF_METADATA (as_bytes ''snap_key'') (as_bytes ''before'') s"
  have i: "inv ?s1" using assms by (simp add: engine_run)
  obtain sn where sn: "e_snapshot E ?s1 = (Some (Ok sn), ?s1)"
    "\<And>cf k. cf \<in> set cf_all \<Longrightarrow> s_get sn cf k = Ok (bt_get (view ?s1 cf) k)"
    using snapshot_law [OF i] by blast
  show ?thesis
    using assms i sn view_sorted [OF assms, of CF_METADATA]
    by (simp add: passes_def test_snapshot_isolation_def act_simps engine_run btree_simps wf_intros)
qed

lemma column_family_passes:
  "inv s \<Longrightarrow> passes (test_column_family_validation dbg E) s s"
  by (simp add: passes_def test_column_family_validation_def act_simps has_cf_law unknown_cf)

lemma conformance_passes:
  assumes "inv s" "scan_area_free (view s CF_INDEXES)"
  shows "\<exists>t. conformance_tests dbg E s = (Some (Ok ()), t) \<and> inv t"
proof -
  obtain t1 where t1: "passes (test_put_get_delete E) s t1" "inv t1"
    "view t1 CF_INDEXES = view s CF_INDEXES" using put_get_delete_passes [OF assms(1)] by blast
  obtain t2 where t2: "passes (test_write_batch_atomicity dbg E) t1 t2" "inv t2"
    "view t2 CF_INDEXES = view t1 CF_INDEXES" using write_batch_passes [OF t1(2)] by blast
  obtain t3 where t3: "passes (test_scan_range_ordering E) t2 t3" "inv t3"
    using scan_passes [OF t2(2)] t1 t2 assms(2) by auto
  obtain t4 where t4: "passes (test_snapshot_isolation E) t3 t4" "inv t4"
    using snapshot_passes [OF t3(2)] by blast
  show ?thesis
    using t1 t2 t3 t4 column_family_passes [OF t4(2), of dbg]
    by (simp add: passes_def conformance_tests_def act_simps)
qed

end

section \<open>Property\<close>

text \<open>
  C22: the in-memory engine passes the whole conformance suite, without an error
  or a panic, from every state of its invariant that holds no foreign key in the
  range the ordering test scans; a new engine is such a state.
\<close>

theorem mem_engine_conforms:
  assumes "mem_inv e" "scan_area_free (mem_view e CF_INDEXES)"
  shows "\<exists>e'. conformance_tests dbg MemEngine e = (Some (Ok ()), e') \<and> mem_inv e'"
  using assms by (rule mem.conformance_passes)

theorem mem_engine_conforms_witness:
  "\<exists>e'. conformance_tests (\<lambda>s. s) MemEngine mem_new = (Some (Ok ()), e') \<and> mem_inv e'"
proof (rule mem_engine_conforms)
  show "mem_inv mem_new" by (rule mem_inv_new)
  show "scan_area_free (mem_view mem_new CF_INDEXES)"
    by (simp add: scan_area_free_def mem_view_def mem_new_def init_cf_map_def cf_all_def)
qed

end
