(* ===== verification/Ring.thy ===== *)
theory Ring
  imports Hlc "HOL-Library.Sublist"
begin

text \<open>
  The consistent hash ring (\<open>crates/bashfuldb-cluster/src/ring.rs\<close>): an ordered map
  from 64-bit positions to virtual nodes, placed by FNV-1a hashing.  Inserting at
  an occupied position replaces what was there, as \<open>BTreeMap::insert\<close> does.
\<close>

section \<open>The ring\<close>

definition DEFAULT_VNODES_PER_NODE :: nat where
  "DEFAULT_VNODES_PER_NODE = 256"

datatype vnode_id = VnodeId u64

record ring =
  ring_map :: "(u64, vnode_id \<times> node_id) btree"
  vnodes_per_node :: nat

definition fnv1a_hash :: "bytes \<Rightarrow> u64" where
  "fnv1a_hash data = fold (\<lambda>byte hash. xor hash (ucast byte) * 0x100000001b3) data 0xcbf29ce484222325"

definition hash_key :: "bytes \<Rightarrow> u64" where
  "hash_key key = fnv1a_hash key"

definition hash_vnode :: "node_id \<Rightarrow> nat \<Rightarrow> u64" where
  "hash_vnode node index =
    fnv1a_hash (node_to_bytes node @ le_bytes 8 (word_of_nat index :: u64))"

definition ring_new :: ring where
  "ring_new = \<lparr>ring_map = [], vnodes_per_node = DEFAULT_VNODES_PER_NODE\<rparr>"

definition with_vnodes_per_node :: "nat \<Rightarrow> ring" where
  "with_vnodes_per_node n = \<lparr>ring_map = [], vnodes_per_node = n\<rparr>"

definition vnode_count :: "ring \<Rightarrow> nat" where
  "vnode_count r = length (ring_map r)"

definition ring_is_empty :: "ring \<Rightarrow> bool" where
  "ring_is_empty r \<longleftrightarrow> ring_map r = []"

definition place_vnode ::
  "node_id \<Rightarrow> nat \<Rightarrow> (u64, vnode_id \<times> node_id) btree \<Rightarrow> (u64, vnode_id \<times> node_id) btree" where
  "place_vnode node i m =
    (let position = hash_vnode node i in bt_insert position (VnodeId position, node) m)"

definition add_node :: "node_id \<Rightarrow> ring \<Rightarrow> ring" where
  "add_node node r = r\<lparr>ring_map := fold (place_vnode node) [0..<vnodes_per_node r] (ring_map r)\<rparr>"

definition remove_node :: "node_id \<Rightarrow> ring \<Rightarrow> ring" where
  "remove_node node r = r\<lparr>ring_map := filter (\<lambda>(_, (_, owner)). owner \<noteq> node) (ring_map r)\<rparr>"

text \<open>
  One of the two loops of \<open>owners_for_key\<close>, from the owners and the set it has so
  far: \<open>Inl\<close> is the early return.
\<close>

fun walk_owners ::
  "nat \<Rightarrow> (u64, vnode_id \<times> node_id) btree \<Rightarrow> node_id list \<times> node_id set \<Rightarrow>
   node_id list + node_id list \<times> node_id set" where
  "walk_owners n [] acc = Inr acc"
| "walk_owners n ((_, (_, node)) # rest) (owners, seen) =
    (if node \<notin> seen then
       let owners = owners @ [node] in
       if n \<le> length owners then Inl owners else walk_owners n rest (owners, insert node seen)
     else walk_owners n rest (owners, seen))"

definition owners_for_key :: "ring \<Rightarrow> bytes \<Rightarrow> nat \<Rightarrow> node_id list" where
  "owners_for_key r key n =
    (if ring_is_empty r then []
     else let position = hash_key key in
       case walk_owners n (filter (\<lambda>(p, _). position \<le> p) (ring_map r)) ([], {}) of
         Inl owners \<Rightarrow> owners
       | Inr acc \<Rightarrow>
           (case walk_owners n (filter (\<lambda>(p, _). p < position) (ring_map r)) acc of
              Inl owners \<Rightarrow> owners
            | Inr (owners, _) \<Rightarrow> owners))"

definition ring_all_nodes :: "ring \<Rightarrow> node_id list" where
  "ring_all_nodes r = sort (remdups (map (\<lambda>(_, (_, node)). node) (ring_map r)))"

section \<open>The reference: first occurrences along the clockwise walk\<close>

fun firsts :: "'a list \<Rightarrow> 'a list" where
  "firsts [] = []"
| "firsts (x # xs) = x # filter (\<lambda>y. y \<noteq> x) (firsts xs)"

definition entry_node :: "u64 \<times> vnode_id \<times> node_id \<Rightarrow> node_id" where
  "entry_node e = snd (snd e)"

definition clockwise :: "ring \<Rightarrow> u64 \<Rightarrow> node_id list" where
  "clockwise r position =
    map entry_node (filter (\<lambda>(p, _). position \<le> p) (ring_map r) @
                    filter (\<lambda>(p, _). p < position) (ring_map r))"

lemma set_firsts [simp]: "set (firsts xs) = set xs"
  by (induction xs) auto

lemma distinct_firsts [simp]: "distinct (firsts xs)"
  by (induction xs) auto

lemma firsts_filter: "firsts (filter P xs) = filter P (firsts xs)"
  by (induction xs) (auto simp: filter_filter intro: filter_cong)

lemma filter_firsts_append:
  "filter P (firsts (xs @ ys)) = filter P (firsts xs) @ filter (\<lambda>y. P y \<and> y \<notin> set xs) (firsts ys)"
  by (induction xs arbitrary: P) (auto simp: conj_commute conj_left_commute intro!: filter_cong)

text \<open>The loop computes the next \<open>max 1 n\<close> new nodes and stops there.\<close>

lemma walk_owners_eq:
  assumes "length owners < max 1 n"
  shows "walk_owners n es (owners, set owners) =
    (let all = owners @ filter (\<lambda>x. x \<notin> set owners) (firsts (map entry_node es))
     in if max 1 n \<le> length all then Inl (take (max 1 n) all) else Inr (all, set all))"
  using assms
proof (induction es arbitrary: owners)
  case (Cons e es)
  obtain p v node where e: "e = (p, (v, node))" by (cases e) auto
  show ?case
  proof (cases "node \<in> set owners")
    case True
    then have "filter (\<lambda>x. x \<notin> set owners) (firsts (map entry_node (e # es))) =
        filter (\<lambda>x. x \<notin> set owners) (firsts (map entry_node es))"
      by (auto simp: e entry_node_def intro: filter_cong)
    then show ?thesis using True Cons by (simp add: e Let_def)
  next
    case False
    let ?o = "owners @ [node]"
    have *: "owners @ filter (\<lambda>x. x \<notin> set owners) (firsts (map entry_node (e # es))) =
        ?o @ filter (\<lambda>x. x \<notin> set ?o) (firsts (map entry_node es))"
      using False by (auto simp: e entry_node_def intro: filter_cong)
    show ?thesis
    proof (cases "n \<le> length ?o")
      case True
      then have "max 1 n = length ?o" using Cons.prems by auto
      then show ?thesis using True False * by (simp add: e Let_def)
    next
      case nle: False
      then have "length ?o < max 1 n" by simp
      from Cons.IH [OF this] show ?thesis
        unfolding * using False nle by (simp add: e Let_def)
    qed
  qed
qed auto

lemma owners_for_key_eq: "owners_for_key r key n = take (max 1 n) (firsts (clockwise r (hash_key key)))"
proof (cases "ring_map r = []")
  case False
  let ?p = "hash_key key"
  let ?A = "filter (\<lambda>(p, _). ?p \<le> p) (ring_map r)" and ?B = "filter (\<lambda>(p, _). p < ?p) (ring_map r)"
  let ?all = "firsts (map entry_node ?A)"
  have split: "firsts (clockwise r ?p) =
      ?all @ filter (\<lambda>x. x \<notin> set ?all) (firsts (map entry_node ?B))"
    using filter_firsts_append [of "\<lambda>_. True" "map entry_node ?A" "map entry_node ?B"]
    by (simp add: clockwise_def)
  have first: "walk_owners n ?A ([], {}) =
      (if max 1 n \<le> length ?all then Inl (take (max 1 n) ?all) else Inr (?all, set ?all))"
    using walk_owners_eq [of "[]" n ?A] by (simp add: Let_def)
  show ?thesis
  proof (cases "max 1 n \<le> length ?all")
    case True
    then show ?thesis
      using False first by (simp add: owners_for_key_def ring_is_empty_def split Let_def)
  next
    case short: False
    then show ?thesis
      using False first walk_owners_eq [of ?all n ?B]
      by (auto simp: owners_for_key_def ring_is_empty_def split Let_def)
  qed
qed (simp add: owners_for_key_def ring_is_empty_def clockwise_def)

section \<open>Removing and adding nodes\<close>

lemma clockwise_remove: "clockwise (remove_node x r) p = filter (\<lambda>y. y \<noteq> x) (clockwise r p)"
  by (simp add: clockwise_def remove_node_def filter_map comp_def entry_node_def case_prod_unfold
      filter_filter conj_commute)

lemma prefix_take_filter: "prefix (filter P (take n xs)) (take n (filter P xs))"
proof -
  have "length (filter P (take n xs)) \<le> n"
    using length_filter_le [of P "take n xs"] by simp
  moreover have "filter P xs = filter P (take n xs) @ filter P (drop n xs)"
    by (metis append_take_drop_id filter_append)
  ultimately show ?thesis by (simp add: prefix_def take_append)
qed

lemma owners_remove_prefix:
  "prefix (filter (\<lambda>y. y \<noteq> x) (owners_for_key r key n)) (owners_for_key (remove_node x r) key n)"
  by (simp add: owners_for_key_eq clockwise_remove firsts_filter prefix_take_filter)

lemma owners_remove_other:
  assumes "x \<notin> set (owners_for_key r key n)"
  shows "owners_for_key (remove_node x r) key n = owners_for_key r key n"
proof -
  let ?L = "firsts (clockwise r (hash_key key))" and ?n = "max 1 n"
  have "filter (\<lambda>y. y \<noteq> x) (take ?n ?L) = take ?n ?L"
    using assms by (auto simp: owners_for_key_eq filter_id_conv)
  then have L: "filter (\<lambda>y. y \<noteq> x) ?L = take ?n ?L @ filter (\<lambda>y. y \<noteq> x) (drop ?n ?L)"
    by (metis append_take_drop_id filter_append)
  show ?thesis
  proof (cases "?n \<le> length ?L")
    case True
    then show ?thesis by (simp add: owners_for_key_eq clockwise_remove firsts_filter L)
  next
    case False
    then have "length ?L \<le> ?n" by linarith
    then have "drop ?n ?L = []" by (rule drop_all)
    then show ?thesis using L by (simp add: owners_for_key_eq clockwise_remove firsts_filter)
  qed
qed

lemma filter_place_vnode:
  "\<forall>e \<in> set m. fst e = hash_vnode x i \<longrightarrow> entry_node e = x \<Longrightarrow>
    filter (\<lambda>e. entry_node e \<noteq> x) (place_vnode x i m) = filter (\<lambda>e. entry_node e \<noteq> x) m"
  by (induction m) (auto simp: place_vnode_def Let_def entry_node_def)

lemma place_vnode_entries:
  "e \<in> set (place_vnode x i m) \<Longrightarrow> entry_node e = x \<and> fst e = hash_vnode x i \<or> e \<in> set m"
  using set_bt_insert [of "hash_vnode x i" "(VnodeId (hash_vnode x i), x)" m]
  by (auto simp: place_vnode_def Let_def entry_node_def)

lemma filter_place_vnodes:
  "\<forall>e \<in> set m. (\<exists>i \<in> set is. fst e = hash_vnode x i) \<longrightarrow> entry_node e = x \<Longrightarrow>
    filter (\<lambda>e. entry_node e \<noteq> x) (fold (place_vnode x) is m) = filter (\<lambda>e. entry_node e \<noteq> x) m"
proof (induction "is" arbitrary: m)
  case (Cons i js)
  have "\<forall>e \<in> set (place_vnode x i m). (\<exists>i \<in> set js. fst e = hash_vnode x i) \<longrightarrow> entry_node e = x"
    using Cons.prems by (auto dest!: place_vnode_entries)
  then show ?case using Cons.IH [of "place_vnode x i m"] filter_place_vnode [of m x i] Cons.prems by simp
qed simp

text \<open>A node whose positions are free can be added and removed without a trace.\<close>

definition positions_free :: "node_id \<Rightarrow> ring \<Rightarrow> bool" where
  "positions_free x r \<longleftrightarrow> x \<notin> set (ring_all_nodes r) \<and>
    (\<forall>i < vnodes_per_node r. hash_vnode x i \<notin> fst ` set (ring_map r))"

lemma remove_add_node:
  assumes "positions_free x r"
  shows "remove_node x (add_node x r) = r"
proof -
  have no: "\<forall>e \<in> set (ring_map r). entry_node e \<noteq> x"
    using assms by (force simp: positions_free_def ring_all_nodes_def entry_node_def)
  have "\<forall>e \<in> set (ring_map r). (\<exists>i \<in> set [0..<vnodes_per_node r]. fst e = hash_vnode x i) \<longrightarrow>
      entry_node e = x"
    using assms by (force simp: positions_free_def)
  from filter_place_vnodes [OF this] no
  have "filter (\<lambda>e. entry_node e \<noteq> x) (fold (place_vnode x) [0..<vnodes_per_node r] (ring_map r)) =
      ring_map r"
    by (simp add: filter_id_conv)
  then show ?thesis
    by (simp add: remove_node_def add_node_def entry_node_def case_prod_unfold)
qed

section \<open>Where the entries come from\<close>

text \<open>The positions on the ring are the hashes of the nodes it was built from.\<close>

definition ring_ok :: "node_id set \<Rightarrow> ring \<Rightarrow> bool" where
  "ring_ok H r \<longleftrightarrow> bt_sorted (ring_map r) \<and>
    (\<forall>(p, (v, n)) \<in> set (ring_map r). v = VnodeId p \<and> n \<in> H \<and>
      (\<exists>i < vnodes_per_node r. p = hash_vnode n i)) \<and>
    (\<forall>n \<in> H. \<forall>i < vnodes_per_node r. hash_vnode n i \<in> fst ` set (ring_map r))"

lemma ring_ok_new [wf_intros]: "ring_ok {} ring_new"
  by (simp add: ring_ok_def ring_new_def)

lemma place_vnodes_keys [simp]:
  "fst ` set (fold (place_vnode x) is m) = hash_vnode x ` set is \<union> fst ` set m"
  by (induction "is" arbitrary: m) (auto simp: place_vnode_def Let_def)

lemma place_vnodes_sorted: "bt_sorted m \<Longrightarrow> bt_sorted (fold (place_vnode x) is m)"
  by (induction "is" arbitrary: m) (auto simp: place_vnode_def Let_def wf_intros)

lemma place_vnodes_set:
  "e \<in> set (fold (place_vnode x) is m) \<Longrightarrow>
    (\<exists>i \<in> set is. e = (hash_vnode x i, (VnodeId (hash_vnode x i), x))) \<or> e \<in> set m"
proof (induction "is" arbitrary: m)
  case (Cons i js)
  have "set (place_vnode x i m) \<subseteq> insert (hash_vnode x i, (VnodeId (hash_vnode x i), x)) (set m)"
    by (simp add: place_vnode_def Let_def set_bt_insert)
  then show ?case using Cons by fastforce
qed simp

lemma vnodes_per_node_add [simp]: "vnodes_per_node (add_node x r) = vnodes_per_node r"
  by (simp add: add_node_def)

lemma ring_ok_add [wf_intros]:
  assumes "ring_ok H r"
  shows "ring_ok (insert x H) (add_node x r)"
proof -
  have "\<forall>(p, (v, n)) \<in> set (ring_map (add_node x r)). v = VnodeId p \<and> n \<in> insert x H \<and>
      (\<exists>i < vnodes_per_node r. p = hash_vnode n i)"
    using assms by (fastforce simp: add_node_def ring_ok_def dest!: place_vnodes_set)
  moreover have "hash_vnode n i \<in> fst ` set (ring_map (add_node x r))"
    if "n \<in> insert x H" "i < vnodes_per_node r" for n i
    using assms that by (auto simp: add_node_def ring_ok_def)
  ultimately show ?thesis
    using assms by (simp add: ring_ok_def) (simp add: add_node_def place_vnodes_sorted)
qed

lemma set_clockwise: "set (clockwise r p) = set (ring_all_nodes r)"
  by (force simp: clockwise_def ring_all_nodes_def entry_node_def not_le)

lemma length_firsts: "length (firsts xs) = card (set xs)"
  by (metis distinct_card distinct_firsts set_firsts)

section \<open>Properties\<close>

text \<open>
  C11: \<open>owners_for_key\<close> returns the first distinct nodes met on the clockwise walk
  from the key's position: no node twice, only nodes of the ring, and exactly \<open>n\<close>
  of them when the ring has that many nodes and \<open>n\<close> is not zero (all nodes when it has fewer).  Asked for no owner,
  it still returns one when the ring has a node, although the comment promises \<open>n\<close>: the length is the minimum of
  \<open>max 1 n\<close> and the number of nodes.
\<close>

theorem owners_for_key_correct:
  "owners_for_key r key n = take (max 1 n) (firsts (clockwise r (hash_key key))) \<and>
   distinct (owners_for_key r key n) \<and>
   set (owners_for_key r key n) \<subseteq> set (ring_all_nodes r) \<and>
   length (owners_for_key r key n) = min (max 1 n) (length (ring_all_nodes r))"
proof -
  have "length (ring_all_nodes r) = card (set (ring_all_nodes r))"
    by (simp add: ring_all_nodes_def length_remdups_card_conv)
  then have "length (firsts (clockwise r (hash_key key))) = length (ring_all_nodes r)"
    by (simp add: length_firsts set_clockwise)
  moreover have "set (owners_for_key r key n) \<subseteq> set (ring_all_nodes r)"
    using set_take_subset [of "max 1 n" "firsts (clockwise r (hash_key key))"]
    by (simp add: owners_for_key_eq set_clockwise)
  ultimately show ?thesis by (simp add: owners_for_key_eq min.commute)
qed

text \<open>
  C35: removing a node disturbs only the keys it owns.  The other owners of a key
  keep their places, and a key the node did not own keeps exactly its owners.
\<close>

theorem remove_node_minimal:
  "prefix (filter (\<lambda>y. y \<noteq> x) (owners_for_key r key n)) (owners_for_key (remove_node x r) key n) \<and>
   x \<notin> set (owners_for_key (remove_node x r) key n) \<and>
   (x \<notin> set (owners_for_key r key n) \<longrightarrow>
     owners_for_key (remove_node x r) key n = owners_for_key r key n)"
proof (intro conjI impI)
  show "x \<notin> set (owners_for_key (remove_node x r) key n)"
    using set_take_subset [of "max 1 n" "filter (\<lambda>y. y \<noteq> x) (firsts (clockwise r (hash_key key)))"]
    by (auto simp: owners_for_key_eq clockwise_remove firsts_filter)
qed (auto intro: owners_remove_prefix owners_remove_other)

theorem remove_node_minimal_witness:
  "owners_for_key (remove_node (NodeId 2)
      \<lparr>ring_map = [(5, VnodeId 5, NodeId 1), (9, VnodeId 9, NodeId 2)], vnodes_per_node = 1\<rparr>) [] 1 =
   [NodeId 1]"
proof -
  let ?r = "\<lparr>ring_map = [(5, VnodeId 5, NodeId 1), (9, VnodeId 9, NodeId 2)], vnodes_per_node = 1\<rparr>"
  have "owners_for_key ?r [] 1 = [NodeId 1]" by code_simp
  then show ?thesis using remove_node_minimal [of "NodeId 2" ?r "[]" 1] by simp
qed

text \<open>
  Adding a node whose positions are free moves keys only to that node: the
  other owners of a key are the first of the owners it had before.
\<close>

theorem add_node_minimal:
  assumes "positions_free x r"
  shows "prefix (filter (\<lambda>y. y \<noteq> x) (owners_for_key (add_node x r) key n)) (owners_for_key r key n)"
  using owners_remove_prefix [of x "add_node x r" key n] by (simp add: remove_add_node [OF assms])

theorem add_node_minimal_witness:
  "prefix (filter (\<lambda>y. y \<noteq> NodeId 3)
      (owners_for_key (add_node (NodeId 3)
        \<lparr>ring_map = [(5, VnodeId 5, NodeId 1)], vnodes_per_node = 1\<rparr>) [] 2)) [NodeId 1]"
proof -
  let ?r = "\<lparr>ring_map = [(5, VnodeId 5, NodeId 1)], vnodes_per_node = 1\<rparr>"
  have "hash_vnode (NodeId 3) 0 \<noteq> 5" by code_simp
  then have "positions_free (NodeId 3) ?r" by (simp add: positions_free_def ring_all_nodes_def)
  moreover have "owners_for_key ?r [] 2 = [NodeId 1]" by code_simp
  ultimately show ?thesis using add_node_minimal [of "NodeId 3" ?r "[]" 2] by simp
qed

end
