(* ===== verification/Membership.thy ===== *)
theory Membership
  imports Ring "HOL-Library.Product_Lexorder"
begin

text \<open>
  Node lifecycle states (\<open>crates/bashfuldb-cluster/src/node_state.rs\<close>) and the
  membership table (\<open>membership.rs\<close>, \<open>types.rs\<close>, \<open>error.rs\<close>).  The member map is an
  association list with distinct keys: its order stands for the iteration order of
  the hash map, which Rust leaves open, so nothing below depends on it beyond the
  set of entries.  The broadcast channel is the list of the events sent on it.  An
  error that carries a node's text form carries the node here.
\<close>

section \<open>Lifecycle states\<close>

datatype node_state =
  Joining | Bootstrapping | Healthy | Leaving | Draining | Suspect | Down | Rebuilding

definition can_serve_reads :: "node_state \<Rightarrow> bool" where
  "can_serve_reads s \<longleftrightarrow> s = Healthy \<or> s = Draining"

definition can_serve_writes :: "node_state \<Rightarrow> bool" where
  "can_serve_writes s \<longleftrightarrow> s = Healthy"

fun valid_transitions :: "node_state \<Rightarrow> node_state list" where
  "valid_transitions Joining = [Bootstrapping, Down]"
| "valid_transitions Bootstrapping = [Healthy, Down]"
| "valid_transitions Healthy = [Leaving, Draining, Suspect, Down]"
| "valid_transitions Leaving = [Draining, Down]"
| "valid_transitions Draining = [Down]"
| "valid_transitions Suspect = [Healthy, Down]"
| "valid_transitions Down = [Rebuilding, Joining]"
| "valid_transitions Rebuilding = [Healthy, Down]"

definition can_transition_to :: "node_state \<Rightarrow> node_state \<Rightarrow> bool" where
  "can_transition_to s target \<longleftrightarrow> target \<in> set (valid_transitions s)"

section \<open>Types\<close>

datatype socket_addr = SocketAddrV4 u32 u16 | SocketAddrV6 u128 u16

record node_info =
  ni_id :: node_id
  ni_address :: socket_addr
  ni_gossip_address :: socket_addr
  ni_state :: node_state
  ni_vnodes :: "vnode_id list"

datatype membership_event =
    NodeJoined node_id
  | NodeLeft node_id
  | StateChanged node_id node_state node_state
  | RingRebalanced

record member_digest =
  md_id :: node_id
  md_state :: node_state
  md_generation :: u64
  md_updated_at :: hlc

record gossip_message =
  gm_sender :: node_id
  gm_hlc :: hlc
  gm_schema_version :: u64
  gm_members :: "member_digest list"

datatype cluster_error =
    InvalidStateTransition node_state node_state
  | NodeNotFound node_id
  | ClusterTransportError string
  | InsufficientNodes nat nat
  | EmptyRing
  | ClusterClockError string

record member_record =
  mr_info :: node_info
  mr_generation :: u64
  mr_updated_at :: hlc

record cluster_membership =
  cm_local_node :: node_id
  cm_ring :: ring
  cm_members :: "(node_id \<times> member_record) list"
  cm_events :: "membership_event list"
  cm_schema_version :: u64

definition unknown_node_address :: socket_addr where
  "unknown_node_address = SocketAddrV4 0x7F000001 0"

section \<open>Operations\<close>

definition rebuild_ring :: "cluster_membership \<Rightarrow> cluster_membership" where
  "rebuild_ring m =
    (let ring = fold (\<lambda>member ring.
           if ni_state (mr_info member) = Healthy then add_node (ni_id (mr_info member)) ring else ring)
         (map snd (cm_members m)) ring_new
     in m\<lparr>cm_ring := ring\<rparr>)"

definition send_event :: "membership_event \<Rightarrow> cluster_membership \<Rightarrow> cluster_membership" where
  "send_event ev m = m\<lparr>cm_events := cm_events m @ [ev]\<rparr>"

definition emit_rebalance_if_needed ::
  "node_state option \<Rightarrow> node_state option \<Rightarrow> cluster_membership \<Rightarrow> cluster_membership" where
  "emit_rebalance_if_needed from to m =
    (let before_healthy = (case from of None \<Rightarrow> False | Some s \<Rightarrow> s = Healthy);
         after_healthy = (case to of None \<Rightarrow> False | Some s \<Rightarrow> s = Healthy)
     in if before_healthy \<noteq> after_healthy \<or> (from = None \<and> after_healthy)
        then send_event RingRebalanced (rebuild_ring m) else m)"

definition emit_state_events ::
  "node_id \<Rightarrow> node_state \<Rightarrow> node_state \<Rightarrow> cluster_membership \<Rightarrow> cluster_membership" where
  "emit_state_events node from to m =
    (if from \<noteq> to then
       let m = send_event (StateChanged node from to) m;
           m = (if to = Down then send_event (NodeLeft node) m else m)
       in emit_rebalance_if_needed (Some from) (Some to) m
     else m)"

definition insert_member :: "node_id \<Rightarrow> member_record \<Rightarrow> cluster_membership \<Rightarrow> cluster_membership" where
  "insert_member node r m = m\<lparr>cm_members := AList.update node r (cm_members m)\<rparr>"

definition membership_new :: "node_info \<Rightarrow> hlc \<Rightarrow> cluster_membership" where
  "membership_new local now =
    rebuild_ring \<lparr>cm_local_node = ni_id local, cm_ring = ring_new,
      cm_members = [(ni_id local, \<lparr>mr_info = local, mr_generation = 0, mr_updated_at = now\<rparr>)],
      cm_events = [], cm_schema_version = 0\<rparr>"

definition set_schema_version :: "u64 \<Rightarrow> cluster_membership \<Rightarrow> cluster_membership" where
  "set_schema_version v m = m\<lparr>cm_schema_version := v\<rparr>"

definition digest_of :: "member_record \<Rightarrow> member_digest" where
  "digest_of r = \<lparr>md_id = ni_id (mr_info r), md_state = ni_state (mr_info r),
     md_generation = mr_generation r, md_updated_at = mr_updated_at r\<rparr>"

definition member_digests :: "cluster_membership \<Rightarrow> member_digest list" where
  "member_digests m = map (\<lambda>(_, r). digest_of r) (cm_members m)"

definition upsert_local_member ::
  "node_info \<Rightarrow> hlc \<Rightarrow> cluster_membership \<Rightarrow> (cluster_error, cluster_membership) result" where
  "upsert_local_member info updated_at m =
    (case map_of (cm_members m) (ni_id info) of
       Some existing \<Rightarrow>
         (let old_state = ni_state (mr_info existing) in
          if \<not> can_transition_to old_state (ni_state info) \<and> old_state \<noteq> ni_state info
          then Err (InvalidStateTransition old_state (ni_state info))
          else Ok (emit_state_events (ni_id info) old_state (ni_state info)
            (insert_member (ni_id info)
              \<lparr>mr_info = info, mr_generation = saturating_add (mr_generation existing) 1,
               mr_updated_at = updated_at\<rparr> m)))
     | None \<Rightarrow>
         Ok (emit_rebalance_if_needed None (Some (ni_state info))
           (send_event (NodeJoined (ni_id info))
             (insert_member (ni_id info)
               \<lparr>mr_info = info, mr_generation = 0, mr_updated_at = updated_at\<rparr> m))))"

definition transition_state ::
  "node_id \<Rightarrow> node_state \<Rightarrow> hlc \<Rightarrow> cluster_membership \<Rightarrow> (cluster_error, cluster_membership) result" where
  "transition_state node to updated_at m =
    (case map_of (cm_members m) node of
       None \<Rightarrow> Err (NodeNotFound node)
     | Some current \<Rightarrow>
         (let from = ni_state (mr_info current) in
          if from \<noteq> to \<and> \<not> can_transition_to from to then Err (InvalidStateTransition from to)
          else Ok (emit_state_events node from to
            (insert_member node
              \<lparr>mr_info = (mr_info current)\<lparr>ni_state := to\<rparr>,
               mr_generation = saturating_add (mr_generation current) 1,
               mr_updated_at = updated_at\<rparr> m))))"

definition digest_newer :: "member_digest \<Rightarrow> member_record \<Rightarrow> bool" where
  "digest_newer d r \<longleftrightarrow> mr_generation r < md_generation d \<or>
    (md_generation d = mr_generation r \<and> mr_updated_at r < md_updated_at d)"

text \<open>One turn of the merge loop, with its \<open>changed\<close> flag.\<close>

definition merge_digest ::
  "member_digest \<Rightarrow> cluster_membership \<times> bool \<Rightarrow> cluster_membership \<times> bool" where
  "merge_digest d = (\<lambda>(m, changed).
    case map_of (cm_members m) (md_id d) of
      Some local_record \<Rightarrow>
        (let from = ni_state (mr_info local_record) in
         if \<not> digest_newer d local_record then (m, changed)
         else if md_state d \<noteq> from \<and> \<not> can_transition_to from (md_state d) then (m, changed)
         else (emit_state_events (md_id d) from (md_state d)
             (insert_member (md_id d)
               \<lparr>mr_info = (mr_info local_record)\<lparr>ni_state := md_state d\<rparr>,
                mr_generation = md_generation d, mr_updated_at = md_updated_at d\<rparr> m), True))
    | None \<Rightarrow>
        if md_state d \<noteq> Joining \<and> md_state d \<noteq> Healthy then (m, changed)
        else (emit_rebalance_if_needed None (Some (md_state d))
            (send_event (NodeJoined (md_id d))
              (insert_member (md_id d)
                \<lparr>mr_info = \<lparr>ni_id = md_id d, ni_address = unknown_node_address,
                   ni_gossip_address = unknown_node_address, ni_state = md_state d, ni_vnodes = []\<rparr>,
                 mr_generation = md_generation d, mr_updated_at = md_updated_at d\<rparr> m)), True))"

definition merge_remote_digests ::
  "member_digest list \<Rightarrow> cluster_membership \<Rightarrow> cluster_membership \<times> bool" where
  "merge_remote_digests remote m = fold merge_digest remote (m, False)"

definition member_owners_for_key :: "cluster_membership \<Rightarrow> bytes \<Rightarrow> nat \<Rightarrow> node_id list" where
  "member_owners_for_key m key n = owners_for_key (cm_ring m) key n"

definition member_node_info :: "cluster_membership \<Rightarrow> node_id \<Rightarrow> node_info option" where
  "member_node_info m node = map_option mr_info (map_of (cm_members m) node)"

definition member_node_state :: "cluster_membership \<Rightarrow> node_id \<Rightarrow> node_state option" where
  "member_node_state m node = map_option (\<lambda>r. ni_state (mr_info r)) (map_of (cm_members m) node)"

definition member_all_nodes :: "cluster_membership \<Rightarrow> node_id list" where
  "member_all_nodes m = sort (map fst (cm_members m))"

section \<open>One update of the table\<close>

text \<open>Every successful operation writes one record and emits what follows from it.\<close>

definition put_member :: "node_id \<Rightarrow> member_record \<Rightarrow> cluster_membership \<Rightarrow> cluster_membership" where
  "put_member n r m =
    (case map_of (cm_members m) n of
       Some r0 \<Rightarrow> emit_state_events n (ni_state (mr_info r0)) (ni_state (mr_info r)) (insert_member n r m)
     | None \<Rightarrow> emit_rebalance_if_needed None (Some (ni_state (mr_info r)))
         (send_event (NodeJoined n) (insert_member n r m)))"

definition version_of :: "member_record \<Rightarrow> u64 \<times> hlc" where
  "version_of r = (mr_generation r, mr_updated_at r)"

definition legal_update :: "node_id \<Rightarrow> member_record option \<Rightarrow> member_record \<Rightarrow> bool" where
  "legal_update n old r \<longleftrightarrow> ni_id (mr_info r) = n \<and>
    (case old of
       None \<Rightarrow> True
     | Some r0 \<Rightarrow> mr_generation r0 \<le> mr_generation r \<and>
         (ni_state (mr_info r0) = ni_state (mr_info r) \<or>
          can_transition_to (ni_state (mr_info r0)) (ni_state (mr_info r))))"

inductive member_step :: "cluster_membership \<Rightarrow> cluster_membership \<Rightarrow> bool" where
  put: "legal_update n (map_of (cm_members m) n) r \<Longrightarrow> member_step m (put_member n r m)"
| schema: "member_step m (set_schema_version v m)"

inductive_cases member_stepE: "member_step m m'"

lemma members_frame [simp]:
  "cm_members (rebuild_ring m) = cm_members m"
  "cm_members (send_event ev m) = cm_members m"
  "cm_members (emit_rebalance_if_needed from to m) = cm_members m"
  "cm_members (emit_state_events n s t m) = cm_members m"
  "cm_members (set_schema_version v m) = cm_members m"
  "cm_members (insert_member n r m) = AList.update n r (cm_members m)"
  by (simp_all add: rebuild_ring_def send_event_def emit_rebalance_if_needed_def
      emit_state_events_def set_schema_version_def insert_member_def Let_def)

lemma local_frame [simp]:
  "cm_local_node (rebuild_ring m) = cm_local_node m"
  "cm_local_node (send_event ev m) = cm_local_node m"
  "cm_local_node (emit_rebalance_if_needed from to m) = cm_local_node m"
  "cm_local_node (emit_state_events n s t m) = cm_local_node m"
  "cm_local_node (set_schema_version v m) = cm_local_node m"
  "cm_local_node (insert_member n r m) = cm_local_node m"
  by (simp_all add: rebuild_ring_def send_event_def emit_rebalance_if_needed_def
      emit_state_events_def set_schema_version_def insert_member_def Let_def)

lemma ring_frame [simp]:
  "cm_ring (send_event ev m) = cm_ring m"
  "cm_ring (set_schema_version v m) = cm_ring m"
  "cm_ring (insert_member n r m) = cm_ring m"
  by (simp_all add: send_event_def set_schema_version_def insert_member_def)

lemma put_member_members:
  "cm_members (put_member n r m) = AList.update n r (cm_members m)"
  by (simp add: put_member_def split: option.splits)

lemma put_member_lookup:
  "map_of (cm_members (put_member n r m)) k = (if k = n then Some r else map_of (cm_members m) k)"
  by (simp add: put_member_members update_conv')

lemma put_member_local [simp]: "cm_local_node (put_member n r m) = cm_local_node m"
  by (simp add: put_member_def split: option.splits)

text \<open>The operations are such updates.\<close>

lemma saturating_succ_ge: "g \<le> saturating_add g 1" for g :: u64
  by (rule saturating_add_mono)

lemma upsert_step:
  assumes "upsert_local_member info t m = Ok m'"
  shows "member_step m m'"
proof (cases "map_of (cm_members m) (ni_id info)")
  case None
  then have "m' = put_member (ni_id info) \<lparr>mr_info = info, mr_generation = 0, mr_updated_at = t\<rparr> m"
    using assms by (simp add: upsert_local_member_def put_member_def)
  then show ?thesis using None by (auto simp: legal_update_def intro!: member_step.put)
next
  case (Some r0)
  let ?r = "\<lparr>mr_info = info, mr_generation = saturating_add (mr_generation r0) 1, mr_updated_at = t\<rparr>"
  have "m' = put_member (ni_id info) ?r m"
    using assms Some by (auto simp: upsert_local_member_def put_member_def Let_def split: if_splits)
  moreover have "legal_update (ni_id info) (map_of (cm_members m) (ni_id info)) ?r"
    using assms Some by (auto simp: upsert_local_member_def legal_update_def Let_def
        saturating_succ_ge split: if_splits)
  ultimately show ?thesis using member_step.put by blast
qed

definition ids_ok :: "cluster_membership \<Rightarrow> bool" where
  "ids_ok m \<longleftrightarrow> (\<forall>n r. map_of (cm_members m) n = Some r \<longrightarrow> ni_id (mr_info r) = n)"

lemma transition_step:
  assumes "ids_ok m" "transition_state n to t m = Ok m'"
  shows "member_step m m'"
proof -
  obtain r0 where r0: "map_of (cm_members m) n = Some r0"
    using assms(2) by (auto simp: transition_state_def split: option.splits)
  let ?r = "\<lparr>mr_info = (mr_info r0)\<lparr>ni_state := to\<rparr>,
    mr_generation = saturating_add (mr_generation r0) 1, mr_updated_at = t\<rparr>"
  have "m' = put_member n ?r m"
    using assms(2) r0 by (auto simp: transition_state_def put_member_def Let_def split: if_splits)
  moreover have "legal_update n (map_of (cm_members m) n) ?r"
    using assms r0 by (auto simp: transition_state_def legal_update_def ids_ok_def Let_def
        saturating_succ_ge split: if_splits)
  ultimately show ?thesis using member_step.put by blast
qed

text \<open>A digest is either ignored or accepted as a newer version of its node.\<close>

lemma merge_digest_cases:
  assumes "ids_ok m"
  obtains "merge_digest d (m, c) = (m, c)"
  | r where "merge_digest d (m, c) = (put_member (md_id d) r m, True)"
      "legal_update (md_id d) (map_of (cm_members m) (md_id d)) r"
      "version_of r = (md_generation d, md_updated_at d)" "ni_state (mr_info r) = md_state d"
      "\<And>r0. map_of (cm_members m) (md_id d) = Some r0 \<Longrightarrow> digest_newer d r0"
proof (cases "map_of (cm_members m) (md_id d)")
  case None
  let ?r = "\<lparr>mr_info = \<lparr>ni_id = md_id d, ni_address = unknown_node_address,
      ni_gossip_address = unknown_node_address, ni_state = md_state d, ni_vnodes = []\<rparr>,
    mr_generation = md_generation d, mr_updated_at = md_updated_at d\<rparr>"
  show ?thesis
  proof (cases "md_state d \<noteq> Joining \<and> md_state d \<noteq> Healthy")
    case True
    then show ?thesis using None that(1) by (simp add: merge_digest_def)
  next
    case False
    then have "merge_digest d (m, c) = (put_member (md_id d) ?r m, True)"
      using None by (auto simp: merge_digest_def put_member_def)
    then show ?thesis using None that(2) by (simp add: legal_update_def version_of_def)
  qed
next
  case (Some r0)
  let ?r = "\<lparr>mr_info = (mr_info r0)\<lparr>ni_state := md_state d\<rparr>,
    mr_generation = md_generation d, mr_updated_at = md_updated_at d\<rparr>"
  let ?legal = "md_state d = ni_state (mr_info r0) \<or> can_transition_to (ni_state (mr_info r0)) (md_state d)"
  show ?thesis
  proof (cases "digest_newer d r0 \<and> ?legal")
    case False
    then show ?thesis using Some that(1) by (auto simp: merge_digest_def Let_def)
  next
    case True
    then have "merge_digest d (m, c) = (put_member (md_id d) ?r m, True)"
      using Some by (auto simp: merge_digest_def put_member_def Let_def)
    moreover have "legal_update (md_id d) (Some r0) ?r"
      using True Some assms by (auto simp: legal_update_def ids_ok_def digest_newer_def)
    ultimately show ?thesis using Some True that(2) by (simp add: version_of_def)
  qed
qed

section \<open>The invariant\<close>

definition healthy_nodes :: "cluster_membership \<Rightarrow> node_id set" where
  "healthy_nodes m = {n. member_node_state m n = Some Healthy}"

fun event_legal :: "membership_event \<Rightarrow> bool" where
  "event_legal (StateChanged _ from to) = can_transition_to from to"
| "event_legal _ = True"

definition membership_wf :: "cluster_membership \<Rightarrow> bool" where
  "membership_wf m \<longleftrightarrow> distinct (map fst (cm_members m)) \<and> ids_ok m \<and>
    cm_local_node m \<in> fst ` set (cm_members m) \<and>
    vnodes_per_node (cm_ring m) = DEFAULT_VNODES_PER_NODE \<and>
    ring_ok (healthy_nodes m) (cm_ring m) \<and>
    list_all event_legal (cm_events m)"

lemma healthy_frame [simp]:
  "healthy_nodes (rebuild_ring m) = healthy_nodes m"
  "healthy_nodes (send_event ev m) = healthy_nodes m"
  "healthy_nodes (set_schema_version v m) = healthy_nodes m"
  by (simp_all add: healthy_nodes_def member_node_state_def)

lemma healthy_insert:
  "healthy_nodes (insert_member n r m) =
    (if ni_state (mr_info r) = Healthy then insert n (healthy_nodes m) else healthy_nodes m - {n})"
  by (auto simp: healthy_nodes_def member_node_state_def update_conv')

lemma ring_fold_ok:
  "ring_ok H ring \<Longrightarrow>
    ring_ok (H \<union> {ni_id (mr_info r) | r. r \<in> set rs \<and> ni_state (mr_info r) = Healthy})
      (fold (\<lambda>r ring. if ni_state (mr_info r) = Healthy then add_node (ni_id (mr_info r)) ring else ring)
        rs ring)"
proof (induction rs arbitrary: H ring)
  case (Cons r rs)
  show ?case
  proof (cases "ni_state (mr_info r) = Healthy")
    case True
    have "H \<union> {ni_id (mr_info q) | q. q \<in> set (r # rs) \<and> ni_state (mr_info q) = Healthy} =
        insert (ni_id (mr_info r)) H \<union> {ni_id (mr_info q) | q. q \<in> set rs \<and> ni_state (mr_info q) = Healthy}"
      using True by auto
    then show ?thesis using Cons.IH [OF ring_ok_add [OF Cons.prems]] True by simp
  next
    case False
    then have "{ni_id (mr_info q) | q. q \<in> set (r # rs) \<and> ni_state (mr_info q) = Healthy} =
        {ni_id (mr_info q) | q. q \<in> set rs \<and> ni_state (mr_info q) = Healthy}" by auto
    then show ?thesis using Cons.IH [OF Cons.prems] False by simp
  qed
qed simp

lemma ring_fold_vnodes [simp]:
  "vnodes_per_node (fold (\<lambda>r ring. if P r then add_node (f r) ring else ring) rs ring) = vnodes_per_node ring"
  by (induction rs arbitrary: ring) auto

lemma rebuild_ring_ok:
  assumes "distinct (map fst (cm_members m))" "ids_ok m"
  shows "ring_ok (healthy_nodes m) (cm_ring (rebuild_ring m)) \<and>
    vnodes_per_node (cm_ring (rebuild_ring m)) = DEFAULT_VNODES_PER_NODE"
proof -
  have "healthy_nodes m =
      {ni_id (mr_info r) | r. r \<in> set (map snd (cm_members m)) \<and> ni_state (mr_info r) = Healthy}"
  proof -
    have "n \<in> healthy_nodes m \<longleftrightarrow>
        (\<exists>r. (n, r) \<in> set (cm_members m) \<and> ni_state (mr_info r) = Healthy)" for n
      using assms(1) by (auto simp: healthy_nodes_def member_node_state_def)
    moreover have "ni_id (mr_info r) = n" if "(n, r) \<in> set (cm_members m)" for n r
      using assms that by (auto simp: ids_ok_def)
    ultimately show ?thesis by (force simp: image_iff)
  qed
  then show ?thesis
    using ring_fold_ok [OF ring_ok_new, of "map snd (cm_members m)"]
    by (simp add: rebuild_ring_def Let_def) (simp add: ring_new_def)
qed

definition table_ok :: "cluster_membership \<Rightarrow> bool" where
  "table_ok m \<longleftrightarrow> distinct (map fst (cm_members m)) \<and> ids_ok m \<and>
    cm_local_node m \<in> fst ` set (cm_members m) \<and> list_all event_legal (cm_events m)"

definition ring_current :: "cluster_membership \<Rightarrow> bool" where
  "ring_current m \<longleftrightarrow> vnodes_per_node (cm_ring m) = DEFAULT_VNODES_PER_NODE \<and>
    ring_ok (healthy_nodes m) (cm_ring m)"

lemma membership_wf_split: "membership_wf m \<longleftrightarrow> table_ok m \<and> ring_current m"
  by (auto simp: membership_wf_def table_ok_def ring_current_def)

lemma ring_current_send [simp]: "ring_current (send_event ev m) \<longleftrightarrow> ring_current m"
  by (simp add: ring_current_def)

lemma table_ok_send [simp]: "table_ok (send_event ev m) \<longleftrightarrow> table_ok m \<and> event_legal ev"
  by (auto simp: table_ok_def ids_ok_def send_event_def)

lemma table_ok_rebuild [simp]: "table_ok (rebuild_ring m) \<longleftrightarrow> table_ok m"
  by (simp add: table_ok_def ids_ok_def) (simp add: rebuild_ring_def Let_def)

lemma rebuild_current: "table_ok m \<Longrightarrow> ring_current (rebuild_ring m)"
  using rebuild_ring_ok by (simp add: ring_current_def table_ok_def)

lemma emit_rebalance_wf:
  assumes "table_ok m"
    and "(from = Some Healthy) = (to = Some Healthy) \<Longrightarrow> ring_current m"
  shows "membership_wf (emit_rebalance_if_needed from to m)"
  using assms rebuild_current [OF assms(1)]
  by (auto simp: emit_rebalance_if_needed_def membership_wf_split split: option.splits)

lemma keys_update: "fst ` set (AList.update n r xs) = insert n (fst ` set xs)"
  by (induction xs) auto

lemma ids_ok_insert: "ids_ok m \<Longrightarrow> ni_id (mr_info r) = n \<Longrightarrow> ids_ok (insert_member n r m)"
  by (simp add: ids_ok_def update_conv')

lemma table_ok_insert:
  assumes "table_ok m" "ni_id (mr_info r) = n"
  shows "table_ok (insert_member n r m)"
proof -
  have "cm_events (insert_member n r m) = cm_events m" by (simp add: insert_member_def)
  then show ?thesis
    using assms ids_ok_insert [of m r n] distinct_update [of "cm_members m" n r]
    by (simp add: table_ok_def keys_update)
qed

lemma put_member_wf:
  assumes "membership_wf m" "legal_update n (map_of (cm_members m) n) r"
  shows "membership_wf (put_member n r m)"
proof -
  have t: "table_ok (insert_member n r m)"
    using assms by (intro table_ok_insert) (auto simp: membership_wf_split legal_update_def)
  have cur: "ring_current m" using assms(1) by (simp add: membership_wf_split)
  have same: "(n \<in> healthy_nodes m) = (ni_state (mr_info r) = Healthy) \<longrightarrow>
      ring_current (insert_member n r m)"
    using cur by (auto simp: ring_current_def healthy_insert insert_absorb)
  show ?thesis
  proof (cases "map_of (cm_members m) n")
    case None
    then have "n \<notin> healthy_nodes m" by (simp add: healthy_nodes_def member_node_state_def)
    then show ?thesis
      using None t same by (auto simp: put_member_def intro!: emit_rebalance_wf)
  next
    case (Some r0)
    then have "n \<in> healthy_nodes m \<longleftrightarrow> ni_state (mr_info r0) = Healthy"
      by (simp add: healthy_nodes_def member_node_state_def)
    then show ?thesis
      using Some t same assms(2)
      by (auto simp: put_member_def emit_state_events_def Let_def legal_update_def
          membership_wf_split [of "insert_member n r m"] intro!: emit_rebalance_wf)
  qed
qed

lemma member_step_wf: "member_step m m' \<Longrightarrow> membership_wf m \<Longrightarrow> membership_wf m'"
proof (induction rule: member_step.induct)
  case (schema m v)
  then show ?case
    by (simp add: membership_wf_def ids_ok_def) (simp add: set_schema_version_def)
qed (rule put_member_wf)

lemma membership_wf_ids: "membership_wf m \<Longrightarrow> ids_ok m"
  by (simp add: membership_wf_def)

section \<open>Runs of the operations\<close>

text \<open>All that can happen to a membership table.\<close>

inductive member_reach :: "cluster_membership \<Rightarrow> cluster_membership \<Rightarrow> bool" where
  start: "member_reach m m"
| upsert: "member_reach m a \<Longrightarrow> upsert_local_member info t a = Ok b \<Longrightarrow> member_reach m b"
| transition: "member_reach m a \<Longrightarrow> transition_state n to t a = Ok b \<Longrightarrow> member_reach m b"
| merge: "member_reach m a \<Longrightarrow> merge_remote_digests ds a = (b, c) \<Longrightarrow> member_reach m b"
| schema: "member_reach m a \<Longrightarrow> member_reach m (set_schema_version v a)"

lemma merge_steps:
  "membership_wf m \<Longrightarrow> fold merge_digest ds (m, c) = (m', c') \<Longrightarrow> member_step\<^sup>*\<^sup>* m m' \<and> membership_wf m'"
proof (induction ds arbitrary: m c)
  case (Cons d ds)
  show ?case
  proof (cases rule: merge_digest_cases
      [OF membership_wf_ids [OF Cons.prems(1)], where d = d and c = c, case_names 1 2])
    case 1
    then show ?thesis using Cons by simp
  next
    case (2 r)
    have s: "member_step m (put_member (md_id d) r m)" using 2(2) by (rule member_step.put)
    have "member_step\<^sup>*\<^sup>* (put_member (md_id d) r m) m' \<and> membership_wf m'"
      using Cons.IH [OF member_step_wf [OF s Cons.prems(1)]] Cons.prems(2) 2(1) by simp
    then show ?thesis using s by (meson converse_rtranclp_into_rtranclp)
  qed
qed simp

lemma steps_snoc: "member_step\<^sup>*\<^sup>* m a \<and> membership_wf a \<Longrightarrow> member_step a b \<Longrightarrow>
    member_step\<^sup>*\<^sup>* m b \<and> membership_wf b"
  by (auto intro: rtranclp.rtrancl_into_rtrancl member_step_wf)

lemma member_reach_steps:
  "member_reach m m' \<Longrightarrow> membership_wf m \<Longrightarrow> member_step\<^sup>*\<^sup>* m m' \<and> membership_wf m'"
proof (induction rule: member_reach.induct)
  case (upsert m a info t b)
  then show ?case using steps_snoc upsert_step by blast
next
  case (transition m a n to t b)
  then have "member_step a b" using transition_step membership_wf_ids by blast
  then show ?case using steps_snoc transition by blast
next
  case (merge m a ds b c)
  then have "member_step\<^sup>*\<^sup>* a b" "membership_wf b"
    using merge_steps [of a ds False b c] by (auto simp: merge_remote_digests_def)
  then show ?case using merge by auto
next
  case (schema m a v)
  then show ?case using steps_snoc member_step.schema by blast
qed simp

lemma membership_new_wf: "membership_wf (membership_new info t)"
proof -
  let ?m = "\<lparr>cm_local_node = ni_id info, cm_ring = ring_new,
      cm_members = [(ni_id info, \<lparr>mr_info = info, mr_generation = 0, mr_updated_at = t\<rparr>)],
      cm_events = [], cm_schema_version = 0\<rparr>"
  have "table_ok ?m" by (auto simp: table_ok_def ids_ok_def)
  then show ?thesis using rebuild_current [of ?m] by (simp add: membership_new_def membership_wf_split)
qed

section \<open>Versions only grow\<close>

definition lifecycle :: "(node_state \<times> node_state) set" where
  "lifecycle = {(a, b). can_transition_to a b}\<^sup>*"

lemma member_step_progress:
  assumes "member_step m m'" "map_of (cm_members m) n = Some r"
  shows "\<exists>r'. map_of (cm_members m') n = Some r' \<and> mr_generation r \<le> mr_generation r' \<and>
    (ni_state (mr_info r), ni_state (mr_info r')) \<in> lifecycle"
  using assms by (cases rule: member_step.cases)
    (auto simp: put_member_lookup legal_update_def lifecycle_def)

lemma member_steps_progress:
  assumes "member_step\<^sup>*\<^sup>* m m'" "map_of (cm_members m) n = Some r"
  shows "\<exists>r'. map_of (cm_members m') n = Some r' \<and> mr_generation r \<le> mr_generation r' \<and>
    (ni_state (mr_info r), ni_state (mr_info r')) \<in> lifecycle"
  using assms
proof (induction rule: rtranclp_induct)
  case base
  then show ?case by (simp add: lifecycle_def)
next
  case (step a b)
  then obtain q where q: "map_of (cm_members a) n = Some q" "mr_generation r \<le> mr_generation q"
    "(ni_state (mr_info r), ni_state (mr_info q)) \<in> lifecycle" by blast
  then show ?case
    using member_step_progress [OF step.hyps(2) q(1)] unfolding lifecycle_def
    by (meson order_trans rtrancl_trans)
qed

lemma digest_newer_version:
  "digest_newer d r \<longleftrightarrow> version_of r < (md_generation d, md_updated_at d)"
  by (auto simp: digest_newer_def version_of_def less_prod_def')

lemma merge_versions:
  assumes "membership_wf m" "fold merge_digest ds (m, c) = (m', c')"
    and "map_of (cm_members m) n = Some r"
  shows "\<exists>r'. map_of (cm_members m') n = Some r' \<and> version_of r \<le> version_of r'"
  using assms
proof (induction ds arbitrary: m c r)
  case (Cons d ds)
  show ?case
  proof (cases rule: merge_digest_cases
      [OF membership_wf_ids [OF Cons.prems(1)], where d = d and c = c, case_names 1 2])
    case 1
    then show ?thesis using Cons by simp
  next
    case (2 q)
    let ?m = "put_member (md_id d) q m"
    have "membership_wf ?m" using put_member_wf [OF Cons.prems(1) 2(2)] .
    moreover obtain r1 where r1: "map_of (cm_members ?m) n = Some r1" "version_of r \<le> version_of r1"
      using 2(3,5) Cons.prems(3) by (cases "n = md_id d") (auto simp: put_member_lookup digest_newer_version)
    ultimately show ?thesis
      using Cons.IH [of ?m True r1] Cons.prems(2) 2(1) by (auto intro: order_trans)
  qed
qed simp

lemma merge_flag:
  assumes "membership_wf m" "fold merge_digest ds (m, c) = (m', c')"
  shows "c' \<longleftrightarrow> c \<or> m' \<noteq> m"
  using assms
proof (induction ds arbitrary: m c)
  case (Cons d ds)
  show ?case
  proof (cases rule: merge_digest_cases
      [OF membership_wf_ids [OF Cons.prems(1)], where d = d and c = c, case_names 1 2])
    case 1
    then show ?thesis using Cons by simp
  next
    case (2 q)
    let ?m = "put_member (md_id d) q m"
    have wf: "membership_wf ?m" using put_member_wf [OF Cons.prems(1) 2(2)] .
    have rest: "fold merge_digest ds (?m, True) = (m', c')" using Cons.prems(2) 2(1) by simp
    have "c'" using Cons.IH [OF wf rest] by simp
    moreover obtain r' where r': "map_of (cm_members m') (md_id d) = Some r'" "version_of q \<le> version_of r'"
      using merge_versions [OF wf rest, of "md_id d" q] by (auto simp: put_member_lookup)
    have "m' \<noteq> m"
    proof
      assume "m' = m"
      then have "version_of r' < version_of q" using 2(3,5) r'(1) by (simp add: digest_newer_version)
      then show False using r'(2) by simp
    qed
    ultimately show ?thesis by simp
  qed
qed simp

text \<open>Merging the same digests again changes nothing.\<close>

definition digest_ignored :: "member_digest \<Rightarrow> member_record option \<Rightarrow> bool" where
  "digest_ignored d old \<longleftrightarrow> (case old of
      Some r0 \<Rightarrow> \<not> digest_newer d r0 \<or>
        md_state d \<noteq> ni_state (mr_info r0) \<and> \<not> can_transition_to (ni_state (mr_info r0)) (md_state d)
    | None \<Rightarrow> md_state d \<noteq> Joining \<and> md_state d \<noteq> Healthy)"

lemma merge_ignored:
  "digest_ignored d (map_of (cm_members m) (md_id d)) \<Longrightarrow> merge_digest d (m, c) = (m, c)"
  by (auto simp: digest_ignored_def merge_digest_def Let_def split: option.splits)

lemma merge_digest_frame:
  "k \<noteq> md_id d \<Longrightarrow> map_of (cm_members (fst (merge_digest d (m, c)))) k = map_of (cm_members m) k"
  by (auto simp: merge_digest_def Let_def update_conv' split: option.splits)

lemma merge_digest_settles:
  "digest_ignored d (map_of (cm_members (fst (merge_digest d (m, c)))) (md_id d))"
  by (auto simp: merge_digest_def Let_def update_conv' digest_ignored_def digest_newer_def
      split: option.splits)

lemma merge_fold_frame:
  "k \<notin> md_id ` set ds \<Longrightarrow>
    map_of (cm_members (fst (fold merge_digest ds (m, c)))) k = map_of (cm_members m) k"
proof (induction ds arbitrary: m c)
  case (Cons d ds)
  obtain m1 c1 where m1: "merge_digest d (m, c) = (m1, c1)" by fastforce
  then show ?case using Cons merge_digest_frame [of k d m c] by simp
qed simp

lemma merge_settles:
  "distinct (map md_id ds) \<Longrightarrow> d \<in> set ds \<Longrightarrow>
    digest_ignored d (map_of (cm_members (fst (fold merge_digest ds (m, c)))) (md_id d))"
proof (induction ds arbitrary: m c)
  case (Cons a ds)
  obtain m1 c1 where m1: "merge_digest a (m, c) = (m1, c1)" by fastforce
  show ?case
  proof (cases "d = a")
    case True
    then show ?thesis
      using Cons.prems(1) m1 merge_fold_frame [of "md_id a" ds m1 c1] merge_digest_settles [of a m c]
      by simp
  next
    case False
    then show ?thesis using Cons m1 by simp
  qed
qed simp

lemma merge_all_ignored:
  "\<forall>d \<in> set ds. digest_ignored d (map_of (cm_members m) (md_id d)) \<Longrightarrow>
    fold merge_digest ds (m, c) = (m, c)"
  by (induction ds) (auto simp: merge_ignored)

section \<open>Properties\<close>

text \<open>
  C10: in every state a membership table can reach, from any first node and by any
  sequence of local updates, transitions and gossip merges, the local node is a
  member, every announced state change is a legal one, the ring holds exactly the
  positions of the nodes that are \<open>Healthy\<close>, and so every owner of every key is
  \<open>Healthy\<close>.
\<close>

theorem membership_invariant:
  assumes "member_reach (membership_new info t) m"
  shows "membership_wf m \<and> cm_local_node m = ni_id info \<and>
    (\<forall>x \<in> set (member_owners_for_key m key n). member_node_state m x = Some Healthy)"
proof -
  have steps: "member_step\<^sup>*\<^sup>* (membership_new info t) m" and wf: "membership_wf m"
    using member_reach_steps [OF assms membership_new_wf] by auto
  from steps have "cm_local_node m = cm_local_node (membership_new info t)"
    by (induction rule: rtranclp_induct) (auto elim!: member_stepE)
  then have l: "cm_local_node m = ni_id info" by (simp add: membership_new_def)
  have "set (ring_all_nodes (cm_ring m)) \<subseteq> healthy_nodes m"
    using wf by (auto simp: membership_wf_def ring_ok_def ring_all_nodes_def)
  moreover have "set (member_owners_for_key m key n) \<subseteq> set (ring_all_nodes (cm_ring m))"
    using set_take_subset [of "max 1 n" "firsts (clockwise (cm_ring m) (hash_key key))"]
    by (simp add: member_owners_for_key_def owners_for_key_eq set_clockwise)
  ultimately show ?thesis using wf l by (auto simp: healthy_nodes_def)
qed

definition demo_info :: "node_state \<Rightarrow> node_id \<Rightarrow> node_info" where
  "demo_info s n = \<lparr>ni_id = n, ni_address = unknown_node_address,
     ni_gossip_address = unknown_node_address, ni_state = s, ni_vnodes = []\<rparr>"

theorem membership_invariant_witness:
  "\<exists>m. transition_state (NodeId 1) Bootstrapping hlc_zero
      (membership_new (demo_info Joining (NodeId 1)) hlc_zero) = Ok m \<and> membership_wf m \<and>
    cm_local_node m = NodeId 1"
proof -
  let ?m0 = "membership_new (demo_info Joining (NodeId 1)) hlc_zero"
  obtain m where m: "transition_state (NodeId 1) Bootstrapping hlc_zero ?m0 = Ok m"
    by (auto simp: membership_new_def demo_info_def transition_state_def can_transition_to_def Let_def)
  then have "member_reach ?m0 m" by (auto intro: member_reach.intros)
  from membership_invariant [OF this] m show ?thesis by (auto simp: demo_info_def)
qed

text \<open>
  A node, once known, stays known, its generation never decreases, and its
  state only moves along the lifecycle graph, over any sequence of local updates,
  transitions and gossip merges.
\<close>

theorem lifecycle_respected:
  assumes "member_reach m m'" "membership_wf m" "map_of (cm_members m) n = Some r"
  shows "\<exists>r'. map_of (cm_members m') n = Some r' \<and> mr_generation r \<le> mr_generation r' \<and>
    (ni_state (mr_info r), ni_state (mr_info r')) \<in> {(a, b). can_transition_to a b}\<^sup>*"
  using member_steps_progress [of m m' n r] member_reach_steps [OF assms(1,2)] assms(3)
  by (simp add: lifecycle_def)

theorem lifecycle_respected_witness:
  "\<exists>r'. map_of (cm_members (fst (merge_remote_digests
      [\<lparr>md_id = NodeId 1, md_state = Down, md_generation = 4, md_updated_at = Hlc 9\<rparr>]
      (membership_new (demo_info Joining (NodeId 1)) hlc_zero)))) (NodeId 1) = Some r' \<and>
    (Joining, ni_state (mr_info r')) \<in> {(a, b). can_transition_to a b}\<^sup>*"
proof -
  let ?m = "membership_new (demo_info Joining (NodeId 1)) hlc_zero"
  let ?ds = "[\<lparr>md_id = NodeId 1, md_state = Down, md_generation = 4, md_updated_at = Hlc 9\<rparr>]"
  have "member_reach ?m (fst (merge_remote_digests ?ds ?m))"
    by (rule member_reach.merge [OF member_reach.start]) (rule surjective_pairing)
  moreover have "map_of (cm_members ?m) (NodeId 1) =
      Some \<lparr>mr_info = demo_info Joining (NodeId 1), mr_generation = 0, mr_updated_at = hlc_zero\<rparr>"
    by (simp add: membership_new_def demo_info_def)
  ultimately show ?thesis
    using lifecycle_respected [OF _ membership_new_wf] by (fastforce simp: demo_info_def)
qed

text \<open>
  Merging gossip digests reports a change exactly when the table changed, and
  merging the same digests a second time changes nothing.
\<close>

theorem merge_remote_digests_idempotent:
  assumes "membership_wf m" "distinct (map md_id ds)" "merge_remote_digests ds m = (m', changed)"
  shows "(changed \<longleftrightarrow> m' \<noteq> m) \<and> merge_remote_digests ds m' = (m', False)"
proof -
  have "fst (fold merge_digest ds (m, False)) = m'"
    using assms(3) by (simp add: merge_remote_digests_def)
  then have "\<forall>d \<in> set ds. digest_ignored d (map_of (cm_members m') (md_id d))"
    using merge_settles [OF assms(2), of _ m False] by blast
  then show ?thesis
    using merge_flag [OF assms(1), of ds False m' changed] assms(3) merge_all_ignored [of ds m' False]
    by (simp add: merge_remote_digests_def)
qed

theorem merge_remote_digests_idempotent_witness:
  "snd (merge_remote_digests
      [\<lparr>md_id = NodeId 1, md_state = Down, md_generation = 4, md_updated_at = Hlc 9\<rparr>]
      (fst (merge_remote_digests
        [\<lparr>md_id = NodeId 1, md_state = Down, md_generation = 4, md_updated_at = Hlc 9\<rparr>]
        (membership_new (demo_info Joining (NodeId 1)) hlc_zero)))) = False"
proof -
  let ?ds = "[\<lparr>md_id = NodeId 1, md_state = Down, md_generation = 4, md_updated_at = Hlc 9\<rparr>]"
  show ?thesis
    using merge_remote_digests_idempotent
      [OF membership_new_wf [of "demo_info Joining (NodeId 1)" hlc_zero], of ?ds, OF _ surjective_pairing]
    by simp
qed

text \<open>
  A digest that is newer but not one legal step away is dropped, however new it is:
  a node that missed the steps in between never catches up from gossip.
\<close>

lemma newer_digest_dropped:
  assumes "map_of (cm_members m) n = Some r" "ni_state (mr_info r) = Healthy"
  shows "merge_remote_digests
    [\<lparr>md_id = n, md_state = Rebuilding, md_generation = g, md_updated_at = t\<rparr>] m = (m, False)"
  using assms by (simp add: merge_remote_digests_def merge_digest_def Let_def can_transition_to_def)

end
