(* ===== verification/Replica.thy ===== *)
theory Replica
  imports Storage Vector_Clock Doc_Value Text
begin

text \<open>
  The replica of \<open>crates/bashfuldb-replication/src\<close>: the versioned documents and
  requests of \<open>lib.rs\<close> and \<open>transport.rs\<close>, and \<open>ReplicaStore\<close> (\<open>replica.rs\<close>) with
  its hinted handoff.  An operation of a replica is an effectful operation over the
  storage engine it was given.

  The uuid and serde\_json crates are the record \<open>rep_ext\<close>, an argument of what
  calls them: printing and parsing a uuid, and writing and reading the JSON of a
  versioned document, of a hint and of a document.
\<close>

section \<open>Types\<close>

record object_key =
  ok_collection :: string
  ok_object_id :: object_id

record quorum_config =
  qc_n :: nat
  qc_r :: nat
  qc_w :: nat

definition quorum_config_default :: quorum_config where
  "quorum_config_default = \<lparr>qc_n = 3, qc_r = 2, qc_w = 2\<rparr>"

record versioned_doc =
  vd_document :: "document option"
  vd_version :: vector_clock
  vd_hlc :: hlc
  vd_is_tombstone :: bool

definition versioned_new :: "document \<Rightarrow> vector_clock \<Rightarrow> hlc \<Rightarrow> versioned_doc" where
  "versioned_new d v h =
    \<lparr>vd_document = Some d, vd_version = v, vd_hlc = h, vd_is_tombstone = False\<rparr>"

definition tombstone :: "vector_clock \<Rightarrow> hlc \<Rightarrow> versioned_doc" where
  "tombstone v h = \<lparr>vd_document = None, vd_version = v, vd_hlc = h, vd_is_tombstone = True\<rparr>"

record read_result =
  rr_document :: "document option"
  rr_version :: vector_clock
  rr_repairs_triggered :: nat

record write_result =
  wres_version :: vector_clock
  wres_nodes_acked :: nat
  wres_hints_stored :: nat

record write_request =
  wr_key :: object_key
  wr_doc :: "document option"
  wr_version :: vector_clock
  wr_hlc :: hlc
  wr_is_hint :: bool
  wr_hint_target :: "node_id option"

record write_response =
  wresp_version :: vector_clock

record read_request =
  rreq_key :: object_key

record read_response =
  rresp_doc :: "versioned_doc option"

record hint_value =
  hv_key :: object_key
  hv_versioned :: versioned_doc

type_synonym serde_error = string

datatype replication_error =
    InsufficientReplicas (needed: nat) (available: nat)
  | IdempotencyConflict
  | TransportError string
  | Serialization serde_error
  | ReplStorage storage_error
  | ReplClock clock_error
  | ReplDocument document_error
  | ReplVectorClock clock_error

record rep_ext =
  uuid_show :: "u128 \<Rightarrow> string"
  uuid_parse :: "string \<Rightarrow> u128 option"
  ser_versioned :: "versioned_doc \<Rightarrow> (serde_error, bytes) result"
  de_versioned :: "bytes \<Rightarrow> (serde_error, versioned_doc) result"
  ser_hint :: "hint_value \<Rightarrow> (serde_error, bytes) result"
  de_hint :: "bytes \<Rightarrow> (serde_error, hint_value) result"
  ser_document :: "document \<Rightarrow> (serde_error, bytes) result"

text \<open>The trait \<open>ReplicationTransport\<close>, over the state of everything it reaches.\<close>

record 'w transport =
  t_write :: "node_id \<Rightarrow> write_request \<Rightarrow> ('w, replication_error, write_response) act"
  t_read :: "node_id \<Rightarrow> read_request \<Rightarrow> ('w, replication_error, read_response) act"

section \<open>Keys\<close>

definition show_node :: "rep_ext \<Rightarrow> node_id \<Rightarrow> string" where
  "show_node X n = uuid_show X (as_uuid n)"

definition show_oid :: "rep_ext \<Rightarrow> object_id \<Rightarrow> string" where
  "show_oid X i = uuid_show X (oid_uuid i)"

definition object_key_bytes :: "rep_ext \<Rightarrow> object_key \<Rightarrow> bytes" where
  "object_key_bytes X k = as_bytes (ok_collection k @ ''/'' @ show_oid X (ok_object_id k))"

definition make_hint_key :: "rep_ext \<Rightarrow> node_id \<Rightarrow> hlc \<Rightarrow> object_id \<Rightarrow> bytes" where
  "make_hint_key X target h i =
    as_bytes (show_node X target @ ''/'' @ show_nat (unat (to_u64 h)) @ ''/'' @ show_oid X i)"

section \<open>Requests to a replica\<close>

definition store_hint ::
  "rep_ext \<Rightarrow> 's engine \<Rightarrow> node_id \<Rightarrow> write_request \<Rightarrow> ('s, replication_error, unit) act" where
  "store_hint X E target req =
    (let hint_key = make_hint_key X target (wr_hlc req) (ok_object_id (wr_key req));
         hint_value = \<lparr>hv_key = wr_key req, hv_versioned =
           \<lparr>vd_document = wr_doc req, vd_version = wr_version req, vd_hlc = wr_hlc req,
            vd_is_tombstone = (wr_doc req = None)\<rparr>\<rparr>
     in act_bind (act_map_err Serialization (act_of_result (ser_hint X hint_value))) (\<lambda>bs.
        act_map_err ReplStorage (e_put E CF_HINTS hint_key bs)))"

definition handle_write ::
  "rep_ext \<Rightarrow> 's engine \<Rightarrow> write_request \<Rightarrow> ('s, replication_error, write_response) act" where
  "handle_write X E req =
    (if wr_is_hint req then
       act_bind (act_of_result (case wr_hint_target req of
           None \<Rightarrow> Err (TransportError ''hint write missing hint_target'') | Some t \<Rightarrow> Ok t)) (\<lambda>target.
       act_bind (store_hint X E target req) (\<lambda>_.
       act_ok \<lparr>wresp_version = wr_version req\<rparr>))
     else
       let key = object_key_bytes X (wr_key req);
           versioned = \<lparr>vd_document = wr_doc req, vd_version = wr_version req,
             vd_hlc = wr_hlc req, vd_is_tombstone = False\<rparr>
       in act_bind (act_map_err Serialization (act_of_result (ser_versioned X versioned))) (\<lambda>val.
          act_bind (act_map_err ReplStorage (e_put E CF_DEFAULT key val)) (\<lambda>_.
          act_ok \<lparr>wresp_version = wr_version req\<rparr>)))"

definition handle_delete ::
  "rep_ext \<Rightarrow> 's engine \<Rightarrow> write_request \<Rightarrow> ('s, replication_error, write_response) act" where
  "handle_delete X E req =
    (if wr_is_hint req then
       act_bind (act_of_result (case wr_hint_target req of
           None \<Rightarrow> Err (TransportError ''hint delete missing hint_target'') | Some t \<Rightarrow> Ok t)) (\<lambda>target.
       act_bind (store_hint X E target req) (\<lambda>_.
       act_ok \<lparr>wresp_version = wr_version req\<rparr>))
     else
       let key = object_key_bytes X (wr_key req);
           versioned = tombstone (wr_version req) (wr_hlc req)
       in act_bind (act_map_err Serialization (act_of_result (ser_versioned X versioned))) (\<lambda>val.
          act_bind (act_map_err ReplStorage (e_put E CF_DEFAULT key val)) (\<lambda>_.
          act_ok \<lparr>wresp_version = wr_version req\<rparr>)))"

definition handle_read ::
  "rep_ext \<Rightarrow> 's engine \<Rightarrow> read_request \<Rightarrow> ('s, replication_error, read_response) act" where
  "handle_read X E req =
    (let key = object_key_bytes X (rreq_key req)
     in act_bind (act_map_err ReplStorage (e_get E CF_DEFAULT key)) (\<lambda>raw.
        case raw of
          None \<Rightarrow> act_ok \<lparr>rresp_doc = None\<rparr>
        | Some bs \<Rightarrow>
            act_bind (act_map_err Serialization (act_of_result (de_versioned X bs))) (\<lambda>d.
            act_ok \<lparr>rresp_doc = Some d\<rparr>)))"

section \<open>Delivery of hints\<close>

definition HINT_TTL_MS :: u64 where
  "HINT_TTL_MS = 24 * 3600 * 1000"

definition hint_request :: "hint_value \<Rightarrow> write_request" where
  "hint_request hint =
    \<lparr>wr_key = hv_key hint, wr_doc = vd_document (hv_versioned hint),
     wr_version = vd_version (hv_versioned hint), wr_hlc = vd_hlc (hv_versioned hint),
     wr_is_hint = False, wr_hint_target = None\<rparr>"

text \<open>
  One turn of the loop, \<open>True\<close> when the hint was delivered.  The storage is the
  one of the delivering node, inside the state the transport works on.
\<close>

definition deliver_hint ::
  "rep_ext \<Rightarrow> 'w engine \<Rightarrow> 'w transport \<Rightarrow> u64 \<Rightarrow> bytes \<times> bytes \<Rightarrow> ('w, replication_error, bool) act" where
  "deliver_hint X E T now_ms = (\<lambda>(raw_key, raw_val).
    let remove = (\<lambda>done. act_bind (act_map_err ReplStorage (e_delete E CF_HINTS raw_key)) (\<lambda>_. act_ok done))
    in case splitn 3 (CHR ''/'') (from_utf8_lossy raw_key) of
        [p0, p1, p2] \<Rightarrow>
          (case uuid_parse X p0 of
             None \<Rightarrow> remove False
           | Some target_node \<Rightarrow>
               (case parse_u64 p1 of
                  None \<Rightarrow> remove False
                | Some hlc_u64 \<Rightarrow>
                    if HINT_TTL_MS < saturating_sub now_ms (physical_ms (hlc_from_u64 hlc_u64))
                    then remove False
                    else (case de_hint X raw_val of
                        Err _ \<Rightarrow> remove False
                      | Ok hint \<Rightarrow>
                          act_bind (act_try (t_write T (NodeId target_node) (hint_request hint))) (\<lambda>r.
                          case r of Ok _ \<Rightarrow> remove True | Err _ \<Rightarrow> act_ok False))))
      | _ \<Rightarrow> remove False)"

primrec deliver_loop ::
  "rep_ext \<Rightarrow> 'w engine \<Rightarrow> 'w transport \<Rightarrow> u64 \<Rightarrow> scan_iter \<Rightarrow> nat \<Rightarrow> ('w, replication_error, nat) act" where
  "deliver_loop X E T now_ms [] delivered = act_ok delivered"
| "deliver_loop X E T now_ms (item # iter) delivered =
    act_bind (act_map_err ReplStorage (act_of_result item)) (\<lambda>kv.
    act_bind (deliver_hint X E T now_ms kv) (\<lambda>sent.
    deliver_loop X E T now_ms iter (if sent then delivered + 1 else delivered)))"

definition deliver_pending_hints ::
  "rep_ext \<Rightarrow> 'w engine \<Rightarrow> 'w transport \<Rightarrow> u64 \<Rightarrow> ('w, replication_error, nat) act" where
  "deliver_pending_hints X E T now_ms =
    act_bind (act_map_err ReplStorage (e_scan E CF_HINTS [] [])) (\<lambda>iter.
    deliver_loop X E T now_ms iter 0)"

definition hint_run_once ::
  "rep_ext \<Rightarrow> 'w engine \<Rightarrow> 'w transport \<Rightarrow> u64 \<Rightarrow> ('w, replication_error, nat) act" where
  "hint_run_once X E T now_ms = deliver_pending_hints X E T now_ms"

section \<open>Anti-entropy\<close>

text \<open>
  The skeleton of \<open>anti_entropy.rs\<close>.  The standard library's \<open>DefaultHasher\<close> is an
  argument: its fresh state, feeding it a byte vector, and its result.
\<close>

primrec hash_rows :: "('h \<Rightarrow> bytes \<Rightarrow> 'h) \<Rightarrow> scan_iter \<Rightarrow> 'h \<Rightarrow> (storage_error, 'h) result" where
  "hash_rows feed [] h = Ok h"
| "hash_rows feed (item # iter) h =
    (case item of Err e \<Rightarrow> Err e | Ok (key, val) \<Rightarrow> hash_rows feed iter (feed (feed h key) val))"

definition range_hash ::
  "'h \<Rightarrow> ('h \<Rightarrow> bytes \<Rightarrow> 'h) \<Rightarrow> ('h \<Rightarrow> u64) \<Rightarrow> 's engine \<Rightarrow> bytes \<Rightarrow> bytes \<Rightarrow>
    ('s, replication_error, u64) act" where
  "range_hash h0 feed finish E start end =
    act_bind (act_map_err ReplStorage (e_scan E CF_DEFAULT start end)) (\<lambda>iter.
    act_bind (act_map_err ReplStorage (act_of_result (hash_rows feed iter h0))) (\<lambda>h.
    act_ok (finish h)))"

definition run_comparison_round ::
  "'h \<Rightarrow> ('h \<Rightarrow> bytes \<Rightarrow> 'h) \<Rightarrow> ('h \<Rightarrow> u64) \<Rightarrow> 's engine \<Rightarrow> node_id list \<Rightarrow> node_id \<Rightarrow>
    ('s, replication_error, nat) act" where
  "run_comparison_round h0 feed finish E all_nodes local_node =
    (let peers = filter (\<lambda>n. n \<noteq> local_node) all_nodes
     in if peers = [] then act_ok 0
        else act_bind (range_hash h0 feed finish E [] []) (\<lambda>_. act_ok 0))"

end
