(* ===== verification/Network.thy ===== *)
theory Network
  imports Replica Ring
begin

text \<open>
  The simulated replication network of \<open>replication/src/simulated.rs\<close>, the
  \<open>NullTransport\<close> of \<open>transport.rs\<close>, and the contract of a replication transport.
  The network is a record of the registered replica stores with the state of their
  storage engines, the partitioned links and the nodes that are down.  The mutex of
  the network recovers from poisoning (\<open>into_inner\<close>), so it adds no failure.

  The locale \<open>replica_transport\<close> says what a coordinator relies on: an acknowledged
  write is what the target shows next, nothing else changes, and a read shows what
  the target holds.  It is interpreted on the simulated transport over any storage
  engine that meets its contract, the in-memory engine among them.
\<close>

section \<open>The network\<close>

record 's replica_store =
  rs_node_id :: node_id
  rs_storage :: 's

record 's network =
  nw_nodes :: "node_id \<Rightarrow> 's replica_store option"
  nw_partitions :: "(node_id \<times> node_id) set"
  nw_down :: "node_id set"

definition network_new :: "'s network" where
  "network_new = \<lparr>nw_nodes = Map.empty, nw_partitions = {}, nw_down = {}\<rparr>"

definition register_node :: "'s replica_store \<Rightarrow> 's network \<Rightarrow> 's network" where
  "register_node store N = N\<lparr>nw_nodes := (nw_nodes N)(rs_node_id store \<mapsto> store)\<rparr>"

definition partition_nodes :: "node_id \<Rightarrow> node_id \<Rightarrow> 's network \<Rightarrow> 's network" where
  "partition_nodes a b N =
    N\<lparr>nw_partitions := insert (b, a) (insert (a, b) (nw_partitions N))\<rparr>"

definition heal_partition :: "node_id \<Rightarrow> node_id \<Rightarrow> 's network \<Rightarrow> 's network" where
  "heal_partition a b N = N\<lparr>nw_partitions := nw_partitions N - {(a, b)} - {(b, a)}\<rparr>"

definition set_node_down :: "node_id \<Rightarrow> 's network \<Rightarrow> 's network" where
  "set_node_down n N = N\<lparr>nw_down := insert n (nw_down N)\<rparr>"

definition set_node_up :: "node_id \<Rightarrow> 's network \<Rightarrow> 's network" where
  "set_node_up n N = N\<lparr>nw_down := nw_down N - {n}\<rparr>"

definition resolve_target ::
  "rep_ext \<Rightarrow> 's network \<Rightarrow> node_id \<Rightarrow> node_id \<Rightarrow> (replication_error, 's replica_store) result" where
  "resolve_target X N from target =
    (if target \<in> nw_down N then Err (TransportError (show_node X target @ '' is down''))
     else if (from, target) \<in> nw_partitions N
     then Err (TransportError (show_node X from @ '' is partitioned from '' @ show_node X target))
     else case nw_nodes N target of
         Some store \<Rightarrow> Ok store
       | None \<Rightarrow> Err (TransportError (''unknown node '' @ show_node X target)))"

text \<open>Running an operation of a store the network handed out.\<close>

definition on_store ::
  "'s replica_store \<Rightarrow> ('s, 'e, 'a) act \<Rightarrow> ('s network, 'e, 'a) act" where
  "on_store store m = (\<lambda>N.
    case m (rs_storage store) of (r, s') \<Rightarrow>
      (r, N\<lparr>nw_nodes := (nw_nodes N)(rs_node_id store \<mapsto> store\<lparr>rs_storage := s'\<rparr>)\<rparr>))"

definition sim_write ::
  "rep_ext \<Rightarrow> 's engine \<Rightarrow> node_id \<Rightarrow> node_id \<Rightarrow> write_request \<Rightarrow>
    ('s network, replication_error, write_response) act" where
  "sim_write X E from target req = (\<lambda>N.
    case resolve_target X N from target of
      Err e \<Rightarrow> (Some (Err e), N)
    | Ok store \<Rightarrow>
        if wr_doc req = None \<and> \<not> wr_is_hint req
        then on_store store (handle_delete X E req) N
        else on_store store (handle_write X E req) N)"

definition sim_read ::
  "rep_ext \<Rightarrow> 's engine \<Rightarrow> node_id \<Rightarrow> node_id \<Rightarrow> read_request \<Rightarrow>
    ('s network, replication_error, read_response) act" where
  "sim_read X E from target req = (\<lambda>N.
    case resolve_target X N from target of
      Err e \<Rightarrow> (Some (Err e), N)
    | Ok store \<Rightarrow> on_store store (handle_read X E req) N)"

definition transport_for :: "rep_ext \<Rightarrow> 's engine \<Rightarrow> node_id \<Rightarrow> 's network transport" where
  "transport_for X E from = \<lparr>t_write = sim_write X E from, t_read = sim_read X E from\<rparr>"

definition null_transport :: "rep_ext \<Rightarrow> 'w transport" where
  "null_transport X =
    \<lparr>t_write = (\<lambda>target _. act_err (TransportError (''NullTransport: no route to '' @ show_node X target))),
     t_read = (\<lambda>target _. act_err (TransportError (''NullTransport: no route to '' @ show_node X target)))\<rparr>"

text \<open>The storage engine of one registered node, as an engine over the whole network.\<close>

definition at_node :: "node_id \<Rightarrow> ('s, 'e, 'a) act \<Rightarrow> ('s network, 'e, 'a) act" where
  "at_node n m = (\<lambda>N. case nw_nodes N n of None \<Rightarrow> (None, N) | Some store \<Rightarrow> on_store store m N)"

definition node_engine :: "'s engine \<Rightarrow> node_id \<Rightarrow> 's network engine" where
  "node_engine E n =
    \<lparr>e_put = (\<lambda>cf k v. at_node n (e_put E cf k v)), e_get = (\<lambda>cf k. at_node n (e_get E cf k)),
     e_delete = (\<lambda>cf k. at_node n (e_delete E cf k)), e_scan = (\<lambda>cf a b. at_node n (e_scan E cf a b)),
     e_write_batch = (\<lambda>b. at_node n (e_write_batch E b)), e_snapshot = at_node n (e_snapshot E),
     e_has_cf = e_has_cf E\<rparr>"

section \<open>Membership as the coordinator sees it\<close>

record membership_view =
  mv_local_node :: node_id
  mv_owners_for_key :: "bytes \<Rightarrow> nat \<Rightarrow> node_id list"
  mv_all_nodes :: "node_id list"

definition simple_membership :: "node_id \<Rightarrow> ring \<Rightarrow> node_id list \<Rightarrow> membership_view" where
  "simple_membership local_node ring all_nodes =
    \<lparr>mv_local_node = local_node, mv_owners_for_key = (\<lambda>key n. owners_for_key ring key n),
     mv_all_nodes = all_nodes\<rparr>"

section \<open>The contract of a transport\<close>

text \<open>What a replica stores for a request that is not a hint.\<close>

definition request_doc :: "write_request \<Rightarrow> versioned_doc" where
  "request_doc req =
    \<lparr>vd_document = wr_doc req, vd_version = wr_version req, vd_hlc = wr_hlc req,
     vd_is_tombstone = (wr_doc req = None)\<rparr>"

text \<open>The hint a fallback node keeps for a request.\<close>

definition hint_of :: "write_request \<Rightarrow> hint_value" where
  "hint_of req = \<lparr>hv_key = wr_key req, hv_versioned = request_doc req\<rparr>"

text \<open>The JSON round trip of one versioned document.\<close>

definition storable :: "rep_ext \<Rightarrow> versioned_doc \<Rightarrow> bool" where
  "storable X d \<longleftrightarrow> (\<exists>bs. ser_versioned X d = Ok bs \<and> de_versioned X bs = Ok d)"

locale replica_transport =
  fixes X :: rep_ext and T :: "'w transport" and inv :: "'w \<Rightarrow> bool"
    and peek :: "'w \<Rightarrow> node_id \<Rightarrow> bytes \<Rightarrow> versioned_doc option"
    and hints :: "'w \<Rightarrow> node_id \<Rightarrow> bytes \<Rightarrow> bytes option"
  assumes write_returns: "inv w \<Longrightarrow> fst (t_write T n req w) \<noteq> None"
    and write_inv: "inv w \<Longrightarrow> inv (snd (t_write T n req w))"
    and write_ok: "inv w \<Longrightarrow> \<not> wr_is_hint req \<Longrightarrow> storable X (request_doc req) \<Longrightarrow>
      t_write T n req w = (Some (Ok resp), w') \<Longrightarrow>
      peek w' = (peek w)(n := (peek w n)(object_key_bytes X (wr_key req) \<mapsto> request_doc req))"
    and write_fails: "inv w \<Longrightarrow> \<not> (\<exists>resp. fst (t_write T n req w) = Some (Ok resp)) \<Longrightarrow>
      peek (snd (t_write T n req w)) = peek w"
    and write_hint: "inv w \<Longrightarrow> wr_is_hint req \<Longrightarrow> peek (snd (t_write T n req w)) = peek w"
    and hint_ok: "inv w \<Longrightarrow> wr_is_hint req \<Longrightarrow> wr_hint_target req = Some t \<Longrightarrow>
      t_write T n req w = (Some (Ok resp), w') \<Longrightarrow>
      \<exists>bs. ser_hint X (hint_of req) = Ok bs \<and>
        hints w' = (hints w)(n := (hints w n)(make_hint_key X t (wr_hlc req) (ok_object_id (wr_key req)) \<mapsto> bs))"
    and hint_unchanged: "inv w \<Longrightarrow> \<not> wr_is_hint req \<or> \<not> (\<exists>resp. fst (t_write T n req w) = Some (Ok resp)) \<Longrightarrow>
      hints (snd (t_write T n req w)) = hints w"
    and read_state: "inv w \<Longrightarrow> snd (t_read T n rq w) = w"
    and read_ok: "inv w \<Longrightarrow> fst (t_read T n rq w) = Some (Ok rsp) \<Longrightarrow>
      rresp_doc rsp = peek w n (object_key_bytes X (rreq_key rq))"


text \<open>A transport that serves every request to the nodes it can reach.\<close>

locale reachable_transport = replica_transport +
  fixes up :: "'w \<Rightarrow> node_id \<Rightarrow> bool"
  assumes up_write: "inv w \<Longrightarrow> up w n \<Longrightarrow> \<not> wr_is_hint req \<Longrightarrow> storable X (request_doc req) \<Longrightarrow>
      \<exists>resp. fst (t_write T n req w) = Some (Ok resp)"
    and up_fails: "inv w \<Longrightarrow> \<not> up w n \<Longrightarrow> \<exists>e. fst (t_write T n req w) = Some (Err e)"
    and up_stable: "inv w \<Longrightarrow> up (snd (t_write T n req w)) = up w"

section \<open>The simulated transport meets the contract\<close>

definition reachable :: "node_id \<Rightarrow> 's network \<Rightarrow> node_id \<Rightarrow> bool" where
  "reachable src N n \<longleftrightarrow> n \<notin> nw_down N \<and> (src, n) \<notin> nw_partitions N \<and> nw_nodes N n \<noteq> None"

definition net_inv :: "('s \<Rightarrow> bool) \<Rightarrow> 's network \<Rightarrow> bool" where
  "net_inv I N \<longleftrightarrow>
    (\<forall>n store. nw_nodes N n = Some store \<longrightarrow> rs_node_id store = n \<and> I (rs_storage store))"

definition de_row :: "rep_ext \<Rightarrow> bytes option \<Rightarrow> versioned_doc option" where
  "de_row X raw = (case raw of None \<Rightarrow> None | Some bs \<Rightarrow>
    (case de_versioned X bs of Ok d \<Rightarrow> Some d | Err _ \<Rightarrow> None))"

definition net_peek ::
  "rep_ext \<Rightarrow> ('s \<Rightarrow> string \<Rightarrow> kv_map) \<Rightarrow> 's network \<Rightarrow> node_id \<Rightarrow> bytes \<Rightarrow> versioned_doc option" where
  "net_peek X view N n kb =
    (case nw_nodes N n of None \<Rightarrow> None
     | Some store \<Rightarrow> de_row X (bt_get (view (rs_storage store) CF_DEFAULT) kb))"

definition hints_at :: "('s \<Rightarrow> string \<Rightarrow> kv_map) \<Rightarrow> node_id \<Rightarrow> 's network \<Rightarrow> kv_map" where
  "hints_at view n N = (case nw_nodes N n of None \<Rightarrow> [] | Some store \<Rightarrow> view (rs_storage store) CF_HINTS)"

definition net_hints :: "('s \<Rightarrow> string \<Rightarrow> kv_map) \<Rightarrow> 's network \<Rightarrow> node_id \<Rightarrow> bytes \<Rightarrow> bytes option" where
  "net_hints view N n = bt_get (hints_at view n N)"

text \<open>The handler a request reaches.\<close>

definition serve_write ::
  "rep_ext \<Rightarrow> 's engine \<Rightarrow> write_request \<Rightarrow> ('s, replication_error, write_response) act" where
  "serve_write X E req =
    (if wr_doc req = None \<and> \<not> wr_is_hint req then handle_delete X E req else handle_write X E req)"

lemma sim_write_serve:
  "sim_write X E from target req N =
    (case resolve_target X N from target of
       Err e \<Rightarrow> (Some (Err e), N) | Ok store \<Rightarrow> on_store store (serve_write X E req) N)"
  by (cases "resolve_target X N from target") (simp_all add: sim_write_def serve_write_def)

lemma resolve_target_Ok:
  "resolve_target X N from target = Ok store \<Longrightarrow>
    nw_nodes N target = Some store \<and> target \<notin> nw_down N \<and> (from, target) \<notin> nw_partitions N"
  by (auto simp: resolve_target_def split: if_splits option.splits)

lemma on_store_run: "m (rs_storage store) = (r, s') \<Longrightarrow>
  on_store store m N = (r, N\<lparr>nw_nodes := (nw_nodes N)(rs_node_id store \<mapsto> store\<lparr>rs_storage := s'\<rparr>)\<rparr>)"
  by (simp add: on_store_def)

lemma net_inv_update:
  "net_inv I N \<Longrightarrow> nw_nodes N n = Some store \<Longrightarrow> I s' \<Longrightarrow>
    net_inv I (N\<lparr>nw_nodes := (nw_nodes N)(rs_node_id store \<mapsto> store\<lparr>rs_storage := s'\<rparr>)\<rparr>)"
  by (auto simp: net_inv_def)

lemma net_same:
  "net_inv I N \<Longrightarrow> nw_nodes N n = Some store \<Longrightarrow>
    N\<lparr>nw_nodes := (nw_nodes N)(rs_node_id store \<mapsto> store\<lparr>rs_storage := rs_storage store\<rparr>)\<rparr> = N"
  by (auto simp: net_inv_def map_upd_triv)

lemma cf_repl [simp]: "CF_DEFAULT \<in> set cf_all" "CF_HINTS \<in> set cf_all" "CF_DEFAULT \<noteq> CF_HINTS" "CF_HINTS \<noteq> CF_DEFAULT"
  by (simp_all add: cf_all_def CF_DEFAULT_def CF_HINTS_def)

context storage_engine
begin

lemma serve_plain:
  assumes "inv s" "\<not> wr_is_hint req"
  shows "serve_write X E req s =
    (case ser_versioned X (request_doc req) of
       Err e \<Rightarrow> (Some (Err (Serialization e)), s)
     | Ok bs \<Rightarrow> (Some (Ok \<lparr>wresp_version = wr_version req\<rparr>),
         after_put E CF_DEFAULT (object_key_bytes X (wr_key req)) bs s))"
proof -
  have put: "e_put E CF_DEFAULT k v s = (Some (Ok ()), after_put E CF_DEFAULT k v s)" for k v
    by (rule put_run(1) [OF assms(1)]) simp
  show ?thesis using assms(2)
    by (cases "wr_doc req")
      (simp_all add: serve_write_def handle_write_def handle_delete_def request_doc_def tombstone_def
        act_simps put cong: sum.case_cong)
qed

lemma serve_hint:
  assumes "inv s" "wr_is_hint req"
  shows "serve_write X E req s =
    (case wr_hint_target req of
       None \<Rightarrow> (Some (Err (TransportError ''hint write missing hint_target'')), s)
     | Some t \<Rightarrow>
         (case ser_hint X (hint_of req) of
            Err e \<Rightarrow> (Some (Err (Serialization e)), s)
          | Ok bs \<Rightarrow> (Some (Ok \<lparr>wresp_version = wr_version req\<rparr>),
              after_put E CF_HINTS (make_hint_key X t (wr_hlc req) (ok_object_id (wr_key req))) bs s)))"
proof -
  have put: "e_put E CF_HINTS k v s = (Some (Ok ()), after_put E CF_HINTS k v s)" for k v
    by (rule put_run(1) [OF assms(1)]) simp
  show ?thesis
  proof (cases "wr_hint_target req")
    case (Some t)
    then show ?thesis using assms(2) put
      by (cases "ser_hint X (hint_of req)")
        (simp_all add: serve_write_def handle_write_def store_hint_def hint_of_def request_doc_def act_simps)
  qed (use assms(2) in \<open>simp add: serve_write_def handle_write_def act_simps\<close>)
qed

lemma serve_inv: "inv s \<Longrightarrow> inv (snd (serve_write X E req s))"
  by (cases "wr_is_hint req") (auto simp: serve_plain serve_hint engine_run split: sum.splits option.splits)

lemma serve_returns: "inv s \<Longrightarrow> fst (serve_write X E req s) \<noteq> None"
  by (cases "wr_is_hint req") (auto simp: serve_plain serve_hint split: sum.splits option.splits)

lemma serve_fails:
  "inv s \<Longrightarrow> \<not> (\<exists>resp. fst (serve_write X E req s) = Some (Ok resp)) \<Longrightarrow> snd (serve_write X E req s) = s"
  by (cases "wr_is_hint req") (auto simp: serve_plain serve_hint split: sum.splits option.splits)

lemma serve_hint_view:
  "inv s \<Longrightarrow> wr_is_hint req \<Longrightarrow> view (snd (serve_write X E req s)) CF_DEFAULT = view s CF_DEFAULT"
  by (auto simp: serve_hint engine_run split: sum.splits option.splits)

lemma handle_read_run:
  "inv s \<Longrightarrow> handle_read X E rq s =
    (case bt_get (view s CF_DEFAULT) (object_key_bytes X (rreq_key rq)) of
       None \<Rightarrow> (Some (Ok \<lparr>rresp_doc = None\<rparr>), s)
     | Some bs \<Rightarrow>
         (case de_versioned X bs of
            Err e \<Rightarrow> (Some (Err (Serialization e)), s)
          | Ok d \<Rightarrow> (Some (Ok \<lparr>rresp_doc = Some d\<rparr>), s)))"
  by (simp add: handle_read_def get_law act_simps split: option.splits cong: sum.case_cong)

lemma sim_write_returns:
  assumes "net_inv inv N"
  shows "fst (sim_write X E from n req N) \<noteq> None"
proof (cases "resolve_target X N from n")
  case (Inr store)
  then have "inv (rs_storage store)" using assms by (auto simp: net_inv_def dest: resolve_target_Ok)
  from serve_returns [OF this, of X req] show ?thesis using Inr
    by (auto simp: sim_write_serve on_store_def split: prod.splits)
qed (simp add: sim_write_serve)

lemma sim_write_inv:
  assumes "net_inv inv N"
  shows "net_inv inv (snd (sim_write X E from n req N))"
proof (cases "resolve_target X N from n")
  case (Inr store)
  then have st: "nw_nodes N n = Some store" by (simp add: resolve_target_Ok)
  with assms have "inv (rs_storage store)" by (auto simp: net_inv_def)
  then have "inv (snd (serve_write X E req (rs_storage store)))" by (rule serve_inv)
  with Inr show ?thesis using net_inv_update [OF assms st]
    by (auto simp: sim_write_serve on_store_def split: prod.splits)
qed (use assms in \<open>simp add: sim_write_serve\<close>)

lemma sim_write_peek:
  assumes "net_inv inv N" "\<not> wr_is_hint req" "storable X (request_doc req)"
    and "sim_write X E from n req N = (Some (Ok resp), N')"
  shows "net_peek X view N' =
    (net_peek X view N)(n := (net_peek X view N n)(object_key_bytes X (wr_key req) \<mapsto> request_doc req))"
proof -
  obtain store where r: "resolve_target X N from n = Ok store"
    using assms(4) by (cases "resolve_target X N from n") (auto simp: sim_write_serve)
  then have st: "nw_nodes N n = Some store" by (simp add: resolve_target_Ok)
  with assms(1) have i: "inv (rs_storage store)" and id: "rs_node_id store = n" by (auto simp: net_inv_def)
  obtain bs where bs: "ser_versioned X (request_doc req) = Ok bs" "de_versioned X bs = Ok (request_doc req)"
    using assms(3) by (auto simp: storable_def)
  have N': "N' = N\<lparr>nw_nodes := (nw_nodes N)(n \<mapsto> store\<lparr>rs_storage :=
      after_put E CF_DEFAULT (object_key_bytes X (wr_key req)) bs (rs_storage store)\<rparr>)\<rparr>"
    using assms(4) r id bs(1) by (simp add: sim_write_serve on_store_def serve_plain [OF i assms(2)])
  show ?thesis
    using st bs(2) view_sorted [OF i, of CF_DEFAULT]
    by (auto simp: N' fun_eq_iff net_peek_def de_row_def engine_run i btree_simps)
qed

lemma sim_write_unpeeked:
  assumes "net_inv inv N"
    and "wr_is_hint req \<or> \<not> (\<exists>resp. fst (sim_write X E from n req N) = Some (Ok resp))"
  shows "net_peek X view (snd (sim_write X E from n req N)) = net_peek X view N"
proof (cases "resolve_target X N from n")
  case (Inr store)
  then have st: "nw_nodes N n = Some store" by (simp add: resolve_target_Ok)
  with assms(1) have i: "inv (rs_storage store)" and id: "rs_node_id store = n" by (auto simp: net_inv_def)
  let ?s' = "snd (serve_write X E req (rs_storage store))"
  have "fst (sim_write X E from n req N) = fst (serve_write X E req (rs_storage store))"
    using Inr by (simp add: sim_write_serve on_store_def split: prod.splits)
  then have "view ?s' CF_DEFAULT = view (rs_storage store) CF_DEFAULT"
    using assms(2) serve_hint_view [OF i, of req X] serve_fails [OF i, of X req] by auto
  then show ?thesis using Inr st id
    by (auto simp: fun_eq_iff net_peek_def sim_write_serve on_store_def split: prod.splits)
qed (simp add: sim_write_serve)

lemma sim_write_hints:
  assumes "net_inv inv N" "\<not> wr_is_hint req \<or> \<not> (\<exists>resp. fst (sim_write X E src t req N) = Some (Ok resp))"
  shows "hints_at view n (snd (sim_write X E src t req N)) = hints_at view n N"
proof (cases "resolve_target X N src t")
  case (Inr store)
  then have st: "nw_nodes N t = Some store" by (simp add: resolve_target_Ok)
  with assms have i: "inv (rs_storage store)" and id: "rs_node_id store = t" by (auto simp: net_inv_def)
  have "fst (sim_write X E src t req N) = fst (serve_write X E req (rs_storage store))"
    using Inr by (simp add: sim_write_serve on_store_def split: prod.splits)
  then have "view (snd (serve_write X E req (rs_storage store))) CF_HINTS = view (rs_storage store) CF_HINTS"
    using assms(2) serve_fails [OF i, of X req] serve_plain [OF i, of req X] put_run(3) [OF i]
    by (auto split: sum.splits)
  then show ?thesis using Inr st id
    by (auto simp: hints_at_def sim_write_serve on_store_def split: prod.splits)
qed (simp add: sim_write_serve)

lemma sim_write_nodes:
  assumes "net_inv inv N"
  shows "(nw_nodes (snd (sim_write X E src t req N)) n = None) = (nw_nodes N n = None)"
  using assms by (cases "resolve_target X N src t")
    (auto simp: sim_write_serve on_store_def net_inv_def dest: resolve_target_Ok split: prod.splits)

lemma sim_write_hint_row:
  assumes "net_inv inv N" "wr_is_hint req" "wr_hint_target req = Some t"
    and "sim_write X E src n req N = (Some (Ok resp), N')"
  shows "\<exists>bs. ser_hint X (hint_of req) = Ok bs \<and> net_hints view N' = (net_hints view N)(n :=
    (net_hints view N n)(make_hint_key X t (wr_hlc req) (ok_object_id (wr_key req)) \<mapsto> bs))"
proof -
  let ?k = "make_hint_key X t (wr_hlc req) (ok_object_id (wr_key req))"
  obtain store where r: "resolve_target X N src n = Ok store"
    using assms(4) by (cases "resolve_target X N src n") (auto simp: sim_write_serve)
  then have st: "nw_nodes N n = Some store" by (simp add: resolve_target_Ok)
  with assms(1) have i: "inv (rs_storage store)" and id: "rs_node_id store = n" by (auto simp: net_inv_def)
  obtain bs where bs: "ser_hint X (hint_of req) = Ok bs"
    and N': "N' = N\<lparr>nw_nodes := (nw_nodes N)(n \<mapsto> store\<lparr>rs_storage := after_put E CF_HINTS ?k bs (rs_storage store)\<rparr>)\<rparr>"
    using assms(3,4) r id serve_hint [OF i assms(2), of X]
    by (cases "ser_hint X (hint_of req)") (auto simp: sim_write_serve on_store_def)
  then show ?thesis
    using st put_run(3) [OF i, of CF_HINTS ?k bs] view_sorted [OF i, of CF_HINTS]
    by (auto simp: fun_eq_iff net_hints_def hints_at_def btree_simps)
qed

lemma sim_read_run:
  assumes "net_inv inv N"
  shows "snd (sim_read X E from n rq N) = N"
    and "fst (sim_read X E from n rq N) = Some (Ok rsp) \<Longrightarrow>
      rresp_doc rsp = net_peek X view N n (object_key_bytes X (rreq_key rq))"
proof -
  have "snd (sim_read X E from n rq N) = N \<and> (fst (sim_read X E from n rq N) = Some (Ok rsp) \<longrightarrow>
      rresp_doc rsp = net_peek X view N n (object_key_bytes X (rreq_key rq)))"
  proof (cases "resolve_target X N from n")
    case (Inr store)
    then have st: "nw_nodes N n = Some store" by (simp add: resolve_target_Ok)
    with assms have i: "inv (rs_storage store)" by (auto simp: net_inv_def)
    show ?thesis using Inr st net_same [OF assms st]
      by (auto simp: sim_read_def on_store_def handle_read_run [OF i] net_peek_def de_row_def
          split: option.splits sum.splits)
  qed (simp add: sim_read_def)
  then show "snd (sim_read X E from n rq N) = N"
    and "fst (sim_read X E from n rq N) = Some (Ok rsp) \<Longrightarrow>
      rresp_doc rsp = net_peek X view N n (object_key_bytes X (rreq_key rq))" by auto
qed

lemma sim_write_reachable:
  assumes "net_inv inv N" "reachable from N n" "\<not> wr_is_hint req" "storable X (request_doc req)"
  shows "\<exists>resp. fst (sim_write X E from n req N) = Some (Ok resp)"
proof -
  obtain store where r: "resolve_target X N from n = Ok store"
    using assms(2) by (auto simp: resolve_target_def reachable_def)
  then have "inv (rs_storage store)" using assms(1) by (auto simp: net_inv_def dest: resolve_target_Ok)
  then show ?thesis using r assms(3,4) by (auto simp: sim_write_serve on_store_def serve_plain storable_def)
qed

lemma sim_write_unreachable:
  "\<not> reachable from N n \<Longrightarrow> \<exists>e. sim_write X E from n req N = (Some (Err e), N)"
  by (auto simp: sim_write_serve resolve_target_def reachable_def split: option.splits)

lemma sim_write_faults:
  assumes "net_inv inv N"
  shows "reachable src (snd (sim_write X E from n req N)) = reachable src N"
proof (cases "resolve_target X N from n")
  case (Inr store)
  then have "nw_nodes N n = Some store" by (simp add: resolve_target_Ok)
  with assms have "rs_node_id store = n" by (auto simp: net_inv_def)
  with Inr show ?thesis
    by (auto simp: fun_eq_iff reachable_def sim_write_serve on_store_def dest: resolve_target_Ok split: prod.splits)
qed (simp add: sim_write_serve)

lemma transport_for_reachable:
  "reachable_transport X (transport_for X E from) (net_inv inv) (net_peek X view) (net_hints view) (reachable from)"
proof
  fix N n req t resp and N' :: "'s network"
  assume "net_inv inv N" "wr_is_hint req" "wr_hint_target req = Some t" "t_write (transport_for X E from) n req N = (Some (Ok resp), N')"
  then show "\<exists>bs. ser_hint X (hint_of req) = Ok bs \<and> net_hints view N' = (net_hints view N)(n :=
    (net_hints view N n)(make_hint_key X t (wr_hlc req) (ok_object_id (wr_key req)) \<mapsto> bs))"
    by (intro sim_write_hint_row) (auto simp: transport_for_def)
next
  fix N n req
  assume "net_inv inv N" "\<not> wr_is_hint req \<or> \<not> (\<exists>resp. fst (t_write (transport_for X E from) n req N) = Some (Ok resp))"
  then show "net_hints view (snd (t_write (transport_for X E from) n req N)) = net_hints view N"
    using sim_write_hints [of N req X "from" n] by (auto simp: transport_for_def net_hints_def fun_eq_iff)
next
  fix N n req assume "net_inv inv N" "\<not> reachable from N n"
  then show "\<exists>e. fst (t_write (transport_for X E from) n req N) = Some (Err e)"
    using sim_write_unreachable [of "from" N n X req] by (auto simp: transport_for_def)
qed (auto simp: transport_for_def sim_write_returns sim_write_inv sim_write_peek sim_write_unpeeked sim_read_run
    sim_write_reachable sim_write_faults)

end

interpretation simnet: reachable_transport X "transport_for X MemEngine src" "net_inv mem_inv"
    "net_peek X mem_view" "net_hints mem_view" "reachable src"
  for X src
  by (rule mem.transport_for_reachable)

end
