(* ===== verification/Coordinator.thy ===== *)
theory Coordinator
  imports Network Clocks "HOL-Library.Multiset"
begin

text \<open>
  The quorum coordinator of \<open>replication/src/coordinator.rs\<close> with its idempotency
  store (\<open>idempotency.rs\<close>): quorum reads and writes, sloppy quorum with hinted
  handoff, read repair and conflict resolution.

  The tasks of a \<open>JoinSet\<close> run to completion in an order the runtime chooses:
  \<open>sched\<close>, an argument, permutes the targets.  A task that panics is dropped, as
  \<open>join_next\<close> reports it.  The read repair that \<open>quorum_read\<close> spawns is put into
  \<open>cs_tasks\<close> and run by \<open>run_repair\<close>.  An \<open>Instant\<close> is a number of nanoseconds.
\<close>

section \<open>Idempotency\<close>

definition IDEMPOTENCY_TTL :: nat where
  "IDEMPOTENCY_TTL = 15 * 60 * 1000000000"

record idem_entry =
  ie_doc_bytes :: bytes
  ie_result :: write_result
  ie_created_at :: nat

record idempotency_store =
  id_cache :: "string \<Rightarrow> idem_entry option"

definition idem_new :: idempotency_store where
  "idem_new = \<lparr>id_cache = Map.empty\<rparr>"

definition evict_expired :: "nat \<Rightarrow> idempotency_store \<Rightarrow> idempotency_store" where
  "evict_expired now st = st\<lparr>id_cache := (\<lambda>k.
    case id_cache st k of
      None \<Rightarrow> None
    | Some e \<Rightarrow> if now - ie_created_at e < IDEMPOTENCY_TTL then Some e else None)\<rparr>"

definition idem_get ::
  "rep_ext \<Rightarrow> nat \<Rightarrow> string \<Rightarrow> document \<Rightarrow> (idempotency_store, replication_error, write_result option) act" where
  "idem_get X now key doc = (\<lambda>st0.
    let st = evict_expired now st0
    in case id_cache st key of
        None \<Rightarrow> (Some (Ok None), st)
      | Some entry \<Rightarrow>
          (case ser_document X doc of
             Err e \<Rightarrow> (Some (Err (Serialization e)), st)
           | Ok incoming_bytes \<Rightarrow>
               if ie_doc_bytes entry = incoming_bytes then (Some (Ok (Some (ie_result entry))), st)
               else (Some (Err IdempotencyConflict), st)))"

definition idem_store ::
  "rep_ext \<Rightarrow> nat \<Rightarrow> string \<Rightarrow> document \<Rightarrow> write_result \<Rightarrow> (idempotency_store, replication_error, unit) act" where
  "idem_store X now key doc res = (\<lambda>st0.
    let st = evict_expired now st0
    in case ser_document X doc of
        Err e \<Rightarrow> (Some (Err (Serialization e)), st)
      | Ok doc_bytes \<Rightarrow>
          (Some (Ok ()), st\<lparr>id_cache := (id_cache st)(key \<mapsto>
             \<lparr>ie_doc_bytes = doc_bytes, ie_result = res, ie_created_at = now\<rparr>)\<rparr>))"

section \<open>The coordinator and its state\<close>

record ('w, 'c) coordinator =
  co_local_node :: node_id
  co_membership :: membership_view
  co_transport :: "'w transport"
  co_tick :: "'c \<Rightarrow> hlc_outcome \<times> 'c"
  co_config :: quorum_config

definition coordinator_new ::
  "node_id \<Rightarrow> membership_view \<Rightarrow> 'w transport \<Rightarrow> ('c \<Rightarrow> hlc_outcome \<times> 'c) \<Rightarrow> quorum_config \<Rightarrow> ('w, 'c) coordinator" where
  "coordinator_new local_node membership transport tick config =
    \<lparr>co_local_node = local_node, co_membership = membership, co_transport = transport,
     co_tick = tick, co_config = config\<rparr>"

type_synonym repair_task = "(node_id \<times> write_request) list"

record ('w, 'c) coord_state =
  cs_world :: 'w
  cs_clock :: 'c
  cs_idem :: idempotency_store
  cs_tasks :: "repair_task list"

definition on_world :: "('w, 'e, 'a) act \<Rightarrow> (('w, 'c) coord_state, 'e, 'a) act" where
  "on_world m = (\<lambda>s. case m (cs_world s) of (r, w') \<Rightarrow> (r, s\<lparr>cs_world := w'\<rparr>))"

definition on_clock :: "('c, 'e, 'a) act \<Rightarrow> (('w, 'c) coord_state, 'e, 'a) act" where
  "on_clock m = (\<lambda>s. case m (cs_clock s) of (r, c') \<Rightarrow> (r, s\<lparr>cs_clock := c'\<rparr>))"

definition on_idem :: "(idempotency_store, 'e, 'a) act \<Rightarrow> (('w, 'c) coord_state, 'e, 'a) act" where
  "on_idem m = (\<lambda>s. case m (cs_idem s) of (r, i') \<Rightarrow> (r, s\<lparr>cs_idem := i'\<rparr>))"

definition spawn_task :: "repair_task \<Rightarrow> (('w, 'c) coord_state, 'e, unit) act" where
  "spawn_task t = (\<lambda>s. (Some (Ok ()), s\<lparr>cs_tasks := cs_tasks s @ [t]\<rparr>))"

section \<open>Conflict resolution\<close>

definition resolve_two :: "versioned_doc \<Rightarrow> versioned_doc \<Rightarrow> versioned_doc" where
  "resolve_two a b =
    (case vc_compare (vd_version a) (vd_version b) of
       After \<Rightarrow> a
     | Before \<Rightarrow> b
     | Equal \<Rightarrow> a
     | Concurrent \<Rightarrow>
         (case (vd_is_tombstone a, vd_is_tombstone b) of
            (True, False) \<Rightarrow> a
          | (False, True) \<Rightarrow> b
          | _ \<Rightarrow> if vd_hlc b \<le> vd_hlc a then a else b))"

text \<open>\<open>docs.remove(0)\<close> panics on an empty list.\<close>

definition resolve_conflict :: "versioned_doc list \<Rightarrow> versioned_doc option" where
  "resolve_conflict docs =
    (case docs of [] \<Rightarrow> None | d # ds \<Rightarrow> Some (fold (\<lambda>candidate winner. resolve_two winner candidate) ds d))"

section \<open>Fan-out\<close>

text \<open>The tasks of a \<open>JoinSet\<close> with what each returned, \<open>None\<close> for a panic.\<close>

primrec join_all ::
  "('x \<Rightarrow> ('w, 'e, 'a) act) \<Rightarrow> 'x list \<Rightarrow> 'w \<Rightarrow> ('x \<times> ('e, 'a) result option) list \<times> 'w" where
  "join_all f [] w = ([], w)"
| "join_all f (x # xs) w =
    (case f x w of (r, w1) \<Rightarrow> case join_all f xs w1 of (rs, w2) \<Rightarrow> ((x, r) # rs, w2))"

definition broadcast_write ::
  "'w transport \<Rightarrow> (node_id list \<Rightarrow> node_id list) \<Rightarrow> node_id list \<Rightarrow> write_request \<Rightarrow>
    ('w, replication_error, node_id list \<times> node_id list) act" where
  "broadcast_write T sched targets req = (\<lambda>w.
    case join_all (\<lambda>n. t_write T n req) (sched targets) w of (rs, w') \<Rightarrow>
      (Some (Ok ([n. (n, Some (Ok _)) \<leftarrow> rs], [n. (n, Some (Err _)) \<leftarrow> rs])), w'))"

definition gather_reads ::
  "'w transport \<Rightarrow> (node_id list \<Rightarrow> node_id list) \<Rightarrow> node_id list \<Rightarrow> object_key \<Rightarrow>
    ('w, replication_error, (node_id \<times> versioned_doc option) list) act" where
  "gather_reads T sched owners key = (\<lambda>w.
    case join_all (\<lambda>n. t_read T n \<lparr>rreq_key = key\<rparr>) (sched owners) w of (rs, w') \<Rightarrow>
      (Some (Ok [(n, rresp_doc resp). (n, Some (Ok resp)) \<leftarrow> rs]), w'))"

section \<open>quorum\_read\<close>

definition is_stale :: "versioned_doc \<Rightarrow> versioned_doc option \<Rightarrow> bool" where
  "is_stale winner doc =
    (case (case doc of None \<Rightarrow> Before | Some vdoc \<Rightarrow> vc_compare (vd_version vdoc) (vd_version winner)) of
       Before \<Rightarrow> True | Concurrent \<Rightarrow> True | Equal \<Rightarrow> False | After \<Rightarrow> False)"

definition repair_request :: "object_key \<Rightarrow> versioned_doc \<Rightarrow> write_request" where
  "repair_request key winner =
    \<lparr>wr_key = key, wr_doc = vd_document winner, wr_version = vd_version winner,
     wr_hlc = vd_hlc winner, wr_is_hint = False, wr_hint_target = None\<rparr>"

definition quorum_read ::
  "rep_ext \<Rightarrow> ('w, 'c) coordinator \<Rightarrow> (node_id list \<Rightarrow> node_id list) \<Rightarrow> object_key \<Rightarrow>
    (('w, 'c) coord_state, replication_error, read_result) act" where
  "quorum_read X C sched key =
    (let owners = mv_owners_for_key (co_membership C) (object_key_bytes X key) (qc_n (co_config C))
     in if owners = [] then act_err (InsufficientReplicas (qc_r (co_config C)) 0)
        else act_bind (on_world (gather_reads (co_transport C) sched owners key)) (\<lambda>responses.
        let r_count = length responses
        in if r_count < qc_r (co_config C)
           then act_err (InsufficientReplicas (qc_r (co_config C)) r_count)
           else (case resolve_conflict (List.map_filter snd responses) of
               None \<Rightarrow> act_ok \<lparr>rr_document = None, rr_version = vc_new, rr_repairs_triggered = 0\<rparr>
             | Some winner \<Rightarrow>
                 let stale_nodes = [node. (node, doc) \<leftarrow> responses, is_stale winner doc]
                 in act_bind (if stale_nodes = [] then act_ok ()
                      else spawn_task (map (\<lambda>node. (node, repair_request key winner)) stale_nodes)) (\<lambda>_.
                    act_ok \<lparr>rr_document = vd_document winner, rr_version = vd_version winner,
                      rr_repairs_triggered = length stale_nodes\<rparr>))))"

text \<open>The body of the spawned task: failed writes are logged, a panic ends the task.\<close>

primrec run_repair :: "'w transport \<Rightarrow> repair_task \<Rightarrow> ('w, replication_error, unit) act" where
  "run_repair T [] = act_ok ()"
| "run_repair T (nr # task) =
    act_bind (act_try (t_write T (fst nr) (snd nr))) (\<lambda>_. run_repair T task)"

section \<open>Sloppy quorum\<close>

fun hint_loop ::
  "'w transport \<Rightarrow> (node_id \<Rightarrow> write_request) \<Rightarrow> node_id list \<Rightarrow> node_id list \<Rightarrow> nat \<Rightarrow> ('w, replication_error, nat) act" where
  "hint_loop T hint_req (failed_owner # fs) (fallback_node # bs) stored =
    act_bind (act_try (t_write T fallback_node (hint_req failed_owner))) (\<lambda>r.
    hint_loop T hint_req fs bs (case r of Ok _ \<Rightarrow> stored + 1 | Err _ \<Rightarrow> stored))"
| "hint_loop T hint_req _ _ stored = act_ok stored"

definition store_sloppy_hints ::
  "('w, 'c) coordinator \<Rightarrow> object_key \<Rightarrow> document option \<Rightarrow> vector_clock \<Rightarrow> hlc \<Rightarrow>
    node_id list \<Rightarrow> node_id list \<Rightarrow> ('w, replication_error, nat) act" where
  "store_sloppy_hints C key doc version h original_owners failed_owners =
    (if failed_owners = [] then act_ok 0
     else
       let fallbacks = filter (\<lambda>n. n \<notin> set original_owners) (mv_all_nodes (co_membership C));
           needed = min (length failed_owners) (qc_w (co_config C));
           hint_req = (\<lambda>failed_owner.
             \<lparr>wr_key = key, wr_doc = doc, wr_version = version, wr_hlc = h,
              wr_is_hint = True, wr_hint_target = Some failed_owner\<rparr>)
       in hint_loop (co_transport C) hint_req (take needed failed_owners) fallbacks 0)"

section \<open>quorum\_write and quorum\_delete\<close>

definition cache_result ::
  "rep_ext \<Rightarrow> nat \<Rightarrow> string option \<Rightarrow> document \<Rightarrow> write_result \<Rightarrow>
    (('w, 'c) coord_state, replication_error, write_result) act" where
  "cache_result X now ikey doc res =
    (case ikey of
       None \<Rightarrow> act_ok res
     | Some k \<Rightarrow> act_bind (act_try (on_idem (idem_store X now k doc res))) (\<lambda>_. act_ok res))"

definition stamp ::
  "('w, 'c) coordinator \<Rightarrow> (('w, 'c) coord_state, replication_error, hlc \<times> vector_clock) act" where
  "stamp C =
    act_bind (act_map_err ReplClock (on_clock (co_tick C))) (\<lambda>h.
    act_bind (act_map_err ReplVectorClock (act_of_result (increment (co_local_node C) h vc_new))) (\<lambda>version.
    act_ok (h, version)))"

definition quorum_write ::
  "rep_ext \<Rightarrow> ('w, 'c) coordinator \<Rightarrow> (node_id list \<Rightarrow> node_id list) \<Rightarrow> nat \<Rightarrow> nat \<Rightarrow>
    object_key \<Rightarrow> document \<Rightarrow> string option \<Rightarrow> (('w, 'c) coord_state, replication_error, write_result) act" where
  "quorum_write X C sched t_get t_store key doc ikey =
    act_bind (case ikey of None \<Rightarrow> act_ok None | Some k \<Rightarrow> on_idem (idem_get X t_get k doc)) (\<lambda>hit.
    case hit of
      Some cached \<Rightarrow> act_ok cached
    | None \<Rightarrow>
        let owners = mv_owners_for_key (co_membership C) (object_key_bytes X key) (qc_n (co_config C))
        in act_bind (stamp C) (\<lambda>(h, version).
           act_bind (on_world (broadcast_write (co_transport C) sched owners
             \<lparr>wr_key = key, wr_doc = Some doc, wr_version = version, wr_hlc = h,
              wr_is_hint = False, wr_hint_target = None\<rparr>)) (\<lambda>(acked_owners, failed_owners).
           let ack_count = length acked_owners
           in if qc_w (co_config C) \<le> ack_count
              then cache_result X t_store ikey doc
                \<lparr>wres_version = version, wres_nodes_acked = ack_count, wres_hints_stored = 0\<rparr>
              else act_bind (on_world (store_sloppy_hints C key (Some doc) version h owners failed_owners))
                (\<lambda>hints_stored.
                 if qc_w (co_config C) \<le> ack_count + hints_stored
                 then cache_result X t_store ikey doc
                   \<lparr>wres_version = version, wres_nodes_acked = ack_count, wres_hints_stored = hints_stored\<rparr>
                 else act_err (InsufficientReplicas (qc_w (co_config C)) (ack_count + hints_stored))))))"

definition quorum_delete ::
  "rep_ext \<Rightarrow> ('w, 'c) coordinator \<Rightarrow> (node_id list \<Rightarrow> node_id list) \<Rightarrow> object_key \<Rightarrow>
    (('w, 'c) coord_state, replication_error, write_result) act" where
  "quorum_delete X C sched key =
    (let owners = mv_owners_for_key (co_membership C) (object_key_bytes X key) (qc_n (co_config C))
     in act_bind (stamp C) (\<lambda>(h, version).
        act_bind (on_world (broadcast_write (co_transport C) sched owners
          \<lparr>wr_key = key, wr_doc = None, wr_version = version, wr_hlc = h,
           wr_is_hint = False, wr_hint_target = None\<rparr>)) (\<lambda>(acked_owners, failed_owners).
        let ack_count = length acked_owners
        in if qc_w (co_config C) \<le> ack_count
           then act_ok \<lparr>wres_version = version, wres_nodes_acked = ack_count, wres_hints_stored = 0\<rparr>
           else act_bind (on_world (store_sloppy_hints C key None version h owners failed_owners))
             (\<lambda>hints_stored.
              if qc_w (co_config C) \<le> ack_count + hints_stored
              then act_ok \<lparr>wres_version = version, wres_nodes_acked = ack_count,
                wres_hints_stored = hints_stored\<rparr>
              else act_err (InsufficientReplicas (qc_w (co_config C)) (ack_count + hints_stored))))))"


section \<open>Fan-out over a transport\<close>

lemma acked_laws:
  fixes rs :: "('x \<times> ('e, 'a) result option) list"
  shows "set [n. (n, Some (Ok _)) \<leftarrow> rs] = {n. \<exists>a. (n, Some (Ok a)) \<in> set rs}"
    and "set [n. (n, Some (Err _)) \<leftarrow> rs] = {n. \<exists>e. (n, Some (Err e)) \<in> set rs}"
    and "distinct (map fst rs) \<Longrightarrow> distinct [n. (n, Some (Ok _)) \<leftarrow> rs]"
    and "distinct (map fst rs) \<Longrightarrow> distinct [n. (n, Some (Err _)) \<leftarrow> rs]"
proof -
  show set: "set [n. (n, Some (Ok _)) \<leftarrow> rs] = {n. \<exists>a. (n, Some (Ok a)) \<in> set rs}" for rs :: "('x \<times> ('e, 'a) result option) list"
    by (induction rs) (auto split: option.splits sum.splits)
  show set_err: "set [n. (n, Some (Err _)) \<leftarrow> rs] = {n. \<exists>e. (n, Some (Err e)) \<in> set rs}" for rs :: "('x \<times> ('e, 'a) result option) list"
    by (induction rs) (auto split: option.splits sum.splits)
  show "distinct (map fst rs) \<Longrightarrow> distinct [n. (n, Some (Ok _)) \<leftarrow> rs]"
  proof (induction rs)
    case (Cons x rs)
    have "fst x \<notin> set [n. (n, Some (Ok _)) \<leftarrow> rs]" unfolding set using Cons.prems by (auto intro: rev_image_eqI)
    then show ?case using Cons by (auto split: prod.splits option.splits sum.splits)
  qed simp
  show "distinct (map fst rs) \<Longrightarrow> distinct [n. (n, Some (Err _)) \<leftarrow> rs]"
  proof (induction rs)
    case (Cons x rs)
    have "fst x \<notin> set [n. (n, Some (Err _)) \<leftarrow> rs]" unfolding set_err using Cons.prems by (auto intro: rev_image_eqI)
    then show ?case using Cons by (auto split: prod.splits option.splits sum.splits)
  qed simp
qed

lemma join_all_fst: "map fst (fst (join_all f xs w)) = xs"
  by (induction xs arbitrary: w) (simp_all split: prod.splits, metis fst_conv)

text \<open>\<open>d\<close> gives way to \<open>v\<close>: it is causally older, or concurrent and loses the tie-break.\<close>

definition superseded :: "versioned_doc \<Rightarrow> versioned_doc \<Rightarrow> bool" where
  "superseded d v \<longleftrightarrow>
    vc_compare (vd_version d) (vd_version v) = Before \<or>
    vc_compare (vd_version d) (vd_version v) = Concurrent \<and>
      (vd_is_tombstone v \<and> \<not> vd_is_tombstone d \<or>
       vd_is_tombstone v = vd_is_tombstone d \<and> vd_hlc d < vd_hlc v)"

lemma resolve_two_superseded:
  assumes "superseded d v"
  shows "resolve_two d v = v" "resolve_two v d = v"
  using assms vc.compare_flip [of "vd_version v" "vd_version d"]
  by (auto simp: superseded_def resolve_two_def not_le split: bool.splits)

lemma resolve_two_self: "resolve_two d d = d"
  by (simp add: resolve_two_def vc.compare_self)

lemma resolve_two_arg: "resolve_two a b = a \<or> resolve_two a b = b"
  by (auto simp: resolve_two_def split: causal_order.splits bool.splits)

lemma resolve_fold_winner:
  assumes "\<forall>d \<in> set (a # ds). d = v \<or> superseded d v" "v \<in> set (a # ds)"
  shows "fold (\<lambda>candidate winner. resolve_two winner candidate) ds a = v"
  using assms
proof (induction ds arbitrary: a)
  case (Cons d ds)
  have keep: "resolve_two a d = a \<or> resolve_two a d = d" by (rule resolve_two_arg)
  moreover have "a = v \<or> d = v \<Longrightarrow> resolve_two a d = v"
    using Cons.prems(1) resolve_two_superseded resolve_two_self by (metis list.set_intros)
  ultimately have "\<forall>e \<in> set (resolve_two a d # ds). e = v \<or> superseded e v"
    "v \<in> set (resolve_two a d # ds)" using Cons.prems by auto
  then show ?case using Cons.IH [of "resolve_two a d"] by simp
qed simp

lemma resolve_conflict_winner:
  assumes "v \<in> set docs" "\<forall>d \<in> set docs. d = v \<or> superseded d v"
  shows "resolve_conflict docs = Some v"
  using assms resolve_fold_winner by (cases docs) (auto simp: resolve_conflict_def)

lemma quorums_meet:
  assumes "distinct xs" "distinct ys" "set xs \<subseteq> set os" "set ys \<subseteq> set os"
    and "length os < length xs + length ys"
  shows "set xs \<inter> set ys \<noteq> {}"
proof
  assume "set xs \<inter> set ys = {}"
  then have "length xs + length ys = card (set xs \<union> set ys)"
    using assms(1,2) by (simp add: card_Un_disjoint distinct_card)
  also have "\<dots> \<le> card (set os)" using assms(3,4) by (intro card_mono) auto
  also have "\<dots> \<le> length os" by (rule card_length)
  finally show False using assms(5) by simp
qed

text \<open>
  The hints of the nodes after one write of version \<open>v\<close> has placed some: a pair for each, the owner that failed
  and the node that keeps the hint.
\<close>

definition hints_after ::
  "rep_ext \<Rightarrow> object_key \<Rightarrow> versioned_doc \<Rightarrow> (node_id \<times> node_id) list \<Rightarrow> (node_id \<Rightarrow> bytes \<Rightarrow> bytes option) \<Rightarrow>
    (node_id \<Rightarrow> bytes \<Rightarrow> bytes option)" where
  "hints_after X key v placed H = (\<lambda>n k.
    if \<exists>f. (f, n) \<in> set placed \<and> k = make_hint_key X f (vd_hlc v) (ok_object_id key)
    then (case ser_hint X \<lparr>hv_key = key, hv_versioned = v\<rparr> of Ok bs \<Rightarrow> Some bs | Err _ \<Rightarrow> None)
    else H n k)"

text \<open>Each hint is for another owner that did not acknowledge, on a node that is not an owner.\<close>

definition hints_allowed ::
  "node_id list \<Rightarrow> node_id list \<Rightarrow> node_id list \<Rightarrow> (node_id \<times> node_id) list \<Rightarrow> bool" where
  "hints_allowed owners all_nodes acked placed \<longleftrightarrow> distinct (map fst placed) \<and>
    (\<forall>(f, n) \<in> set placed. f \<in> set owners - set acked \<and> n \<in> set all_nodes - set owners)"

context replica_transport
begin

lemma join_writes:
  assumes "inv w" "\<not> wr_is_hint req" "storable X (request_doc req)"
    and "join_all (\<lambda>n. t_write T n req) ns w = (rs, w')"
  shows "inv w' \<and> hints w' = hints w \<and> (\<forall>n kb. peek w' n kb =
    (if kb = object_key_bytes X (wr_key req) \<and> (\<exists>resp. (n, Some (Ok resp)) \<in> set rs)
     then Some (request_doc req) else peek w n kb))"
  using assms(1,4)
proof (induction ns arbitrary: w rs)
  case (Cons n ns)
  obtain r w1 where w1: "t_write T n req w = (r, w1)" by fastforce
  obtain rs1 where rest: "join_all (\<lambda>n. t_write T n req) ns w1 = (rs1, w')" and rs: "rs = (n, r) # rs1"
    using Cons.prems(2) w1 by (auto split: prod.splits)
  have i1: "inv w1" "hints w1 = hints w"
    using write_inv [OF Cons.prems(1), of n req] hint_unchanged [OF Cons.prems(1), of req n] assms(2) w1 by simp_all
  have p1: "peek w1 m kb =
      (if kb = object_key_bytes X (wr_key req) \<and> m = n \<and> (\<exists>resp. r = Some (Ok resp))
       then Some (request_doc req) else peek w m kb)" for m kb
  proof (cases "\<exists>resp. r = Some (Ok resp)")
    case True
    then show ?thesis using write_ok [OF Cons.prems(1) assms(2,3)] w1 by auto
  next
    case False
    then show ?thesis using write_fails [OF Cons.prems(1), of n req] w1 by simp
  qed
  show ?case using Cons.IH [OF i1(1) rest] i1(2) p1 by (auto simp: rs)
qed simp

lemma join_reads:
  assumes "inv w" "join_all (\<lambda>n. t_read T n rq) ns w = (rs, w')"
  shows "w' = w \<and> (\<forall>n resp. (n, Some (Ok resp)) \<in> set rs \<longrightarrow>
    rresp_doc resp = peek w n (object_key_bytes X (rreq_key rq)))"
  using assms(2)
proof (induction ns arbitrary: rs)
  case (Cons n ns)
  obtain r w1 where w1: "t_read T n rq w = (r, w1)" by fastforce
  then have "w1 = w" using read_state [OF assms(1), of n rq] by simp
  then obtain rs1 where rest: "join_all (\<lambda>n. t_read T n rq) ns w = (rs1, w')" and rs: "rs = (n, r) # rs1"
    using Cons.prems w1 by (auto split: prod.splits)
  show ?case using Cons.IH [OF rest] read_ok [OF assms(1), of n rq] w1 by (auto simp: rs)
qed simp

lemma join_reads_all:
  "inv w \<Longrightarrow> n \<in> set ns \<Longrightarrow> fst (t_read T n rq w) = Some (Ok rsp) \<Longrightarrow>
    (n, Some (Ok rsp)) \<in> set (fst (join_all (\<lambda>n. t_read T n rq) ns w))"
proof (induction ns)
  case (Cons m ns)
  have "snd (t_read T m rq w) = w" by (rule read_state [OF Cons.prems(1)])
  then show ?case using Cons by (auto split: prod.splits)
qed simp

lemma broadcast_run:
  assumes "inv w" "\<not> wr_is_hint req" "storable X (request_doc req)" "distinct os"
    and "mset (sched os) = mset os"
  obtains acked failed w' where
    "broadcast_write T sched os req w = (Some (Ok (acked, failed)), w')"
    "inv w'" "distinct acked" "set acked \<subseteq> set os" "set failed \<subseteq> set os" "set acked \<inter> set failed = {}"
    "distinct failed" "hints w' = hints w"
    "\<And>n kb. peek w' n kb = (if kb = object_key_bytes X (wr_key req) \<and> n \<in> set acked
      then Some (request_doc req) else peek w n kb)"
proof -
  obtain rs w' where j: "join_all (\<lambda>n. t_write T n req) (sched os) w = (rs, w')" by fastforce
  have f: "map fst rs = sched os" using join_all_fst [of "\<lambda>n. t_write T n req" "sched os" w] j by simp
  have p: "distinct (sched os)" "set (sched os) = set os"
    using assms(4,5) mset_eq_imp_distinct_iff mset_eq_setD by blast+
  have sub: "x \<in> set rs \<Longrightarrow> fst x \<in> set os" for x using f p(2) by (metis image_eqI list.set_map)
  have uniq: "(n, a) \<in> set rs \<Longrightarrow> (n, b) \<in> set rs \<Longrightarrow> a = b" for n a b
    using f p(1) by (metis eq_key_imp_eq_value)
  let ?acked = "[n. (n, Some (Ok _)) \<leftarrow> rs]" and ?failed = "[n. (n, Some (Err _)) \<leftarrow> rs]"
  show ?thesis
  proof (rule that)
    show "broadcast_write T sched os req w = (Some (Ok (?acked, ?failed)), w')"
      by (simp add: broadcast_write_def j)
    show "distinct ?acked" "distinct ?failed" using acked_laws(3,4) f p(1) by metis+
    show "set ?acked \<subseteq> set os" "set ?failed \<subseteq> set os" using sub by (force simp: acked_laws(1,2))+
    show "set ?acked \<inter> set ?failed = {}" using uniq by (fastforce simp: acked_laws(1,2))
    show "inv w'" and "hints w' = hints w" and "peek w' n kb = (if kb = object_key_bytes X (wr_key req) \<and> n \<in> set ?acked
      then Some (request_doc req) else peek w n kb)" for n kb
      using join_writes [OF assms(1-3) j] unfolding acked_laws(1) by simp_all
  qed
qed

lemma gather_run:
  assumes "inv w" "distinct os" "mset (sched os) = mset os"
  obtains responses where
    "gather_reads T sched os key w = (Some (Ok responses), w)"
    "distinct (map fst responses)" "fst ` set responses \<subseteq> set os"
    "\<forall>(n, d) \<in> set responses. d = peek w n (object_key_bytes X key)"
    "\<And>n rsp. n \<in> set os \<Longrightarrow> fst (t_read T n \<lparr>rreq_key = key\<rparr> w) = Some (Ok rsp) \<Longrightarrow>
      (n, rresp_doc rsp) \<in> set responses"
proof -
  let ?rq = "\<lparr>rreq_key = key\<rparr>"
  obtain rs w' where j: "join_all (\<lambda>n. t_read T n ?rq) (sched os) w = (rs, w')" by fastforce
  have f: "map fst rs = sched os" using join_all_fst [of "\<lambda>n. t_read T n ?rq" "sched os" w] j by simp
  have p: "distinct (sched os)" "set (sched os) = set os"
    using assms(2,3) mset_eq_imp_distinct_iff mset_eq_setD by blast+
  let ?resp = "[(n, rresp_doc resp). (n, Some (Ok resp)) \<leftarrow> rs]"
  have fst_resp: "map fst [(n, rresp_doc resp). (n, Some (Ok resp)) \<leftarrow> rs] = [n. (n, Some (Ok _)) \<leftarrow> rs]" for rs
    by (induction rs) (auto split: option.splits sum.splits)
  have set_resp: "set [(n, rresp_doc resp). (n, Some (Ok resp)) \<leftarrow> rs] =
      {(n, rresp_doc resp) |n resp. (n, Some (Ok resp)) \<in> set rs}" for rs
    by (induction rs) (auto split: option.splits sum.splits)
  show ?thesis
  proof (rule that)
    show "gather_reads T sched os key w = (Some (Ok ?resp), w)"
      using join_reads [OF assms(1) j] by (simp add: gather_reads_def j)
    show "distinct (map fst ?resp)" unfolding fst_resp using acked_laws(3) f p(1) by metis
    have "x \<in> set rs \<Longrightarrow> fst x \<in> set os" for x using f p(2) by (metis image_eqI list.set_map)
    then show "fst ` set ?resp \<subseteq> set os" by (force simp: set_resp)
    show "\<forall>(n, d) \<in> set ?resp. d = peek w n (object_key_bytes X key)"
      using join_reads [OF assms(1) j] by (auto simp: set_resp)
    show "(n, rresp_doc rsp) \<in> set ?resp" if "n \<in> set os" "fst (t_read T n ?rq w) = Some (Ok rsp)" for n rsp
      using join_reads_all [OF assms(1), of n "sched os" ?rq rsp] that p(2) j unfolding set_resp by auto
  qed
qed

lemma hint_loop_run:
  assumes "\<And>f. hint_req f = \<lparr>wr_key = key, wr_doc = doc, wr_version = v, wr_hlc = h, wr_is_hint = True, wr_hint_target = Some f\<rparr>"
  shows "inv w \<Longrightarrow> \<exists>placed w'. hint_loop T hint_req fs bs k w = (Some (Ok (k + length placed)), w') \<and> inv w' \<and>
    peek w' = peek w \<and> set placed \<subseteq> set (zip fs bs) \<and> (distinct fs \<longrightarrow> distinct (map fst placed)) \<and>
    hints w' = hints_after X key (request_doc (hint_req undefined)) placed (hints w)"
proof (induction fs arbitrary: bs k w)
  case (Cons f fs)
  let ?v = "request_doc (hint_req undefined)"
  show ?case
  proof (cases bs)
    case Nil
    then show ?thesis using Cons.prems by (auto simp: act_simps hints_after_def intro!: exI [of _ "[]"])
  next
    case (Cons b bs')
    obtain res w1 where w1: "t_write T b (hint_req f) w = (Some res, w1)"
      using write_returns [OF Cons.prems, of b "hint_req f"] by (metis option.exhaust prod.collapse)
    have i1: "inv w1" "peek w1 = peek w"
      using write_inv [OF Cons.prems, of b "hint_req f"] write_hint [OF Cons.prems, of "hint_req f" b] w1
      by (simp_all add: assms)
    let ?new = "if \<exists>resp. res = Ok resp then [(f, b)] else []"
    have h1: "hints w1 = hints_after X key ?v ?new (hints w)"
    proof (cases res)
      case (Inl e)
      thus ?thesis using hint_unchanged [OF Cons.prems, of "hint_req f" b] w1 by (simp add: hints_after_def)
    next
      case (Inr resp)
      thus ?thesis
        using hint_ok [OF Cons.prems, of "hint_req f" f b resp w1] w1
        by (auto simp: assms hints_after_def fun_eq_iff hint_of_def request_doc_def)
    qed
    obtain placed w' where run: "hint_loop T hint_req fs bs' (k + length ?new) w1 = (Some (Ok (k + length ?new + length placed)), w')"
      "inv w'" "peek w' = peek w1" "set placed \<subseteq> set (zip fs bs')" "distinct fs \<longrightarrow> distinct (map fst placed)"
      "hints w' = hints_after X key ?v placed (hints w1)"
      using Cons.IH [OF i1(1)] by blast
    have "hint_loop T hint_req (f # fs) bs k w = (Some (Ok (k + length (?new @ placed))), w')"
      using w1 run(1) \<open>bs = b # bs'\<close> by (cases res) (auto simp: act_simps)
    moreover have "set (?new @ placed) \<subseteq> set (zip (f # fs) bs)" using run(4) \<open>bs = b # bs'\<close> by auto
    moreover have "distinct (f # fs) \<longrightarrow> distinct (map fst (?new @ placed))"
      using run(4,5) by (auto dest!: subsetD dest: set_zip_leftD)
    moreover have "hints w' = hints_after X key ?v (?new @ placed) (hints w)"
      using run(6) h1 by (auto simp: hints_after_def fun_eq_iff)
    ultimately show ?thesis using run(2,3) i1(2) by metis
  qed
qed (auto simp: act_simps hints_after_def intro!: exI [of _ "[]"])

lemma read_after_ack:
  assumes "inv w0" "\<not> wr_is_hint req" "storable X (request_doc req)" "distinct os"
    and "mset (schedw os) = mset os" "mset (schedr os) = mset os"
    and "broadcast_write T schedw os req w0 = (Some (Ok (acked, failed)), w1)"
    and "inv w2" "peek w2 = peek w1"
    and "gather_reads T schedr os (wr_key req) w2 = (Some (Ok responses), w3)"
    and "length os < length acked + length responses"
    and "\<forall>n \<in> set os. \<forall>d. peek w0 n (object_key_bytes X (wr_key req)) = Some d \<longrightarrow>
      superseded d (request_doc req)"
  shows "resolve_conflict (List.map_filter snd responses) = Some (request_doc req)"
proof (rule resolve_conflict_winner)
  let ?kb = "object_key_bytes X (wr_key req)" and ?v = "request_doc req"
  obtain acked' failed' w1' where b: "broadcast_write T schedw os req w0 = (Some (Ok (acked', failed')), w1')"
    "distinct acked'" "set acked' \<subseteq> set os"
    "\<And>n kb. peek w1' n kb = (if kb = ?kb \<and> n \<in> set acked' then Some ?v else peek w0 n kb)"
    by (rule broadcast_run [where sched = schedw, OF assms(1-5)]) blast
  then have ack: "distinct acked" "set acked \<subseteq> set os"
    "\<And>n. peek w2 n ?kb = (if n \<in> set acked then Some ?v else peek w0 n ?kb)"
    using assms(7,9) by auto
  obtain responses' where g: "gather_reads T schedr os (wr_key req) w2 = (Some (Ok responses'), w2)"
    "distinct (map fst responses')" "fst ` set responses' \<subseteq> set os"
    "\<forall>(n, d) \<in> set responses'. d = peek w2 n ?kb"
    by (rule gather_run [where sched = schedr and key = "wr_key req", OF assms(8,4,6)]) blast
  then have resp: "distinct (map fst responses)" "set (map fst responses) \<subseteq> set os"
    "\<forall>(n, d) \<in> set responses. d = peek w2 n ?kb" using assms(10) by auto
  have "set acked \<inter> set (map fst responses) \<noteq> {}"
    by (rule quorums_meet [OF ack(1) resp(1) ack(2) resp(2)]) (use assms(11) in simp)
  then obtain n d where "n \<in> set acked" "(n, d) \<in> set responses" by auto
  then have "(n, Some ?v) \<in> set responses" using resp(3) ack(3) [of n] by auto
  then show "?v \<in> set (List.map_filter snd responses)"
    by (force simp: List.map_filter_def)
  show "\<forall>d \<in> set (List.map_filter snd responses). d = ?v \<or> superseded d ?v"
  proof
    fix d assume "d \<in> set (List.map_filter snd responses)"
    then obtain n where "(n, Some d) \<in> set responses" by (auto simp: List.map_filter_def)
    then have "n \<in> set os" "peek w2 n ?kb = Some d" using resp(2,3) by force+
    then show "d = ?v \<or> superseded d ?v" using ack(3) [of n] assms(12) by (auto split: if_splits)
  qed
qed

lemma hints_run:
  assumes "inv w" "co_transport C = T" "distinct failed" "set failed \<subseteq> set os - set acked"
  obtains placed w' where
    "store_sloppy_hints C key doc v h os failed w = (Some (Ok (length placed)), w')" "inv w'" "peek w' = peek w"
    "hints_allowed os (mv_all_nodes (co_membership C)) acked placed"
    "hints w' = hints_after X key \<lparr>vd_document = doc, vd_version = v, vd_hlc = h, vd_is_tombstone = (doc = None)\<rparr>
      placed (hints w)"
proof (cases "failed = []")
  case True
  then show ?thesis
    using assms(1) by (intro that [of "[]" w]) (auto simp: store_sloppy_hints_def act_simps hints_allowed_def hints_after_def)
next
  case False
  let ?req = "\<lambda>f. \<lparr>wr_key = key, wr_doc = doc, wr_version = v, wr_hlc = h,
            wr_is_hint = True, wr_hint_target = Some f\<rparr>"
  let ?fs = "take (min (length failed) (qc_w (co_config C))) failed"
  let ?bs = "filter (\<lambda>n. n \<notin> set os) (mv_all_nodes (co_membership C))"
  obtain placed w' where run: "hint_loop T ?req ?fs ?bs 0 w = (Some (Ok (0 + length placed)), w')" "inv w'"
    "peek w' = peek w" "set placed \<subseteq> set (zip ?fs ?bs)" "distinct ?fs \<longrightarrow> distinct (map fst placed)"
    "hints w' = hints_after X key (request_doc (?req undefined)) placed (hints w)"
    using hint_loop_run [of ?req, OF refl assms(1), of ?fs ?bs 0] by blast
  have "hints_allowed os (mv_all_nodes (co_membership C)) acked placed"
    using run(4,5) assms(3,4)
    by (fastforce simp: hints_allowed_def dest: set_zip_leftD set_zip_rightD in_set_takeD)
  then show ?thesis
    using run False assms(2) by (intro that [of placed w']) (simp_all add: store_sloppy_hints_def Let_def request_doc_def)
qed

end

section \<open>Runs of the coordinator\<close>

text \<open>The version \<open>quorum_write\<close> and \<open>quorum_delete\<close> give a write.\<close>

abbreviation stamped :: "node_id \<Rightarrow> hlc \<Rightarrow> vector_clock" where
  "stamped n h \<equiv> \<lparr>vc_entries = [(n, h)]\<rparr>"

text \<open>What a write stores: the document, or nothing for a delete.\<close>

definition written :: "('w, 'c) coordinator \<Rightarrow> document option \<Rightarrow> hlc \<Rightarrow> versioned_doc" where
  "written C doc h =
    \<lparr>vd_document = doc, vd_version = stamped (co_local_node C) h, vd_hlc = h, vd_is_tombstone = (doc = None)\<rparr>"

definition owners_of :: "rep_ext \<Rightarrow> ('w, 'c) coordinator \<Rightarrow> object_key \<Rightarrow> node_id list" where
  "owners_of X C key = mv_owners_for_key (co_membership C) (object_key_bytes X key) (qc_n (co_config C))"

text \<open>The idempotency key, if there is one, has no live entry.\<close>

definition fresh_key :: "nat \<Rightarrow> string option \<Rightarrow> ('w, 'c) coord_state \<Rightarrow> bool" where
  "fresh_key now ikey s \<longleftrightarrow>
    (case ikey of None \<Rightarrow> True | Some k \<Rightarrow> id_cache (evict_expired now (cs_idem s)) k = None)"

lemma increment_new: "increment n h vc_new = Ok (stamped n h)"
  by (simp add: increment_def vc_new_def raise_entry_def MAX_ENTRIES_def)

lemma stamp_run:
  "co_tick C (cs_clock s) = (Some (Ok h), c') \<Longrightarrow>
    stamp C s = (Some (Ok (h, stamped (co_local_node C) h)), s\<lparr>cs_clock := c'\<rparr>)"
  by (simp add: stamp_def on_clock_def act_simps increment_new act_bind_def act_map_err_def)

lemma cache_result_run:
  "\<exists>s'. cache_result X now ikey doc res s = (Some (Ok res), s') \<and> cs_world s' = cs_world s \<and>
    cs_clock s' = cs_clock s \<and> cs_tasks s' = cs_tasks s"
  by (auto simp: cache_result_def on_idem_def idem_store_def act_bind_def act_try_def act_simps Let_def
      split: option.splits prod.splits sum.splits)

lemma idem_miss:
  assumes "fresh_key now ikey s"
  shows "\<exists>i. (case ikey of None \<Rightarrow> act_ok None | Some k \<Rightarrow> on_idem (idem_get X now k doc)) s =
    (Some (Ok None), s\<lparr>cs_idem := i\<rparr>)"
proof (cases ikey)
  case None
  have "s = s\<lparr>cs_idem := cs_idem s\<rparr>" by simp
  then show ?thesis using None by (metis act_run(1) option.simps(4))
next
  case (Some k)
  then show ?thesis using assms by (auto simp: fresh_key_def on_idem_def idem_get_def Let_def)
qed

text \<open>The result of a read and the repair task it spawns, from the responses it got.\<close>

definition stale_nodes :: "versioned_doc \<Rightarrow> (node_id \<times> versioned_doc option) list \<Rightarrow> node_id list" where
  "stale_nodes winner responses = map fst (filter (\<lambda>(_, doc). is_stale winner doc) responses)"

definition read_outcome ::
  "nat \<Rightarrow> object_key \<Rightarrow> node_id list \<Rightarrow> (node_id \<times> versioned_doc option) list \<Rightarrow>
    (replication_error, read_result) result \<times> repair_task list" where
  "read_outcome r key os responses =
    (if os = [] \<or> length responses < r then (Err (InsufficientReplicas r (length responses)), [])
     else case resolve_conflict (List.map_filter snd responses) of
         None \<Rightarrow> (Ok \<lparr>rr_document = None, rr_version = vc_new, rr_repairs_triggered = 0\<rparr>, [])
       | Some winner \<Rightarrow>
           (Ok \<lparr>rr_document = vd_document winner, rr_version = vd_version winner,
              rr_repairs_triggered = length (stale_nodes winner responses)\<rparr>,
            if stale_nodes winner responses = [] then []
            else [map (\<lambda>n. (n, repair_request key winner)) (stale_nodes winner responses)]))"

lemma stale_nodes_comp: "[node. (node, doc) \<leftarrow> responses, is_stale winner doc] = stale_nodes winner responses"
  by (induction responses) (auto simp: stale_nodes_def)

text \<open>
  What a write reports, from the owners that acknowledged and the number of hints placed: hints are placed only when the
  acknowledgements do not reach \<open>W\<close>, and the write succeeds when both together do.
\<close>

definition write_outcome ::
  "nat \<Rightarrow> vector_clock \<Rightarrow> node_id list \<Rightarrow> nat \<Rightarrow> (replication_error, write_result) result option \<Rightarrow> bool" where
  "write_outcome w v acked placed r \<longleftrightarrow> (w \<le> length acked \<longrightarrow> placed = 0) \<and>
    r = Some (if w \<le> length acked + placed
      then Ok \<lparr>wres_version = v, wres_nodes_acked = length acked, wres_hints_stored = placed\<rparr>
      else Err (InsufficientReplicas w (length acked + placed)))"

text \<open>The two calls that write: \<open>quorum_write\<close> of a document, \<open>quorum_delete\<close>.\<close>

definition client_write ::
  "rep_ext \<Rightarrow> ('w, 'c) coordinator \<Rightarrow> (node_id list \<Rightarrow> node_id list) \<Rightarrow> nat \<Rightarrow> nat \<Rightarrow> object_key \<Rightarrow>
    document option \<Rightarrow> string option \<Rightarrow> (('w, 'c) coord_state, replication_error, write_result) act" where
  "client_write X C sched t_get t_store key doc ikey =
    (case doc of
       Some d \<Rightarrow> quorum_write X C sched t_get t_store key d ikey
     | None \<Rightarrow> quorum_delete X C sched key)"

context replica_transport
begin

lemma quorum_write_run:
  assumes C: "co_transport C = T" and i: "inv (cs_world s)"
    and miss: "fresh_key t_get ikey s"
    and tick: "co_tick C (cs_clock s) = (Some (Ok h), c')"
    and os: "distinct (owners_of X C key)" "mset (sched (owners_of X C key)) = mset (owners_of X C key)"
    and st: "storable X (written C (Some doc) h)"
  obtains acked failed w1 r s' placed where
    "broadcast_write T sched (owners_of X C key) (repair_request key (written C (Some doc) h)) (cs_world s) =
      (Some (Ok (acked, failed)), w1)"
    "quorum_write X C sched t_get t_store key doc ikey s = (r, s')"
    "inv (cs_world s')" "peek (cs_world s') = peek w1" "cs_clock s' = c'"
    "write_outcome (qc_w (co_config C)) (stamped (co_local_node C) h) acked (length placed) r"
    "hints_allowed (owners_of X C key) (mv_all_nodes (co_membership C)) acked placed"
    "hints (cs_world s') = hints_after X key (written C (Some doc) h) placed (hints (cs_world s))"
proof -
  let ?os = "owners_of X C key" and ?req = "repair_request key (written C (Some doc) h)"
    and ?w = "qc_w (co_config C)" and ?v = "stamped (co_local_node C) h"
  have req: "\<not> wr_is_hint ?req" "request_doc ?req = written C (Some doc) h"
    by (simp_all add: repair_request_def request_doc_def written_def)
  obtain acked failed w1 where b:
    "broadcast_write T sched ?os ?req (cs_world s) = (Some (Ok (acked, failed)), w1)" "inv w1"
    "set failed \<subseteq> set ?os - set acked" "distinct failed" "hints w1 = hints (cs_world s)"
    by (rule broadcast_run [where sched = sched, OF i req(1) _ os]) (use st req(2) in auto)
  obtain i' where g: "(case ikey of None \<Rightarrow> act_ok None | Some k \<Rightarrow> on_idem (idem_get X t_get k doc)) s =
    (Some (Ok None), s\<lparr>cs_idem := i'\<rparr>)" using idem_miss [OF miss] by blast
  let ?s1 = "s\<lparr>cs_idem := i', cs_clock := c'\<rparr>"
  have sr: "stamp C (s\<lparr>cs_idem := i'\<rparr>) = (Some (Ok (h, ?v)), ?s1)"
    using stamp_run [of C "s\<lparr>cs_idem := i'\<rparr>"] tick by simp
  have br: "on_world (broadcast_write T sched ?os \<lparr>wr_key = key, wr_doc = Some doc, wr_version = ?v,
      wr_hlc = h, wr_is_hint = False, wr_hint_target = None\<rparr>) ?s1 =
    (Some (Ok (acked, failed)), ?s1\<lparr>cs_world := w1\<rparr>)"
    using b(1) by (simp add: on_world_def repair_request_def written_def)
  obtain hs w2 where hr: "store_sloppy_hints C key (Some doc) ?v h ?os failed w1 = (Some (Ok (length hs)), w2)"
    "inv w2" "peek w2 = peek w1" "hints_allowed ?os (mv_all_nodes (co_membership C)) acked hs"
    "hints w2 = hints_after X key (written C (Some doc) h) hs (hints w1)"
    using hints_run [OF b(2) C b(4), of ?os acked key "Some doc" ?v h] b(3) by (auto simp: written_def)
  let ?placed = "if ?w \<le> length acked then [] else hs"
  define tail where "tail = (if ?w \<le> length acked
    then cache_result X t_store ikey doc
      \<lparr>wres_version = ?v, wres_nodes_acked = length acked, wres_hints_stored = 0\<rparr> (?s1\<lparr>cs_world := w1\<rparr>)
    else if ?w \<le> length acked + length hs
    then cache_result X t_store ikey doc
      \<lparr>wres_version = ?v, wres_nodes_acked = length acked, wres_hints_stored = length hs\<rparr> (?s1\<lparr>cs_world := w2\<rparr>)
    else (Some (Err (InsufficientReplicas ?w (length acked + length hs))), ?s1\<lparr>cs_world := w2\<rparr>))"
  have run: "quorum_write X C sched t_get t_store key doc ikey s = tail"
    unfolding quorum_write_def owners_of_def [symmetric] C
    using hr(1) by (simp add: act_bind_def g sr br Let_def tail_def on_world_def [of "store_sloppy_hints _ _ _ _ _ _ _"]
        act_err_def)
  let ?res = "\<lambda>n. \<lparr>wres_version = ?v, wres_nodes_acked = length acked, wres_hints_stored = n\<rparr>"
  obtain sa sb where ca:
    "cache_result X t_store ikey doc (?res 0) (?s1\<lparr>cs_world := w1\<rparr>) = (Some (Ok (?res 0)), sa)"
    "cs_world sa = w1" "cs_clock sa = c'"
    "cache_result X t_store ikey doc (?res (length hs)) (?s1\<lparr>cs_world := w2\<rparr>) = (Some (Ok (?res (length hs))), sb)"
    "cs_world sb = w2" "cs_clock sb = c'"
    using cache_result_run [of X t_store ikey doc "?res 0" "?s1\<lparr>cs_world := w1\<rparr>"]
      cache_result_run [of X t_store ikey doc "?res (length hs)" "?s1\<lparr>cs_world := w2\<rparr>"] by auto
  have "inv (cs_world (snd tail)) \<and> peek (cs_world (snd tail)) = peek w1 \<and> cs_clock (snd tail) = c' \<and>
    write_outcome ?w ?v acked (length ?placed) (fst tail) \<and>
    hints (cs_world (snd tail)) = hints_after X key (written C (Some doc) h) ?placed (hints (cs_world s))"
    using ca b(2,5) hr(2,3,5) by (simp add: tail_def write_outcome_def hints_after_def)
  moreover have "hints_allowed ?os (mv_all_nodes (co_membership C)) acked ?placed"
    using hr(4) by (simp add: hints_allowed_def)
  ultimately show ?thesis using that [OF b(1), of "fst tail" "snd tail" ?placed] run by simp
qed

lemma quorum_delete_run:
  assumes C: "co_transport C = T" and i: "inv (cs_world s)"
    and tick: "co_tick C (cs_clock s) = (Some (Ok h), c')"
    and os: "distinct (owners_of X C key)" "mset (sched (owners_of X C key)) = mset (owners_of X C key)"
    and st: "storable X (written C None h)"
  obtains acked failed w1 r s' placed where
    "broadcast_write T sched (owners_of X C key) (repair_request key (written C None h)) (cs_world s) =
      (Some (Ok (acked, failed)), w1)"
    "quorum_delete X C sched key s = (r, s')"
    "inv (cs_world s')" "peek (cs_world s') = peek w1" "cs_clock s' = c'"
    "write_outcome (qc_w (co_config C)) (stamped (co_local_node C) h) acked (length placed) r"
    "hints_allowed (owners_of X C key) (mv_all_nodes (co_membership C)) acked placed"
    "hints (cs_world s') = hints_after X key (written C None h) placed (hints (cs_world s))"
proof -
  let ?os = "owners_of X C key" and ?req = "repair_request key (written C None h)"
    and ?w = "qc_w (co_config C)" and ?v = "stamped (co_local_node C) h"
  have req: "\<not> wr_is_hint ?req" "request_doc ?req = written C None h"
    by (simp_all add: repair_request_def request_doc_def written_def)
  obtain acked failed w1 where b:
    "broadcast_write T sched ?os ?req (cs_world s) = (Some (Ok (acked, failed)), w1)" "inv w1"
    "set failed \<subseteq> set ?os - set acked" "distinct failed" "hints w1 = hints (cs_world s)"
    by (rule broadcast_run [where sched = sched, OF i req(1) _ os]) (use st req(2) in auto)
  let ?s1 = "s\<lparr>cs_clock := c'\<rparr>"
  have br: "on_world (broadcast_write T sched ?os \<lparr>wr_key = key, wr_doc = None, wr_version = ?v,
      wr_hlc = h, wr_is_hint = False, wr_hint_target = None\<rparr>) ?s1 =
    (Some (Ok (acked, failed)), ?s1\<lparr>cs_world := w1\<rparr>)"
    using b(1) by (simp add: on_world_def repair_request_def written_def)
  obtain hs w2 where hr: "store_sloppy_hints C key None ?v h ?os failed w1 = (Some (Ok (length hs)), w2)"
    "inv w2" "peek w2 = peek w1" "hints_allowed ?os (mv_all_nodes (co_membership C)) acked hs"
    "hints w2 = hints_after X key (written C None h) hs (hints w1)"
    using hints_run [OF b(2) C b(4), of ?os acked key "None" ?v h] b(3) by (auto simp: written_def)
  let ?res = "\<lambda>n. \<lparr>wres_version = ?v, wres_nodes_acked = length acked, wres_hints_stored = n\<rparr>"
  let ?placed = "if ?w \<le> length acked then [] else hs"
  define tail where "tail = (if ?w \<le> length acked then (Some (Ok (?res 0)), ?s1\<lparr>cs_world := w1\<rparr>)
    else if ?w \<le> length acked + length hs then (Some (Ok (?res (length hs))), ?s1\<lparr>cs_world := w2\<rparr>)
    else (Some (Err (InsufficientReplicas ?w (length acked + length hs))), ?s1\<lparr>cs_world := w2\<rparr>))"
  have run: "quorum_delete X C sched key s = tail"
    unfolding quorum_delete_def owners_of_def [symmetric] C
    using hr(1) by (simp add: act_bind_def stamp_run [OF tick] br Let_def tail_def
        on_world_def [of "store_sloppy_hints _ _ _ _ _ _ _"] act_err_def act_ok_def)
  have "inv (cs_world (snd tail)) \<and> peek (cs_world (snd tail)) = peek w1 \<and> cs_clock (snd tail) = c' \<and>
    write_outcome ?w ?v acked (length ?placed) (fst tail) \<and>
    hints (cs_world (snd tail)) = hints_after X key (written C None h) ?placed (hints (cs_world s))"
    using b(2,5) hr(2,3,5) by (simp add: tail_def write_outcome_def hints_after_def)
  moreover have "hints_allowed ?os (mv_all_nodes (co_membership C)) acked ?placed"
    using hr(4) by (simp add: hints_allowed_def)
  ultimately show ?thesis using that [OF b(1), of "fst tail" "snd tail" ?placed] run by simp
qed

lemma client_write_run:
  assumes C: "co_transport C = T" and i: "inv (cs_world s)"
    and miss: "fresh_key t_get ikey s"
    and tick: "co_tick C (cs_clock s) = (Some (Ok h), c')"
    and os: "distinct (owners_of X C key)" "mset (sched (owners_of X C key)) = mset (owners_of X C key)"
    and st: "storable X (written C doc h)"
  obtains acked failed w1 r s' placed where
    "broadcast_write T sched (owners_of X C key) (repair_request key (written C doc h)) (cs_world s) =
      (Some (Ok (acked, failed)), w1)"
    "client_write X C sched t_get t_store key doc ikey s = (r, s')"
    "inv (cs_world s')" "peek (cs_world s') = peek w1" "cs_clock s' = c'"
    "write_outcome (qc_w (co_config C)) (stamped (co_local_node C) h) acked (length placed) r"
    "hints_allowed (owners_of X C key) (mv_all_nodes (co_membership C)) acked placed"
    "hints (cs_world s') = hints_after X key (written C doc h) placed (hints (cs_world s))"
proof (cases doc)
  case None
  show ?thesis using st that unfolding None client_write_def option.case
    by (rule quorum_delete_run [where sched = sched, OF C i tick os])
next
  case (Some d)
  show ?thesis using st that unfolding Some client_write_def option.case
    by (rule quorum_write_run [where sched = sched, OF C i miss tick os])
qed

text \<open>What \<open>quorum_read\<close> computes from the responses.\<close>

lemma quorum_read_run:
  assumes C: "co_transport C = T" and i: "inv (cs_world s)"
    and os: "distinct (owners_of X C key)" "mset (sched (owners_of X C key)) = mset (owners_of X C key)"
  obtains responses ro where
    "gather_reads T sched (owners_of X C key) key (cs_world s) = (Some (Ok responses), cs_world s)"
    "ro = read_outcome (qc_r (co_config C)) key (owners_of X C key) responses"
    "quorum_read X C sched key s = (Some (fst ro), s\<lparr>cs_tasks := cs_tasks s @ snd ro\<rparr>)"
proof -
  let ?os = "owners_of X C key" and ?r = "qc_r (co_config C)"
  obtain responses where g: "gather_reads T sched ?os key (cs_world s) = (Some (Ok responses), cs_world s)"
    "fst ` set responses \<subseteq> set ?os"
    using gather_run [where sched = sched, OF i os] by metis
  have w: "on_world (gather_reads T sched ?os key) s = (Some (Ok responses), s)"
    using g(1) by (simp add: on_world_def)
  have sp: "(if st = [] then act_ok () else spawn_task (map f st)) s =
      (Some (Ok ()), s\<lparr>cs_tasks := cs_tasks s @ (if st = [] then [] else [map f st])\<rparr>)" for st :: "node_id list" and f
    by (simp add: act_simps spawn_task_def)
  show ?thesis
  proof (rule that [OF g(1) refl], cases "?os = []")
    case True
    then show "quorum_read X C sched key s = (Some (fst (read_outcome ?r key ?os responses)),
        s\<lparr>cs_tasks := cs_tasks s @ snd (read_outcome ?r key ?os responses)\<rparr>)"
      using g(2) by (simp add: quorum_read_def owners_of_def read_outcome_def act_simps)
  next
    case False
    then show "quorum_read X C sched key s = (Some (fst (read_outcome ?r key ?os responses)),
        s\<lparr>cs_tasks := cs_tasks s @ snd (read_outcome ?r key ?os responses)\<rparr>)"
      unfolding quorum_read_def owners_of_def [symmetric] C stale_nodes_comp
      by (simp add: Let_def act_bind_def w read_outcome_def act_run sp
          split: option.split)
  qed
qed

end

context reachable_transport
begin

lemma run_repair_run:
  assumes "inv w" "\<not> wr_is_hint req" "storable X (request_doc req)" "\<forall>n \<in> set ns. up w n"
  shows "\<exists>w'. run_repair T (map (\<lambda>n. (n, req)) ns) w = (Some (Ok ()), w') \<and> inv w' \<and>
    (\<forall>n kb. peek w' n kb = (if kb = object_key_bytes X (wr_key req) \<and> n \<in> set ns
      then Some (request_doc req) else peek w n kb))"
  using assms(1,4)
proof (induction ns arbitrary: w)
  case (Cons n ns)
  obtain resp w1 where t: "t_write T n req w = (Some (Ok resp), w1)"
    using up_write [OF Cons.prems(1) _ assms(2,3), of n] Cons.prems(2) by (metis list.set_intros(1) prod.collapse)
  then have i1: "inv w1" "up w1 = up w" "peek w1 = (peek w)(n := (peek w n)(object_key_bytes X (wr_key req) \<mapsto> request_doc req))"
    using write_inv [OF Cons.prems(1), of n req] up_stable [OF Cons.prems(1), of n req]
      write_ok [OF Cons.prems(1) assms(2,3) t] by simp_all
  obtain w' where w': "run_repair T (map (\<lambda>n. (n, req)) ns) w1 = (Some (Ok ()), w')" "inv w'"
    "\<forall>n kb. peek w' n kb = (if kb = object_key_bytes X (wr_key req) \<and> n \<in> set ns
      then Some (request_doc req) else peek w1 n kb)" using Cons.IH [OF i1(1)] Cons.prems(2) i1(2) by auto
  have "run_repair T (map (\<lambda>n. (n, req)) (n # ns)) w = (Some (Ok ()), w')"
    using t w'(1) by (simp add: act_bind_def act_try_def)
  then show ?case using w'(2,3) i1(3) by auto
qed (simp add: act_simps)

end

text \<open>Versions of single writes.\<close>

lemma stamped_le_iff: "vc_le (stamped n h) (stamped m k) \<longleftrightarrow> h = hlc_zero \<or> (n = m \<and> h \<le> k)"
  by (auto simp: vc_le_on_nodes hlc_or_zero_def vc_get_def bt_get_def antisym)

lemma compare_stamped_same:
  "vc_compare (stamped n h) (stamped n k) = (if h < k then Before else if k < h then After else Equal)"
  by (auto simp: vc_compare_eq stamped_le_iff not_less dest: antisym)

lemma compare_stamped_other:
  "n \<noteq> m \<Longrightarrow> hlc_zero < h \<Longrightarrow> hlc_zero < k \<Longrightarrow> vc_compare (stamped n h) (stamped m k) = Concurrent"
  by (auto simp: vc_compare_eq stamped_le_iff)

end
