(* ===== verification/Quorum.thy ===== *)
theory Quorum
  imports Coordinator
begin

text \<open>
  What quorum reads and writes promise, on a simulated network of in-memory
  replicas: a client reads its own writes, what a write reports is what the owners
  hold, conflicts are resolved by the rules of \<open>resolve_conflict\<close>, repeated writes
  under one idempotency key have one effect, and read repair brings the stale
  replicas up to date; and where the promises end.
\<close>

section \<open>Properties\<close>

text \<open>The replicas depend on the registered stores only, not on the faults of the network.\<close>

lemma net_faults:
  assumes "nw_nodes M = nw_nodes N"
  shows "net_inv I M = net_inv I N" "net_peek X view M = net_peek X view N"
  using assms by (simp_all add: net_inv_def fun_eq_iff net_peek_def)

lemma net_hints_faults: "nw_nodes M = nw_nodes N \<Longrightarrow> net_hints view M = net_hints view N"
  by (simp add: fun_eq_iff net_hints_def hints_at_def)

lemma read_outcome_winner:
  assumes "os \<noteq> []" "r \<le> length responses"
    and "resolve_conflict (List.map_filter snd responses) = Some v"
  shows "\<exists>rres. fst (read_outcome r key os responses) = Ok rres \<and>
    rr_document rres = vd_document v \<and> rr_version rres = vd_version v"
  using assms by (simp add: read_outcome_def)

text \<open>
  C1: a client reads its own write.  When \<open>quorum_write\<close> or \<open>quorum_delete\<close> succeeded with \<open>W\<close> or more
  owners (no hints) over a simulated network of in-memory replicas, every version
  the owners held before gives way to the written one, and \<open>R + W > N\<close>, then a
  later \<open>quorum_read\<close> returns exactly the written document (none after a delete) and version or reports
  too few replicas, whatever nodes went down or came up in between and in whatever
  order the replicas answered.
\<close>

theorem read_your_write:
  fixes C :: "(mem_engine network, 'c) coordinator"
  assumes "co_transport C = transport_for X MemEngine src"
    and "qc_n (co_config C) < qc_r (co_config C) + qc_w (co_config C)"
    and "distinct (owners_of X C key)" "length (owners_of X C key) \<le> qc_n (co_config C)"
    and "mset (sched1 (owners_of X C key)) = mset (owners_of X C key)"
    and "mset (sched2 (owners_of X C key)) = mset (owners_of X C key)"
    and "net_inv mem_inv (cs_world s)"
    and "fresh_key t_get ikey s"
    and "co_tick C (cs_clock s) = (Some (Ok h), c')"
    and "storable X (written C doc h)"
    and "\<forall>n \<in> set (owners_of X C key). \<forall>d.
      net_peek X mem_view (cs_world s) n (object_key_bytes X key) = Some d \<longrightarrow>
      superseded d (written C doc h)"
    and "client_write X C sched1 t_get t_store key doc ikey s = (Some (Ok res), s1)"
    and "wres_hints_stored res = 0"
    and "nw_nodes (cs_world s2) = nw_nodes (cs_world s1)"
  shows "(\<exists>rres. fst (quorum_read X C sched2 key s2) = Some (Ok rres) \<and>
      rr_document rres = doc \<and> rr_version rres = wres_version res) \<or>
    (\<exists>k < qc_r (co_config C). fst (quorum_read X C sched2 key s2) =
      Some (Err (InsufficientReplicas (qc_r (co_config C)) k)))"
proof -
  let ?v = "written C doc h" and ?os = "owners_of X C key"
  let ?req = "repair_request key ?v" and ?r = "qc_r (co_config C)" and ?T = "transport_for X MemEngine src"
  have req: "\<not> wr_is_hint ?req" "request_doc ?req = ?v" "wr_key ?req = key"
    by (simp_all add: repair_request_def request_doc_def written_def)
  obtain acked failed w1 r s' placed where q:
    "broadcast_write ?T sched1 ?os ?req (cs_world s) = (Some (Ok (acked, failed)), w1)"
    "client_write X C sched1 t_get t_store key doc ikey s = (r, s')"
    "net_inv mem_inv (cs_world s')" "net_peek X mem_view (cs_world s') = net_peek X mem_view w1" "cs_clock s' = c'"
    "write_outcome (qc_w (co_config C)) (stamped (co_local_node C) h) acked (length placed) r"
    "hints_allowed ?os (mv_all_nodes (co_membership C)) acked placed"
    "net_hints mem_view (cs_world s') = hints_after X key (written C doc h) placed (net_hints mem_view (cs_world s))"
    by (rule simnet.client_write_run [where sched = sched1, OF assms(1,7-9,3,5,10), of t_store])
  have b: "broadcast_write ?T sched1 ?os ?req (cs_world s) = (Some (Ok (acked, failed)), w1)"
    "net_inv mem_inv (cs_world s1)" "net_peek X mem_view (cs_world s1) = net_peek X mem_view w1"
    "write_outcome (qc_w (co_config C)) (stamped (co_local_node C) h) acked (length placed) (Some (Ok res))"
    using q(1-4,6) assms(12) by simp_all
  have ack: "qc_w (co_config C) \<le> length acked" "wres_version res = vd_version ?v"
    using b(4) assms(13) by (auto simp: write_outcome_def written_def split: if_splits)
  have s2: "net_inv mem_inv (cs_world s2)" "net_peek X mem_view (cs_world s2) = net_peek X mem_view w1"
    using b(2,3) net_faults [OF assms(14)] by simp_all
  obtain responses ro where g:
    "gather_reads ?T sched2 ?os key (cs_world s2) = (Some (Ok responses), cs_world s2)"
    "ro = read_outcome ?r key ?os responses" "fst (quorum_read X C sched2 key s2) = Some (fst ro)"
    using simnet.quorum_read_run [where sched = sched2, OF assms(1) s2(1) assms(3,6)] by (metis fst_conv)
  show ?thesis
  proof (cases "?os = [] \<or> length responses < ?r")
    case True
    have "?os = [] \<Longrightarrow> responses = []" using g(1) assms(6) by (auto simp: gather_reads_def)
    moreover have "?os = [] \<Longrightarrow> acked = []" using b(1) assms(5) by (auto simp: broadcast_write_def)
    ultimately have "length responses < ?r" using True assms(2) ack(1) by auto
    then show ?thesis using True g(2,3) by (auto simp: read_outcome_def)
  next
    case False
    then have "resolve_conflict (List.map_filter snd responses) = Some (request_doc ?req)"
      using simnet.read_after_ack [where schedw = sched1 and schedr = sched2,
          OF assms(7) req(1) _ assms(3,5,6) b(1) s2] req assms(2,4,10,11) g(1) ack(1) by simp
    then show ?thesis using read_outcome_winner [of ?os ?r responses ?v key] False g(2,3) ack(2) req(2)
      by (auto simp: written_def)
  qed
qed


text \<open>
  A cluster of three in-memory replicas with one owner unreachable: the coordinator
  on node 1 holds the documents \<open>0\<close> (deleted) and \<open>1\<close> (live) of the key.
\<close>

definition demo_doc :: document where
  "demo_doc = \<lparr>doc_id = ObjectId 7, doc_data = VObject []\<rparr>"

definition demo_key :: object_key where
  "demo_key = \<lparr>ok_collection = [], ok_object_id = ObjectId 7\<rparr>"

definition demo_tomb :: versioned_doc where
  "demo_tomb = tombstone (stamped (NodeId 2) (Hlc 5)) (Hlc 5)"

definition demo_live :: versioned_doc where
  "demo_live = versioned_new demo_doc (stamped (NodeId 1) (Hlc 9)) (Hlc 9)"

definition demo_ext :: rep_ext where
  "demo_ext = \<lparr>uuid_show = (\<lambda>_. []), uuid_parse = (\<lambda>_. None),
    ser_versioned = (\<lambda>d. Ok (if d = demo_tomb then [0] else if d = demo_live then [1] else [2])),
    de_versioned = (\<lambda>bs. if bs = [0] then Ok demo_tomb else if bs = [1] then Ok demo_live else Err []),
    ser_hint = (\<lambda>_. Ok [3]), de_hint = (\<lambda>_. Ok \<lparr>hv_key = demo_key, hv_versioned = demo_live\<rparr>),
    ser_document = (\<lambda>d. Ok (if d = demo_doc then [4] else [5]))\<rparr>"

definition demo_net :: "mem_engine network" where
  "demo_net = fold (\<lambda>n. register_node \<lparr>rs_node_id = NodeId n, rs_storage = mem_new\<rparr>) [1, 2, 3, 4] network_new"

text \<open>A coordinator on node \<open>n\<close> whose clock is a counter.\<close>

definition demo_coordinator :: "u128 \<Rightarrow> (mem_engine network, u64) coordinator" where
  "demo_coordinator n = coordinator_new (NodeId n)
    \<lparr>mv_local_node = NodeId n, mv_owners_for_key = (\<lambda>_ k. take k [NodeId 1, NodeId 2, NodeId 3]),
     mv_all_nodes = [NodeId 1, NodeId 2, NodeId 3, NodeId 4]\<rparr>
    (transport_for demo_ext MemEngine (NodeId n)) (\<lambda>c. (Some (Ok (Hlc c)), c + 1)) quorum_config_default"

definition demo_state :: "mem_engine network \<Rightarrow> u64 \<Rightarrow> (mem_engine network, u64) coord_state" where
  "demo_state N c = \<lparr>cs_world = N, cs_clock = c, cs_idem = idem_new, cs_tasks = []\<rparr>"

lemma demo_net_inv: "net_inv mem_inv demo_net"
  by (auto simp: net_inv_def demo_net_def register_node_def network_new_def mem_inv_new split: if_splits)

lemma demo_storable: "storable demo_ext demo_live" "storable demo_ext demo_tomb"
  by (simp_all add: storable_def demo_ext_def demo_live_def demo_tomb_def tombstone_def versioned_new_def)

lemma demo_owners: "owners_of demo_ext (demo_coordinator n) key = [NodeId 1, NodeId 2, NodeId 3]"
  by (simp add: owners_of_def demo_coordinator_def coordinator_new_def quorum_config_default_def)

lemma demo_written: "written (demo_coordinator 1) (Some demo_doc) (Hlc 9) = demo_live"
  by (simp add: written_def demo_live_def versioned_new_def demo_coordinator_def coordinator_new_def)

text \<open>The three owners hold the tombstone; node 3 misses the write and node 2 the read.\<close>

definition tomb_store :: "u128 \<Rightarrow> mem_engine replica_store" where
  "tomb_store n = \<lparr>rs_node_id = NodeId n, rs_storage =
    mem_new\<lparr>mem_cfs := (mem_cfs mem_new)(CF_DEFAULT \<mapsto> [(object_key_bytes demo_ext demo_key, [0])])\<rparr>\<rparr>"

definition tomb_net :: "mem_engine network" where
  "tomb_net = fold (\<lambda>n. register_node (tomb_store n)) [1, 2, 3] network_new"

definition tomb_write :: "(replication_error, write_result) result option \<times> (mem_engine network, u64) coord_state" where
  "tomb_write = quorum_write demo_ext (demo_coordinator 1) id 0 0 demo_key demo_doc None
    (demo_state (set_node_down (NodeId 3) tomb_net) 9)"

definition tomb_later :: "(mem_engine network, u64) coord_state \<Rightarrow> (mem_engine network, u64) coord_state" where
  "tomb_later s = s\<lparr>cs_world := set_node_down (NodeId 2) (set_node_up (NodeId 3) (cs_world s))\<rparr>"

text \<open>The definitions a run of the cluster unfolds.\<close>

lemmas demo_eval = demo_state_def set_node_down_def set_node_up_def demo_net_def tomb_net_def tomb_store_def tomb_later_def
  register_node_def network_new_def demo_coordinator_def coordinator_new_def quorum_config_default_def
  quorum_write_def quorum_read_def gather_reads_def demo_key_def demo_doc_def stamp_def broadcast_write_def cache_result_def
  on_clock_def on_world_def on_idem_def act_bind_def act_ok_def act_map_err_def act_of_result_def act_try_def spawn_task_def transport_for_def
  sim_write_def sim_read_def resolve_target_def on_store_def handle_write_def handle_delete_def handle_read_def increment_new
  mem_new_def init_cf_map_def demo_ext_def cf_all_def CF_DEFAULT_def CF_METADATA_def CF_INDEXES_def CF_TOMBSTONES_def
  CF_HINTS_def CF_SYSTEM_def MemEngine_def mem_put_def mem_get_def validate_cf_name_def object_key_bytes_def show_oid_def
  demo_tomb_def demo_live_def tombstone_def versioned_new_def net_peek_def mem_view_def de_row_def as_bytes_def
  idem_get_def idem_store_def evict_expired_def idem_new_def Let_def resolve_conflict_def resolve_two_def is_stale_def
  compare_stamped_same compare_stamped_other hlc_order_defs hlc_zero_def List.map_filter_def

definition demo_write :: "(replication_error, write_result) result option \<times> (mem_engine network, u64) coord_state" where
  "demo_write = quorum_write demo_ext (demo_coordinator 1) id 0 0 demo_key demo_doc (Some ''i'')
    (demo_state (set_node_down (NodeId 3) demo_net) 9)"

lemma demo_write_run: "\<exists>s1. demo_write = (Some (Ok \<lparr>wres_version = stamped (NodeId 1) (Hlc 9),
  wres_nodes_acked = 2, wres_hints_stored = 0\<rparr>), s1)"
proof -
  have "fst demo_write = Some (Ok \<lparr>wres_version = stamped (NodeId 1) (Hlc 9),
      wres_nodes_acked = 2, wres_hints_stored = 0\<rparr>)"
    by (simp add: demo_write_def demo_eval)
  then show ?thesis by (metis prod.collapse)
qed


lemma demo_peek: "net_peek X mem_view demo_net n kb = None"
  by (simp add: net_peek_def demo_net_def register_node_def network_new_def mem_new_def mem_view_def
      init_cf_map_def cf_all_def CF_DEFAULT_def CF_METADATA_def CF_INDEXES_def CF_TOMBSTONES_def
      CF_HINTS_def CF_SYSTEM_def de_row_def)

lemma demo_faults: "nw_nodes (set_node_down n N) = nw_nodes N" "nw_nodes (set_node_up n N) = nw_nodes N"
  by (simp_all add: set_node_down_def set_node_up_def)

lemma demo_idem: "id_cache (evict_expired now idem_new) k = None"
  by (simp add: evict_expired_def idem_new_def)

lemma demo_coordinator_fields:
  "co_transport (demo_coordinator n) = transport_for demo_ext MemEngine (NodeId n)"
  "co_tick (demo_coordinator n) c = (Some (Ok (Hlc c)), c + 1)"
  "co_local_node (demo_coordinator n) = NodeId n"
  "qc_n (co_config (demo_coordinator n)) = 3" "qc_r (co_config (demo_coordinator n)) = 2"
  "qc_w (co_config (demo_coordinator n)) = 2"
  by (simp_all add: demo_coordinator_def coordinator_new_def quorum_config_default_def)

lemma demo_coordinator_nodes: "mv_all_nodes (co_membership (demo_coordinator n)) = [NodeId 1, NodeId 2, NodeId 3, NodeId 4]"
  by (simp add: demo_coordinator_def coordinator_new_def)

theorem read_your_write_witness:
  "\<exists>s1 v. demo_write = (Some (Ok \<lparr>wres_version = v, wres_nodes_acked = 2, wres_hints_stored = 0\<rparr>), s1) \<and>
    (let s2 = s1\<lparr>cs_world := set_node_down (NodeId 1) (set_node_up (NodeId 3) (cs_world s1))\<rparr>;
         r = fst (quorum_read demo_ext (demo_coordinator 1) rev demo_key s2)
     in (\<exists>rres. r = Some (Ok rres) \<and> rr_document rres = Some demo_doc \<and> rr_version rres = v) \<or>
        (\<exists>k < 2. r = Some (Err (InsufficientReplicas 2 k))))"
proof -
  let ?C = "demo_coordinator 1" and ?s = "demo_state (set_node_down (NodeId 3) demo_net) 9"
  let ?res = "\<lparr>wres_version = stamped (NodeId 1) (Hlc 9), wres_nodes_acked = 2, wres_hints_stored = 0\<rparr>"
  obtain s1 where w: "demo_write = (Some (Ok ?res), s1)" using demo_write_run by blast
  let ?s2 = "s1\<lparr>cs_world := set_node_down (NodeId 1) (set_node_up (NodeId 3) (cs_world s1))\<rparr>"
  let ?r = "fst (quorum_read demo_ext ?C rev demo_key ?s2)"
  have "(\<exists>rres. ?r = Some (Ok rres) \<and> rr_document rres = Some demo_doc \<and> rr_version rres = wres_version ?res) \<or>
      (\<exists>k < qc_r (co_config ?C). ?r = Some (Err (InsufficientReplicas (qc_r (co_config ?C)) k)))"
  proof (rule read_your_write [where s = ?s and c' = 10 and h = "Hlc 9" and ?sched1.0 = id])
    show "net_inv mem_inv (cs_world ?s)"
      by (simp add: demo_state_def demo_idem demo_net_inv net_faults(1) [OF demo_faults(1)])
    show "\<forall>n \<in> set (owners_of demo_ext ?C demo_key). \<forall>d.
      net_peek demo_ext mem_view (cs_world ?s) n (object_key_bytes demo_ext demo_key) = Some d \<longrightarrow>
      superseded d (written ?C (Some demo_doc) (Hlc 9))"
      by (simp add: demo_state_def demo_peek net_faults(2) [OF demo_faults(1)])
    show "client_write demo_ext ?C id 0 0 demo_key (Some demo_doc) (Some ''i'') ?s = (Some (Ok ?res), s1)"
      using w by (simp add: demo_write_def client_write_def)
  qed (simp_all add: demo_coordinator_fields demo_owners demo_storable demo_written fresh_key_def
      demo_state_def demo_idem demo_faults)
  then show ?thesis using w by (auto simp: Let_def demo_coordinator_fields)
qed

lemma write_effect:
  fixes C :: "(mem_engine network, 'c) coordinator"
  assumes "co_transport C = transport_for X MemEngine src"
    and "distinct (owners_of X C key)" "mset (sched (owners_of X C key)) = mset (owners_of X C key)"
    and "net_inv mem_inv (cs_world s)"
    and "fresh_key t_get ikey s"
    and "co_tick C (cs_clock s) = (Some (Ok h), c')"
    and "storable X (written C doc h)"
  shows "\<exists>acked placed r s'. client_write X C sched t_get t_store key doc ikey s = (r, s') \<and>
    distinct acked \<and> set acked \<subseteq> set (owners_of X C key) \<and>
    hints_allowed (owners_of X C key) (mv_all_nodes (co_membership C)) acked placed \<and>
    write_outcome (qc_w (co_config C)) (stamped (co_local_node C) h) acked (length placed) r \<and>
    net_inv mem_inv (cs_world s') \<and> cs_clock s' = c' \<and>
    (\<forall>n kb. net_peek X mem_view (cs_world s') n kb =
      (if kb = object_key_bytes X key \<and> n \<in> set acked then Some (written C doc h)
       else net_peek X mem_view (cs_world s) n kb)) \<and>
    net_hints mem_view (cs_world s') = hints_after X key (written C doc h) placed (net_hints mem_view (cs_world s))"
proof -
  let ?req = "repair_request key (written C doc h)" and ?T = "transport_for X MemEngine src"
  have req: "\<not> wr_is_hint ?req" "request_doc ?req = written C doc h" "wr_key ?req = key"
    by (simp_all add: repair_request_def request_doc_def written_def)
  obtain acked failed w1 r s' placed where q:
    "broadcast_write ?T sched (owners_of X C key) ?req (cs_world s) = (Some (Ok (acked, failed)), w1)"
    "client_write X C sched t_get t_store key doc ikey s = (r, s')"
    "net_inv mem_inv (cs_world s')" "net_peek X mem_view (cs_world s') = net_peek X mem_view w1"
    "cs_clock s' = c'" "write_outcome (qc_w (co_config C)) (stamped (co_local_node C) h) acked (length placed) r"
    "hints_allowed (owners_of X C key) (mv_all_nodes (co_membership C)) acked placed"
    "net_hints mem_view (cs_world s') = hints_after X key (written C doc h) placed (net_hints mem_view (cs_world s))"
    by (rule simnet.client_write_run [where sched = sched, OF assms(1,4-6,2,3,7), of t_store])
  have st: "storable X (request_doc ?req)" using assms(7) req(2) by simp
  obtain acked' failed' w1' where b:
    "broadcast_write ?T sched (owners_of X C key) ?req (cs_world s) = (Some (Ok (acked', failed')), w1')"
    "distinct acked'" "set acked' \<subseteq> set (owners_of X C key)"
    "\<And>n kb. net_peek X mem_view w1' n kb = (if kb = object_key_bytes X (wr_key ?req) \<and> n \<in> set acked'
      then Some (request_doc ?req) else net_peek X mem_view (cs_world s) n kb)"
    by (rule simnet.broadcast_run [where sched = sched, OF assms(4) req(1) st assms(2,3)]) blast
  have "acked' = acked" "w1' = w1" using b(1) q(1) by auto
  then have "\<forall>n kb. net_peek X mem_view (cs_world s') n kb =
      (if kb = object_key_bytes X key \<and> n \<in> set acked then Some (written C doc h)
       else net_peek X mem_view (cs_world s) n kb)" "distinct acked" "set acked \<subseteq> set (owners_of X C key)"
    using q(4) b(2-4) req(2,3) by auto
  then show ?thesis using q(2,3,5-8) by blast
qed

text \<open>
  C14: what a write reports is what the nodes hold.  Every \<open>quorum_write\<close> and \<open>quorum_delete\<close> that gets
  a timestamp, under an idempotency key not in use and with a version that JSON keeps, ends without panic and
  accounts exactly for what it stored.  Some owners acknowledge: exactly these hold the new version afterwards, also
  when the write then fails, and no other replica of the key or of another key changes.  When they are fewer than \<open>W\<close>,
  hints are placed, each for a different owner that did not acknowledge and on a node that is not an owner: exactly
  these hints are stored, with the key's name, the timestamp and the version of the write, and no other hint anywhere
  changes; when the owners reach \<open>W\<close>, no hint is placed.  If both together reach \<open>W\<close>, the write succeeds and reports the
  two numbers, otherwise it fails with \<open>InsufficientReplicas\<close> and their sum.
\<close>

theorem quorum_write_accounting:
  fixes C :: "(mem_engine network, 'c) coordinator"
  assumes "co_transport C = transport_for X MemEngine src"
    and "distinct (owners_of X C key)" "mset (sched (owners_of X C key)) = mset (owners_of X C key)"
    and "net_inv mem_inv (cs_world s)"
    and "fresh_key t_get ikey s"
    and "co_tick C (cs_clock s) = (Some (Ok h), c')"
    and "storable X (written C doc h)"
  shows "\<exists>acked placed r s'. client_write X C sched t_get t_store key doc ikey s = (r, s') \<and>
    distinct acked \<and> set acked \<subseteq> set (owners_of X C key) \<and>
    hints_allowed (owners_of X C key) (mv_all_nodes (co_membership C)) acked placed \<and>
    write_outcome (qc_w (co_config C)) (stamped (co_local_node C) h) acked (length placed) r \<and>
    net_inv mem_inv (cs_world s') \<and> cs_clock s' = c' \<and>
    (\<forall>n kb. net_peek X mem_view (cs_world s') n kb =
      (if kb = object_key_bytes X key \<and> n \<in> set acked then Some (written C doc h)
       else net_peek X mem_view (cs_world s) n kb)) \<and>
    net_hints mem_view (cs_world s') = hints_after X key (written C doc h) placed (net_hints mem_view (cs_world s))"
  by (rule write_effect [where sched = sched, OF assms])

text \<open>Nodes 2 and 3 are down: node 1 acknowledges, and node 4 keeps a hint for node 2.\<close>

definition sloppy_write :: "(replication_error, write_result) result option \<times> (mem_engine network, u64) coord_state" where
  "sloppy_write = quorum_write demo_ext (demo_coordinator 1) id 0 0 demo_key demo_doc None
    (demo_state (set_node_down (NodeId 2) (set_node_down (NodeId 3) demo_net)) 9)"

lemma sloppy_write_run: "fst sloppy_write = Some (Ok \<lparr>wres_version = stamped (NodeId 1) (Hlc 9),
    wres_nodes_acked = 1, wres_hints_stored = 1\<rparr>)"
  by (simp add: sloppy_write_def demo_eval store_sloppy_hints_def store_hint_def)

lemma demo_hints: "net_hints mem_view demo_net n k = None"
  by (simp add: net_hints_def hints_at_def demo_net_def register_node_def network_new_def mem_new_def mem_view_def
      init_cf_map_def cf_all_def CF_DEFAULT_def CF_METADATA_def CF_INDEXES_def CF_TOMBSTONES_def
      CF_HINTS_def CF_SYSTEM_def)

theorem quorum_write_accounting_witness:
  "\<exists>a f n. fst sloppy_write = Some (Ok \<lparr>wres_version = stamped (NodeId 1) (Hlc 9),
      wres_nodes_acked = 1, wres_hints_stored = 1\<rparr>) \<and> a \<noteq> f \<and> n = NodeId 4 \<and>
    net_peek demo_ext mem_view (cs_world (snd sloppy_write)) a (object_key_bytes demo_ext demo_key) = Some demo_live \<and>
    net_peek demo_ext mem_view (cs_world (snd sloppy_write)) f (object_key_bytes demo_ext demo_key) = None \<and>
    net_hints mem_view (cs_world (snd sloppy_write)) n (make_hint_key demo_ext f (Hlc 9) (ObjectId 7)) = Some [3]"
proof -
  let ?C = "demo_coordinator 1" and ?s = "demo_state (set_node_down (NodeId 2) (set_node_down (NodeId 3) demo_net)) 9"
  let ?w = "cs_world (snd sloppy_write)" and ?kb = "object_key_bytes demo_ext demo_key"
  have start: "net_peek demo_ext mem_view (cs_world ?s) n ?kb = None" "net_hints mem_view (cs_world ?s) = (\<lambda>_ _. None)" for n
    by (simp_all add: fun_eq_iff demo_state_def demo_peek net_faults(2) [OF demo_faults(1)] demo_hints net_hints_faults [OF demo_faults(1)])
  have "\<exists>acked placed r s'. client_write demo_ext ?C id 0 0 demo_key (Some demo_doc) None ?s = (r, s') \<and>
    distinct acked \<and> set acked \<subseteq> set (owners_of demo_ext ?C demo_key) \<and>
    hints_allowed (owners_of demo_ext ?C demo_key) (mv_all_nodes (co_membership ?C)) acked placed \<and>
    write_outcome (qc_w (co_config ?C)) (stamped (co_local_node ?C) (Hlc 9)) acked (length placed) r \<and>
    net_inv mem_inv (cs_world s') \<and> cs_clock s' = 10 \<and>
    (\<forall>n kb. net_peek demo_ext mem_view (cs_world s') n kb =
      (if kb = object_key_bytes demo_ext demo_key \<and> n \<in> set acked then Some (written ?C (Some demo_doc) (Hlc 9))
       else net_peek demo_ext mem_view (cs_world ?s) n kb)) \<and>
    net_hints mem_view (cs_world s') =
      hints_after demo_ext demo_key (written ?C (Some demo_doc) (Hlc 9)) placed (net_hints mem_view (cs_world ?s))"
    by (rule quorum_write_accounting)
      (simp_all add: demo_coordinator_fields demo_owners demo_storable demo_written fresh_key_def
        demo_state_def demo_idem demo_net_inv net_faults(1) [OF demo_faults(1)])
  then obtain acked placed r s' where cw: "client_write demo_ext ?C id 0 0 demo_key (Some demo_doc) None ?s = (r, s')"
    and allowed: "hints_allowed (owners_of demo_ext ?C demo_key) (mv_all_nodes (co_membership ?C)) acked placed"
    and outcome: "write_outcome (qc_w (co_config ?C)) (stamped (co_local_node ?C) (Hlc 9)) acked (length placed) r"
    and peek: "\<forall>n kb. net_peek demo_ext mem_view (cs_world s') n kb =
      (if kb = object_key_bytes demo_ext demo_key \<and> n \<in> set acked then Some (written ?C (Some demo_doc) (Hlc 9))
       else net_peek demo_ext mem_view (cs_world ?s) n kb)"
    and hints: "net_hints mem_view (cs_world s') =
      hints_after demo_ext demo_key (written ?C (Some demo_doc) (Hlc 9)) placed (net_hints mem_view (cs_world ?s))"
    by blast
  have s': "sloppy_write = (r, s')" using cw by (simp add: sloppy_write_def client_write_def)
  have run: "hints_allowed [NodeId 1, NodeId 2, NodeId 3] [NodeId 1, NodeId 2, NodeId 3, NodeId 4] acked placed"
    "write_outcome 2 (stamped (NodeId 1) (Hlc 9)) acked (length placed) r"
    "net_hints mem_view ?w = hints_after demo_ext demo_key demo_live placed (\<lambda>_ _. None)"
    using allowed outcome hints unfolding s' start demo_owners demo_coordinator_fields demo_coordinator_nodes demo_written
    by simp_all
  have live: "net_peek demo_ext mem_view ?w n ?kb = (if n \<in> set acked then Some demo_live else None)" for n
    using peek start unfolding s' demo_written by simp
  have "length acked = 1" "length placed = 1"
    using run(2) sloppy_write_run unfolding s' fst_conv by (auto simp: write_outcome_def split: if_splits)
  then obtain a f n where an: "acked = [a]" "placed = [(f, n)]"
    by (metis One_nat_def length_0_conv length_Suc_conv surj_pair)
  then show ?thesis
    using run(1,3) live sloppy_write_run
    by (intro exI [of _ a] exI [of _ f] exI [of _ n])
      (auto simp: hints_allowed_def hints_after_def demo_live_def versioned_new_def demo_key_def demo_ext_def)
qed

text \<open>
  Conflict resolution picks one of the versions it is given, and a version to
  which every other one gives way, because it is causally older or because it is
  concurrent and loses the tie-break (a live document against a tombstone, then the
  lower timestamp), is the one picked, in whatever order the replicas answered.
\<close>

theorem resolve_conflict_dominant:
  "(docs \<noteq> [] \<longrightarrow> (\<exists>v \<in> set docs. resolve_conflict docs = Some v)) \<and>
   (\<forall>v \<in> set docs. (\<forall>d \<in> set docs. d = v \<or> superseded d v) \<longrightarrow> resolve_conflict docs = Some v)"
proof (intro conjI ballI impI)
  have "fold (\<lambda>candidate winner. resolve_two winner candidate) ds a \<in> set (a # ds)" for a ds
  proof (induction ds arbitrary: a)
    case (Cons d ds)
    have "fold (\<lambda>candidate winner. resolve_two winner candidate) ds (resolve_two a d) \<in> set (resolve_two a d # ds)"
      by (rule Cons.IH)
    then show ?case using resolve_two_arg [of a d] by auto
  qed simp
  then show "\<exists>v \<in> set docs. resolve_conflict docs = Some v" if "docs \<noteq> []"
    using that by (cases docs) (auto simp: resolve_conflict_def)
qed (rule resolve_conflict_winner)

theorem resolve_conflict_dominant_witness:
  "demo_live \<noteq> demo_tomb \<and> superseded demo_live demo_tomb \<and>
   resolve_conflict [demo_live, demo_tomb, demo_live] = Some demo_tomb"
proof -
  have "superseded demo_live demo_tomb"
    by (simp add: superseded_def demo_live_def demo_tomb_def versioned_new_def tombstone_def
        compare_stamped_other hlc_order_defs hlc_zero_def)
  moreover have "demo_live \<noteq> demo_tomb"
    by (simp add: demo_live_def demo_tomb_def versioned_new_def tombstone_def)
  ultimately show ?thesis
    using resolve_conflict_dominant [of "[demo_live, demo_tomb, demo_live]"] by simp
qed

text \<open>
  Conflict resolution depends on the order of the answers, and can pick a version
  that is causally older than another one it was given: node \<open>n1\<close> deletes a document and
  writes it again, node \<open>n2\<close> writes it later still, and when the three versions
  arrive as the write of \<open>n2\<close>, the write of \<open>n1\<close>, the tombstone, the old tombstone wins.
\<close>

theorem resolve_conflict_order_dependent:
  assumes "n1 \<noteq> n2" "hlc_zero < h1" "h1 < h2" "h2 < h3"
  shows "let deleted = tombstone (stamped n1 h1) h1;
             rewritten = versioned_new d2 (stamped n1 h2) h2;
             later = versioned_new d3 (stamped n2 h3) h3
         in vc_compare (vd_version deleted) (vd_version rewritten) = Before \<and>
            resolve_conflict [later, rewritten, deleted] = Some deleted \<and>
            resolve_conflict [deleted, later, rewritten] = Some rewritten"
proof -
  have z: "hlc_zero < h2" "hlc_zero < h3" using assms by auto
  show ?thesis using assms z
    by (simp add: Let_def tombstone_def versioned_new_def resolve_conflict_def resolve_two_def
        compare_stamped_same compare_stamped_other not_le)
qed

theorem resolve_conflict_order_dependent_witness:
  "resolve_conflict [versioned_new demo_doc (stamped (NodeId 2) (Hlc 9)) (Hlc 9),
      versioned_new demo_doc (stamped (NodeId 1) (Hlc 7)) (Hlc 7), tombstone (stamped (NodeId 1) (Hlc 5)) (Hlc 5)] =
    Some (tombstone (stamped (NodeId 1) (Hlc 5)) (Hlc 5))"
  using resolve_conflict_order_dependent [of "NodeId 1" "NodeId 2" "Hlc 5" "Hlc 7" "Hlc 9" demo_doc demo_doc]
  by (simp add: Let_def hlc_order_defs hlc_zero_def)

text \<open>
  C36: repeating a write under its idempotency key.  After a \<open>quorum_write\<close> under a key
  succeeded, the same call with a document of the same JSON within fifteen minutes
  returns the same result, a document of another JSON is refused with
  \<open>IdempotencyConflict\<close>, and neither touches a replica, the clock or the repair queue,
  whatever happened to them in between.
\<close>

theorem quorum_write_idempotent:
  assumes "quorum_write X C sched t_get t_store key doc (Some k) s = (Some (Ok res), s1)"
    and "fresh_key t_get (Some k) s"
    and "ser_document X doc = Ok bs" "ser_document X doc2 = Ok bs2"
    and "cs_idem s2 = cs_idem s1" "t_get2 - t_store < IDEMPOTENCY_TTL"
  shows "fst (quorum_write X C sched2 t_get2 t_store2 key2 doc2 (Some k) s2) =
      Some (if bs2 = bs then Ok res else Err IdempotencyConflict) \<and>
    (\<exists>i. snd (quorum_write X C sched2 t_get2 t_store2 key2 doc2 (Some k) s2) = s2\<lparr>cs_idem := i\<rparr>)"
proof -
  have miss: "fst (idem_get X t_get k doc (cs_idem s)) = Some (Ok None)"
    using assms(2) by (simp add: fresh_key_def idem_get_def Let_def)
  have "\<exists>s' r0. cache_result X t_store (Some k) doc r0 s' = (Some (Ok res), s1)"
    using assms(1) miss
    by (auto simp: quorum_write_def act_bind_Ok_iff on_idem_def Let_def act_simps
        split: if_splits prod.splits option.splits)
  then have "\<exists>s'. snd (cache_result X t_store (Some k) doc res s') = s1"
    using cache_result_run by (metis Inr_inject fst_conv option.inject snd_conv)
  then have e: "id_cache (cs_idem s2) k = Some \<lparr>ie_doc_bytes = bs, ie_result = res, ie_created_at = t_store\<rparr>"
    using assms(3,5) by (auto simp: cache_result_def on_idem_def idem_store_def act_bind_def act_try_def act_simps Let_def)
  show ?thesis using assms(4,6) e
    by (auto simp: quorum_write_def act_bind_def on_idem_def idem_get_def Let_def evict_expired_def act_simps)
qed


theorem quorum_write_idempotent_witness:
  "\<exists>res s1 i. demo_write = (Some (Ok res), s1) \<and>
    fst (quorum_write demo_ext (demo_coordinator 1) rev 5 6 demo_key demo_doc (Some ''i'') s1) = Some (Ok res) \<and>
    snd (quorum_write demo_ext (demo_coordinator 1) rev 5 6 demo_key demo_doc (Some ''i'') s1) = s1\<lparr>cs_idem := i\<rparr>"
proof -
  obtain res s1 where w: "demo_write = (Some (Ok res), s1)" using demo_write_run by blast
  have "fst (quorum_write demo_ext (demo_coordinator 1) rev 5 6 demo_key demo_doc (Some ''i'') s1) =
      Some (if [4] = ([4] :: bytes) then Ok res else Err IdempotencyConflict) \<and>
    (\<exists>i. snd (quorum_write demo_ext (demo_coordinator 1) rev 5 6 demo_key demo_doc (Some ''i'') s1) = s1\<lparr>cs_idem := i\<rparr>)"
  proof (rule quorum_write_idempotent)
    show "quorum_write demo_ext (demo_coordinator 1) id 0 0 demo_key demo_doc (Some ''i'')
      (demo_state (set_node_down (NodeId 3) demo_net) 9) = (Some (Ok res), s1)" using w by (simp add: demo_write_def)
  qed (simp_all add: fresh_key_def demo_state_def demo_idem demo_ext_def IDEMPOTENCY_TTL_def)
  then show ?thesis using w by auto
qed

text \<open>
  C38: an acknowledged write can stay invisible.  Each write carries a fresh
  version with one entry, so a write through one coordinator never descends from a
  delete through another one.  When all owners hold a tombstone of another
  coordinator, a write succeeds, and an owner that missed it is among those that
  answer a later read, the read reports the document as deleted, whichever of the
  two has the later timestamp.
\<close>

theorem acknowledged_write_lost:
  fixes C :: "(mem_engine network, 'c) coordinator"
  assumes "co_transport C = transport_for X MemEngine src"
    and "distinct (owners_of X C key)"
    and "mset (sched1 (owners_of X C key)) = mset (owners_of X C key)"
    and "mset (sched2 (owners_of X C key)) = mset (owners_of X C key)"
    and "net_inv mem_inv (cs_world s)" "fresh_key t_get ikey s"
    and "co_tick C (cs_clock s) = (Some (Ok h), c')" "hlc_zero < h"
    and "storable X (written C (Some doc) h)"
    and "deleted = tombstone (stamped m k) k" "m \<noteq> co_local_node C" "hlc_zero < k"
    and "\<forall>n \<in> set (owners_of X C key).
      net_peek X mem_view (cs_world s) n (object_key_bytes X key) = Some deleted"
    and "quorum_write X C sched1 t_get t_store key doc ikey s = (Some (Ok res), s1)"
    and "nw_nodes (cs_world s2) = nw_nodes (cs_world s1)"
    and "n \<in> set (owners_of X C key)"
    and "net_peek X mem_view (cs_world s1) n (object_key_bytes X key) = Some deleted"
    and "fst (t_read (co_transport C) n \<lparr>rreq_key = key\<rparr> (cs_world s2)) = Some (Ok rsp)"
    and "fst (quorum_read X C sched2 key s2) = Some (Ok rres)"
  shows "rr_document rres = None \<and> rr_version rres = stamped m k"
proof -
  let ?v = "written C (Some doc) h" and ?os = "owners_of X C key" and ?kb = "object_key_bytes X key"
  let ?T = "transport_for X MemEngine src" and ?r = "qc_r (co_config C)"
  obtain acked r s1' where a: "client_write X C sched1 t_get t_store key (Some doc) ikey s = (r, s1')"
    "net_inv mem_inv (cs_world s1')"
    "\<And>n kb. net_peek X mem_view (cs_world s1') n kb =
      (if kb = ?kb \<and> n \<in> set acked then Some ?v else net_peek X mem_view (cs_world s) n kb)"
    using write_effect [where sched = sched1, OF assms(1-3,5-7,9), of t_store] by blast
  then have s1: "s1' = s1" using assms(14) by (simp add: client_write_def)
  have s2: "net_inv mem_inv (cs_world s2)" "net_peek X mem_view (cs_world s2) = net_peek X mem_view (cs_world s1)"
    using a(2) s1 net_faults [OF assms(15)] by simp_all
  obtain responses ro where g:
    "gather_reads ?T sched2 ?os key (cs_world s2) = (Some (Ok responses), cs_world s2)"
    "ro = read_outcome ?r key ?os responses" "fst (quorum_read X C sched2 key s2) = Some (fst ro)"
    using simnet.quorum_read_run [where sched = sched2, OF assms(1) s2(1) assms(2,4)] by (metis fst_conv)
  obtain responses' where g':
    "gather_reads ?T sched2 ?os key (cs_world s2) = (Some (Ok responses'), cs_world s2)"
    "fst ` set responses' \<subseteq> set ?os" "\<forall>(n, d) \<in> set responses'. d = net_peek X mem_view (cs_world s2) n ?kb"
    "(n, rresp_doc rsp) \<in> set responses'"
    using simnet.gather_run [where sched = sched2, OF s2(1) assms(2,4)] assms(1,16,18) by metis
  then have resp: "responses' = responses" using g(1) by simp
  have "superseded ?v deleted"
    using assms(8,10-12) by (simp add: superseded_def written_def tombstone_def compare_stamped_other)
  moreover have "d = deleted \<or> d = ?v" if "(p, Some d) \<in> set responses" for p d
    using that g'(2,3) resp s2(2) a(3) s1 assms(13) by (fastforce split: if_splits)
  moreover have "(n, Some deleted) \<in> set responses" using g'(3,4) resp s2(2) assms(17) by auto
  ultimately have "resolve_conflict (List.map_filter snd responses) = Some deleted"
    by (intro resolve_conflict_winner) (force simp: List.map_filter_def)+
  then have "ro = (Ok rres, snd ro) \<Longrightarrow> rr_document rres = vd_document deleted \<and> rr_version rres = vd_version deleted"
    using g(2) by (auto simp: read_outcome_def split: if_splits)
  then show ?thesis using assms(10,19) g(3) by (simp add: tombstone_def prod_eq_iff)
qed


lemma tomb_run:
  "(case tomb_write of (r, s1) \<Rightarrow>
     (r, net_peek demo_ext mem_view (cs_world s1) (NodeId 3) (object_key_bytes demo_ext demo_key),
      fst (t_read (co_transport (demo_coordinator 1)) (NodeId 3) \<lparr>rreq_key = demo_key\<rparr> (cs_world (tomb_later s1))),
      fst (quorum_read demo_ext (demo_coordinator 1) id demo_key (tomb_later s1)))) =
   (Some (Ok \<lparr>wres_version = stamped (NodeId 1) (Hlc 9), wres_nodes_acked = 2, wres_hints_stored = 0\<rparr>),
    Some demo_tomb, Some (Ok \<lparr>rresp_doc = Some demo_tomb\<rparr>),
    Some (Ok \<lparr>rr_document = None, rr_version = stamped (NodeId 2) (Hlc 5), rr_repairs_triggered = 1\<rparr>))"
  by (simp add: tomb_write_def demo_eval)


lemma tomb_net_wf:
  "net_inv mem_inv tomb_net"
  "n \<in> {NodeId 1, NodeId 2, NodeId 3} \<Longrightarrow>
    net_peek demo_ext mem_view tomb_net n (object_key_bytes demo_ext demo_key) = Some demo_tomb"
proof -
  have "mem_inv (rs_storage (tomb_store n))" for n
    unfolding tomb_store_def replica_store.simps by (rule mem_inv_upd [OF mem_inv_new]) (simp_all add: bt_sorted_def)
  then show "net_inv mem_inv tomb_net"
    by (auto simp: net_inv_def tomb_net_def register_node_def network_new_def tomb_store_def split: if_splits)
  show "net_peek demo_ext mem_view tomb_net n (object_key_bytes demo_ext demo_key) = Some demo_tomb"
    if "n \<in> {NodeId 1, NodeId 2, NodeId 3}"
    using that by (auto simp: demo_eval)
qed

theorem acknowledged_write_lost_witness:
  "\<exists>s1 rres. tomb_write = (Some (Ok \<lparr>wres_version = stamped (NodeId 1) (Hlc 9), wres_nodes_acked = 2,
      wres_hints_stored = 0\<rparr>), s1) \<and>
    fst (quorum_read demo_ext (demo_coordinator 1) id demo_key (tomb_later s1)) = Some (Ok rres) \<and>
    rr_document rres = None \<and> rr_version rres = stamped (NodeId 2) (Hlc 5)"
proof -
  let ?C = "demo_coordinator 1" and ?s = "demo_state (set_node_down (NodeId 3) tomb_net) 9"
  let ?res = "\<lparr>wres_version = stamped (NodeId 1) (Hlc 9), wres_nodes_acked = 2, wres_hints_stored = 0\<rparr>"
  let ?rres = "\<lparr>rr_document = None, rr_version = stamped (NodeId 2) (Hlc 5), rr_repairs_triggered = 1\<rparr>"
  obtain r s1 where t: "tomb_write = (r, s1)" by fastforce
  have w: "tomb_write = (Some (Ok ?res), s1)"
    "net_peek demo_ext mem_view (cs_world s1) (NodeId 3) (object_key_bytes demo_ext demo_key) = Some demo_tomb"
    "fst (t_read (co_transport ?C) (NodeId 3) \<lparr>rreq_key = demo_key\<rparr> (cs_world (tomb_later s1))) =
      Some (Ok \<lparr>rresp_doc = Some demo_tomb\<rparr>)"
    "fst (quorum_read demo_ext ?C id demo_key (tomb_later s1)) = Some (Ok ?rres)"
    using tomb_run unfolding t by simp_all
  have "rr_document ?rres = None \<and> rr_version ?rres = stamped (NodeId 2) (Hlc 5)"
  proof (rule acknowledged_write_lost [OF _ _ _ _ _ _ _ _ _ demo_tomb_def _ _ _ _ _ _ w(2,3,4), where s = ?s and h = "Hlc 9" and c' = 10])
    show "quorum_write demo_ext ?C id 0 0 demo_key demo_doc None ?s = (Some (Ok ?res), s1)"
      using w(1) by (simp add: tomb_write_def)
  qed (simp_all add: demo_coordinator_fields demo_owners demo_storable demo_written fresh_key_def demo_state_def
      tomb_net_wf net_faults [OF demo_faults(1)] tomb_later_def demo_faults hlc_order_defs hlc_zero_def)
  then show ?thesis using w by auto
qed

text \<open>
  C19: read repair brings the replicas that answered up to date.  When a read
  triggers repairs and the stale nodes are reachable while the spawned task runs,
  the task ends, every repaired node holds the version and the document the read
  returned, and no node that answered is left with a version older than or
  concurrent with it.
\<close>

theorem read_repair_heals:
  fixes C :: "(mem_engine network, 'c) coordinator"
  assumes "co_transport C = transport_for X MemEngine src"
    and "distinct (owners_of X C key)" "mset (sched (owners_of X C key)) = mset (owners_of X C key)"
    and "net_inv mem_inv (cs_world s)"
    and "quorum_read X C sched key s = (Some (Ok rres), s')" "0 < rr_repairs_triggered rres"
    and "cs_tasks s' = cs_tasks s @ [task]"
    and "\<forall>(n, req) \<in> set task. reachable src (cs_world s') n \<and> storable X (request_doc req)"
  shows "length task = rr_repairs_triggered rres \<and>
    (\<exists>N. run_repair (co_transport C) task (cs_world s') = (Some (Ok ()), N) \<and> net_inv mem_inv N \<and>
      (\<forall>n \<in> fst ` set task. \<exists>d. net_peek X mem_view N n (object_key_bytes X key) = Some d \<and>
        vd_document d = rr_document rres \<and> vd_version d = rr_version rres) \<and>
      (\<forall>n \<in> set (owners_of X C key). \<forall>rsp.
        fst (t_read (co_transport C) n \<lparr>rreq_key = key\<rparr> (cs_world s)) = Some (Ok rsp) \<longrightarrow>
        (\<exists>d. net_peek X mem_view N n (object_key_bytes X key) = Some d \<and>
          vc_compare (vd_version d) (rr_version rres) \<in> {Equal, After})))"
proof -
  let ?os = "owners_of X C key" and ?kb = "object_key_bytes X key" and ?r = "qc_r (co_config C)"
  let ?T = "transport_for X MemEngine src"
  obtain responses ro where g: "gather_reads ?T sched ?os key (cs_world s) = (Some (Ok responses), cs_world s)"
    "ro = read_outcome ?r key ?os responses" "quorum_read X C sched key s = (Some (fst ro), s\<lparr>cs_tasks := cs_tasks s @ snd ro\<rparr>)"
    by (rule simnet.quorum_read_run [where sched = sched, OF assms(1,4,2,3)])
  have ro: "fst ro = Ok rres" "snd ro = [task]" "cs_world s' = cs_world s" using g(3) assms(5,7) by auto
  then obtain winner where w: "task = map (\<lambda>n. (n, repair_request key winner)) (stale_nodes winner responses)"
    "rr_document rres = vd_document winner" "rr_version rres = vd_version winner"
    "rr_repairs_triggered rres = length (stale_nodes winner responses)"
    using g(2) by (auto simp: read_outcome_def split: if_splits option.splits)
  let ?req = "repair_request key winner" and ?stale = "stale_nodes winner responses"
  have ne: "?stale \<noteq> []" using assms(6) w(4) by auto
  have up: "\<forall>n \<in> set ?stale. reachable src (cs_world s) n" and st: "storable X (request_doc ?req)"
    using assms(8) ne unfolding w(1) ro(3) by (cases ?stale; auto)+
  obtain N where N: "run_repair ?T (map (\<lambda>n. (n, ?req)) ?stale) (cs_world s) = (Some (Ok ()), N)" "net_inv mem_inv N"
    "\<forall>n kb. net_peek X mem_view N n kb = (if kb = ?kb \<and> n \<in> set ?stale then Some (request_doc ?req)
      else net_peek X mem_view (cs_world s) n kb)"
    using simnet.run_repair_run [OF assms(4) _ st up] by (auto simp: repair_request_def)
  obtain responses' where r': "gather_reads ?T sched ?os key (cs_world s) = (Some (Ok responses'), cs_world s)"
    "\<forall>(n, d) \<in> set responses'. d = net_peek X mem_view (cs_world s) n ?kb"
    "\<And>n rsp. n \<in> set ?os \<Longrightarrow> fst (t_read ?T n \<lparr>rreq_key = key\<rparr> (cs_world s)) = Some (Ok rsp) \<Longrightarrow>
      (n, rresp_doc rsp) \<in> set responses'"
    using simnet.gather_run [where sched = sched, OF assms(4,2,3)] by metis
  have resp: "responses' = responses" using r'(1) g(1) by simp
  have healed: "\<exists>d. net_peek X mem_view N n ?kb = Some d \<and> vc_compare (vd_version d) (vd_version winner) \<in> {Equal, After}"
    if "(n, doc) \<in> set responses" for n doc
  proof (cases "n \<in> set ?stale")
    case True
    then show ?thesis using N(3) by (simp add: request_doc_def repair_request_def vc.compare_self)
  next
    case False
    then have "\<not> is_stale winner doc" using that by (force simp: stale_nodes_def)
    moreover have "net_peek X mem_view N n ?kb = doc" using N(3) False that r'(2) resp by auto
    ultimately show ?thesis by (auto simp: is_stale_def split: option.splits causal_order.splits)
  qed
  have "\<exists>d. net_peek X mem_view N n ?kb = Some d \<and> vd_document d = vd_document winner \<and>
      vd_version d = vd_version winner" if "n \<in> set ?stale" for n
    using N(3) that by (simp add: request_doc_def repair_request_def)
  moreover have "\<exists>d. net_peek X mem_view N n ?kb = Some d \<and> vc_compare (vd_version d) (vd_version winner) \<in> {Equal, After}"
    if "n \<in> set ?os" "fst (t_read ?T n \<lparr>rreq_key = key\<rparr> (cs_world s)) = Some (Ok rsp)" for n rsp
    by (rule healed [OF r'(3) [OF that, unfolded resp]])
  ultimately show ?thesis using N(1,2) unfolding w(1-4) assms(1) ro(3) by (simp, blast)
qed


text \<open>Node 1 holds the document, node 2 nothing; node 3 is down.\<close>

definition stale_net :: "mem_engine network" where
  "stale_net = register_node \<lparr>rs_node_id = NodeId 1, rs_storage =
      mem_new\<lparr>mem_cfs := (mem_cfs mem_new)(CF_DEFAULT \<mapsto> [(object_key_bytes demo_ext demo_key, [1])])\<rparr>\<rparr>
    (register_node \<lparr>rs_node_id = NodeId 2, rs_storage = mem_new\<rparr> network_new)"

definition stale_read :: "(replication_error, read_result) result option \<times> (mem_engine network, u64) coord_state" where
  "stale_read = quorum_read demo_ext (demo_coordinator 1) id demo_key (demo_state stale_net 11)"

lemma stale_net_inv: "net_inv mem_inv stale_net"
proof -
  have "mem_inv (mem_new\<lparr>mem_cfs := (mem_cfs mem_new)(CF_DEFAULT \<mapsto> [(object_key_bytes demo_ext demo_key, [1])])\<rparr>)"
    by (rule mem_inv_upd [OF mem_inv_new]) (simp_all add: bt_sorted_def)
  then show ?thesis
    by (auto simp: net_inv_def stale_net_def register_node_def network_new_def mem_inv_new split: if_splits)
qed

lemma stale_read_run:
  "stale_read = (Some (Ok \<lparr>rr_document = Some demo_doc, rr_version = stamped (NodeId 1) (Hlc 9),
      rr_repairs_triggered = 1\<rparr>),
    (demo_state stale_net 11)\<lparr>cs_tasks := [[(NodeId 2, repair_request demo_key demo_live)]]\<rparr>)"
  by (simp add: stale_read_def stale_net_def demo_eval fun_upd_twist)

theorem read_repair_heals_witness:
  "\<exists>N d. run_repair (co_transport (demo_coordinator 1)) [(NodeId 2, repair_request demo_key demo_live)] stale_net =
      (Some (Ok ()), N) \<and> net_peek demo_ext mem_view N (NodeId 2) (object_key_bytes demo_ext demo_key) = Some d \<and>
    vd_document d = Some demo_doc"
proof -
  have "request_doc (repair_request demo_key demo_live) = demo_live"
    by (simp add: request_doc_def repair_request_def demo_live_def versioned_new_def)
  moreover have "reachable (NodeId 1) stale_net (NodeId 2)"
    by (simp add: reachable_def stale_net_def register_node_def network_new_def)
  ultimately show ?thesis
    using read_repair_heals [where C = "demo_coordinator 1" and src = "NodeId 1" and X = demo_ext and sched = id
        and key = demo_key and task = "[(NodeId 2, repair_request demo_key demo_live)]",
        OF _ _ _ _ stale_read_run [unfolded stale_read_def]]
    by (auto simp: demo_coordinator_fields demo_owners demo_state_def stale_net_inv demo_storable)
qed

end
