(* ===== verification/Handoff.thy ===== *)
theory Handoff
  imports Network
begin

text \<open>
  Hinted handoff: what \<open>deliver_pending_hints\<close> (\<open>replication/src/replica.rs\<close>) does to
  the hints of a node and to the replicas, as a specification over the hints' rows,
  and the path of one hint from the fallback node to its owner.
\<close>

section \<open>The specification\<close>

text \<open>What becomes of a row of the \<open>hints\<close> family, given which nodes are reachable.\<close>

datatype hint_fate = Discarded | Kept | Delivered node_id hint_value

definition fate :: "rep_ext \<Rightarrow> u64 \<Rightarrow> (node_id \<Rightarrow> bool) \<Rightarrow> bytes \<times> bytes \<Rightarrow> hint_fate" where
  "fate X now_ms up row =
    (case splitn 3 (CHR ''/'') (from_utf8_lossy (fst row)) of
       [p0, p1, p2] \<Rightarrow>
         (case (uuid_parse X p0, parse_u64 p1, de_hint X (snd row)) of
            (Some t, Some h, Ok hint) \<Rightarrow>
              if HINT_TTL_MS < saturating_sub now_ms (physical_ms (Hlc h)) then Discarded
              else if up (NodeId t) then Delivered (NodeId t) hint else Kept
          | _ \<Rightarrow> Discarded)
     | _ \<Rightarrow> Discarded)"

fun deliver_peek ::
  "rep_ext \<Rightarrow> hint_fate \<Rightarrow> (node_id \<Rightarrow> bytes \<Rightarrow> versioned_doc option) \<Rightarrow> (node_id \<Rightarrow> bytes \<Rightarrow> versioned_doc option)" where
  "deliver_peek X (Delivered t hint) p =
    p(t := (p t)(object_key_bytes X (hv_key hint) \<mapsto> request_doc (hint_request hint)))"
| "deliver_peek X _ p = p"

definition is_delivered :: "hint_fate \<Rightarrow> bool" where
  "is_delivered f \<longleftrightarrow> (case f of Delivered _ _ \<Rightarrow> True | _ \<Rightarrow> False)"

text \<open>Every hint that decodes is a document that survives its JSON round trip.\<close>

definition hints_storable :: "rep_ext \<Rightarrow> (bytes \<times> bytes) list \<Rightarrow> bool" where
  "hints_storable X rows \<longleftrightarrow>
    (\<forall>row \<in> set rows. \<forall>hint. de_hint X (snd row) = Ok hint \<longrightarrow> storable X (request_doc (hint_request hint)))"

section \<open>One turn of the loop\<close>

text \<open>The state of the network as the loop of node \<open>n\<close> sees it.\<close>

definition sees ::
  "('s \<Rightarrow> bool) \<Rightarrow> ('s \<Rightarrow> string \<Rightarrow> kv_map) \<Rightarrow> rep_ext \<Rightarrow> node_id \<Rightarrow> 's network \<Rightarrow> (node_id \<Rightarrow> bool) \<Rightarrow> kv_map \<Rightarrow>
    (node_id \<Rightarrow> bytes \<Rightarrow> versioned_doc option) \<Rightarrow> bool" where
  "sees I view X n N up rows p \<longleftrightarrow>
    net_inv I N \<and> nw_nodes N n \<noteq> None \<and> reachable n N = up \<and> hints_at view n N = rows \<and> net_peek X view N = p"

context storage_engine
begin

lemma delete_hint_run:
  assumes "sees inv view X n N up rows p"
  shows "\<exists>N'. e_delete (node_engine E n) CF_HINTS k N = (Some (Ok ()), N') \<and>
    sees inv view X n N' up (bt_remove k rows) p"
proof -
  obtain store where st: "nw_nodes N n = Some store" using assms by (auto simp: sees_def)
  with assms have i: "inv (rs_storage store)" and id: "rs_node_id store = n" by (auto simp: sees_def net_inv_def)
  let ?s = "after_delete E CF_HINTS k (rs_storage store)"
  let ?N = "N\<lparr>nw_nodes := (nw_nodes N)(n \<mapsto> store\<lparr>rs_storage := ?s\<rparr>)\<rparr>"
  have "e_delete (node_engine E n) CF_HINTS k N = (Some (Ok ()), ?N)"
    using st id by (simp add: node_engine_def at_node_def on_store_def delete_run(1) [OF i])
  moreover have "net_inv inv ?N"
    using assms net_inv_update [of inv N n store ?s] st delete_run(2) [OF i, of CF_HINTS k] id by (simp add: sees_def)
  moreover have "net_peek X view ?N = net_peek X view N"
    using st by (auto simp: fun_eq_iff net_peek_def delete_run(3) [OF i])
  moreover have "reachable n ?N = reachable n N" using st by (auto simp: fun_eq_iff reachable_def)
  moreover have "hints_at view n ?N = bt_remove k (hints_at view n N)"
    using st by (simp add: hints_at_def delete_run(3) [OF i])
  ultimately show ?thesis using assms by (auto simp: sees_def)
qed

lemma write_hint_run:
  assumes "sees inv view X n N up rows p" "storable X (request_doc req)" "\<not> wr_is_hint req"
  shows "\<exists>r N'. t_write (transport_for X E n) t req N = (Some r, N') \<and> (up t \<longleftrightarrow> (\<exists>resp. r = Ok resp)) \<and>
    sees inv view X n N' up rows
      (if up t then p(t := (p t)(object_key_bytes X (wr_key req) \<mapsto> request_doc req)) else p)"
proof -
  have i: "net_inv inv N" "reachable n N = up" using assms(1) by (simp_all add: sees_def)
  obtain r N' where w: "sim_write X E n t req N = (Some r, N')"
    using sim_write_returns [OF i(1), of X n t req] by (metis option.exhaust prod.collapse)
  have ok: "up t \<longleftrightarrow> (\<exists>resp. r = Ok resp)"
    using sim_write_reachable [OF i(1) _ assms(3,2), of n t] sim_write_unreachable [of n N t X req] w i(2)
    by (cases "up t") auto
  have peek: "net_peek X view N' =
      (if up t then p(t := (p t)(object_key_bytes X (wr_key req) \<mapsto> request_doc req)) else p)"
    using ok sim_write_peek [OF i(1) assms(3,2), of n t] sim_write_unpeeked [OF i(1), of req X n t] w assms(1)
    by (auto simp: sees_def)
  have "sees inv view X n N' up rows (net_peek X view N')"
    using assms(1) w sim_write_inv [OF i(1), of X n t req] sim_write_faults [OF i(1), of n X n t req]
      sim_write_hints [OF i(1), of req X n t n] sim_write_nodes [OF i(1), of X n t req n] assms(3) by (simp add: sees_def)
  then show ?thesis using w ok peek by (auto simp: transport_for_def)
qed

lemma deliver_hint_run:
  assumes s: "sees inv view X n N up rows p" and st: "hints_storable X [row]"
  shows "\<exists>N'. deliver_hint X (node_engine E n) (transport_for X E n) now_ms row N =
      (Some (Ok (is_delivered (fate X now_ms up row))), N') \<and>
    sees inv view X n N' up (if fate X now_ms up row = Kept then rows else bt_remove (fst row) rows)
      (deliver_peek X (fate X now_ms up row) p)"
proof -
  let ?remove = "\<lambda>b. act_bind (act_map_err ReplStorage (e_delete (node_engine E n) CF_HINTS (fst row))) (\<lambda>_. act_ok b)"
  have rm: "\<exists>N'. ?remove b M = (Some (Ok b), N') \<and> sees inv view X n N' up (bt_remove (fst row) rows) q"
    if "sees inv view X n M up rows q" for b :: bool and M q
    using delete_hint_run [OF that, of "fst row"] by (auto simp: act_simps)
  define good where "good t h hint \<longleftrightarrow> (\<exists>p0 p1 p2. splitn 3 (CHR ''/'') (from_utf8_lossy (fst row)) = [p0, p1, p2] \<and>
      uuid_parse X p0 = Some t \<and> parse_u64 p1 = Some h \<and> de_hint X (snd row) = Ok hint \<and>
      \<not> HINT_TTL_MS < saturating_sub now_ms (physical_ms (Hlc h)))" for t h hint
  show ?thesis
  proof (cases "\<exists>t h hint. good t h hint")
    case False
    then have "fate X now_ms up row = Discarded"
      "deliver_hint X (node_engine E n) (transport_for X E n) now_ms row = ?remove False"
      unfolding good_def fate_def deliver_hint_def hlc_from_u64_def
      by (auto simp: Let_def split: list.splits option.splits sum.splits prod.splits)
    then show ?thesis using rm [OF s, of False] by (simp add: is_delivered_def)
  next
    case True
    then obtain t h hint where g: "good t h hint" by blast
    then have f: "fate X now_ms up row = (if up (NodeId t) then Delivered (NodeId t) hint else Kept)"
      "deliver_hint X (node_engine E n) (transport_for X E n) now_ms row =
        act_bind (act_try (t_write (transport_for X E n) (NodeId t) (hint_request hint)))
          (\<lambda>r. case r of Ok _ \<Rightarrow> ?remove True | Err _ \<Rightarrow> act_ok False)"
      and d: "de_hint X (snd row) = Ok hint"
      unfolding good_def fate_def deliver_hint_def hlc_from_u64_def
      by (auto simp: Let_def case_prod_beta fun_eq_iff)
    have q: "storable X (request_doc (hint_request hint))" "\<not> wr_is_hint (hint_request hint)"
      using st d by (auto simp: hints_storable_def hint_request_def)
    obtain r N' where w: "t_write (transport_for X E n) (NodeId t) (hint_request hint) N = (Some r, N')"
      "up (NodeId t) \<longleftrightarrow> (\<exists>resp. r = Ok resp)"
      "sees inv view X n N' up rows (deliver_peek X (fate X now_ms up row) p)"
      using write_hint_run [OF s q, of "NodeId t"] f(1) by (auto simp: hint_request_def)
    show ?thesis
    proof (cases "up (NodeId t)")
      case True
      then obtain resp where "r = Ok resp" using w(2) by blast
      then show ?thesis using rm [OF w(3), of True] f w(1) True by (simp add: act_bind_def act_try_def is_delivered_def)
    next
      case False
      then obtain e where "r = Err e" using w(2) by (cases r) auto
      then show ?thesis using f w(1,3) False by (simp add: act_bind_def act_try_def is_delivered_def act_simps)
    qed
  qed
qed

lemma deliver_loop_run:
  "sees inv view X n N up hs p \<Longrightarrow> hints_storable X rows \<Longrightarrow>
   \<exists>N'. deliver_loop X (node_engine E n) (transport_for X E n) now_ms (map Ok rows) k N =
      (Some (Ok (k + length (filter (\<lambda>row. is_delivered (fate X now_ms up row)) rows))), N') \<and>
    sees inv view X n N' up
      (filter (\<lambda>h. \<forall>row \<in> set rows. fst row = fst h \<longrightarrow> fate X now_ms up row = Kept) hs)
      (fold (\<lambda>row. deliver_peek X (fate X now_ms up row)) rows p)"
proof (induction rows arbitrary: N hs p k)
  case Nil
  then show ?case by (simp add: act_simps)
next
  case (Cons row rows)
  let ?f = "fate X now_ms up row"
  let ?hs = "if ?f = Kept then hs else bt_remove (fst row) hs"
  let ?k = "if is_delivered ?f then k + 1 else k"
  obtain N1 where n1: "deliver_hint X (node_engine E n) (transport_for X E n) now_ms row N = (Some (Ok (is_delivered ?f)), N1)"
    "sees inv view X n N1 up ?hs (deliver_peek X ?f p)"
    using deliver_hint_run [OF Cons.prems(1), of row now_ms] Cons.prems(2) by (auto simp: hints_storable_def)
  have st: "hints_storable X rows" using Cons.prems(2) by (auto simp: hints_storable_def)
  have hs: "filter (\<lambda>h. \<forall>r \<in> set rows. fst r = fst h \<longrightarrow> fate X now_ms up r = Kept) ?hs =
      filter (\<lambda>h. \<forall>r \<in> set (row # rows). fst r = fst h \<longrightarrow> fate X now_ms up r = Kept) hs"
    by (auto simp: bt_remove_def filter_filter intro!: filter_cong)
  obtain N' where n': "deliver_loop X (node_engine E n) (transport_for X E n) now_ms (map Ok rows) ?k N1 =
      (Some (Ok (?k + length (filter (\<lambda>row. is_delivered (fate X now_ms up row)) rows))), N')"
    "sees inv view X n N' up (filter (\<lambda>h. \<forall>r \<in> set rows. fst r = fst h \<longrightarrow> fate X now_ms up r = Kept) ?hs)
      (fold (\<lambda>row. deliver_peek X (fate X now_ms up row)) rows (deliver_peek X ?f p))"
    using Cons.IH [OF n1(2) st, of ?k] by blast
  have "deliver_loop X (node_engine E n) (transport_for X E n) now_ms (map Ok (row # rows)) k N =
      deliver_loop X (node_engine E n) (transport_for X E n) now_ms (map Ok rows) ?k N1"
    using n1(1) by (simp add: act_simps act_bind_def [of "deliver_hint _ _ _ _ _"])
  then show ?case using n' unfolding hs by simp
qed

lemma deliver_pending_hints_run:
  assumes "net_inv inv N" "nw_nodes N n \<noteq> None" "hints_storable X (hints_at view n N)"
  shows "\<exists>N'. deliver_pending_hints X (node_engine E n) (transport_for X E n) now_ms N =
      (Some (Ok (length (filter (\<lambda>row. is_delivered (fate X now_ms (reachable n N) row)) (hints_at view n N)))), N') \<and>
    net_inv inv N' \<and>
    hints_at view n N' = filter (\<lambda>row. fate X now_ms (reachable n N) row = Kept) (hints_at view n N) \<and>
    net_peek X view N' = fold (\<lambda>row. deliver_peek X (fate X now_ms (reachable n N) row)) (hints_at view n N) (net_peek X view N)"
proof -
  let ?rows = "hints_at view n N" and ?up = "reachable n N"
  obtain store where st: "nw_nodes N n = Some store" using assms(2) by auto
  with assms(1) have i: "inv (rs_storage store)" and id: "rs_node_id store = n" by (auto simp: net_inv_def)
  have rows: "?rows = view (rs_storage store) CF_HINTS" "bt_sorted ?rows"
    using st view_sorted [OF i] by (simp_all add: hints_at_def)
  have "e_scan E CF_HINTS [] [] (rs_storage store) = (Some (Ok (map Ok ?rows)), rs_storage store)"
    using scan_law [OF i, of CF_HINTS "[]" "[]"] rows(1) by (simp add: scan_range_def)
  then have scan: "e_scan (node_engine E n) CF_HINTS [] [] N = (Some (Ok (map Ok ?rows)), N)"
    using st net_same [OF assms(1) st] by (simp add: node_engine_def at_node_def on_store_def)
  have "sees inv view X n N ?up ?rows (net_peek X view N)" using assms by (simp add: sees_def)
  from deliver_loop_run [OF this assms(3), of now_ms 0] obtain N' where
    N': "deliver_loop X (node_engine E n) (transport_for X E n) now_ms (map Ok ?rows) 0 N =
      (Some (Ok (length (filter (\<lambda>row. is_delivered (fate X now_ms ?up row)) ?rows))), N')"
    "sees inv view X n N' ?up (filter (\<lambda>h. \<forall>row \<in> set ?rows. fst row = fst h \<longrightarrow> fate X now_ms ?up row = Kept) ?rows)
      (fold (\<lambda>row. deliver_peek X (fate X now_ms ?up row)) ?rows (net_peek X view N))" by auto
  have "row = h" if "row \<in> set ?rows" "h \<in> set ?rows" "fst row = fst h" for row h
    using that bt_sorted_distinct [OF rows(2)] by (metis eq_key_imp_eq_value prod.collapse)
  then have "filter (\<lambda>h. \<forall>row \<in> set ?rows. fst row = fst h \<longrightarrow> fate X now_ms ?up row = Kept) ?rows =
      filter (\<lambda>row. fate X now_ms ?up row = Kept) ?rows" by (auto intro!: filter_cong)
  then show ?thesis using N' scan
    by (auto simp: deliver_pending_hints_def sees_def act_simps)
qed

end


section \<open>The path of one hint\<close>

text \<open>
  What the uuid crate documents: a uuid prints as lower-case hexadecimal digits and
  hyphens, and what it prints parses back.
\<close>

definition uuid_char :: "char \<Rightarrow> bool" where
  "uuid_char c \<longleftrightarrow> is_digit c \<or> (97 \<le> (of_char c :: nat) \<and> (of_char c :: nat) \<le> 102) \<or> c = CHR ''-''"

definition uuid_laws :: "rep_ext \<Rightarrow> bool" where
  "uuid_laws X \<longleftrightarrow> (\<forall>u. uuid_parse X (uuid_show X u) = Some u \<and> list_all uuid_char (uuid_show X u))"

lemma split_at:
  "c \<notin> set a \<Longrightarrow> takeWhile (\<lambda>x. x \<noteq> c) (a @ c # r) = a \<and> dropWhile (\<lambda>x. x \<noteq> c) (a @ c # r) = c # r"
  by (induction a) auto

lemma splitn_three:
  "c \<notin> set a \<Longrightarrow> c \<notin> set b \<Longrightarrow> splitn 3 c (a @ c # b @ c # d) = [a, b, d]"
  by (simp add: numeral_3_eq_3 split_at)

lemma uuid_char_laws: "uuid_char c \<Longrightarrow> c \<noteq> CHR ''/'' \<and> (of_char c :: nat) \<le> 127"
  by (auto simp: uuid_char_def is_digit_def)

lemma show_nat_uuid_chars: "list_all uuid_char (show_nat n)"
  using show_nat_laws [of n] by (auto simp: uuid_char_def list_all_iff)

lemma of_char_ascii: "(of_char c :: nat) \<le> 127 \<Longrightarrow> (of_char c :: u8) \<le> 0x7F"
  by (simp add: word_le_nat_alt)

lemma hint_key_ascii:
  assumes "uuid_laws X"
  shows "utf8_valid (make_hint_key X t h i)"
proof (rule utf8_valid_ascii)
  have "list_all (\<lambda>c. (of_char c :: nat) \<le> 127) s" if "list_all uuid_char s" for s
    using that uuid_char_laws by (auto simp: list_all_iff)
  then have "list_all (\<lambda>c. (of_char c :: nat) \<le> 127)
      (show_node X t @ ''/'' @ show_nat (unat (to_u64 h)) @ ''/'' @ show_oid X i)"
    using assms show_nat_uuid_chars by (simp add: uuid_laws_def show_node_def show_oid_def)
  then show "list_all (\<lambda>b. b \<le> 0x7F) (make_hint_key X t h i)"
    unfolding make_hint_key_def as_bytes_def by (auto simp only: list_all_iff set_map of_char_ascii)
qed

lemma hint_key_fate:
  assumes "uuid_laws X" "de_hint X bs = Ok hint"
    and "saturating_sub now_ms (physical_ms h) \<le> HINT_TTL_MS" "up t"
  shows "fate X now_ms up (make_hint_key X t h i, bs) = Delivered t hint"
proof -
  have "CHR ''/'' \<notin> set s" if "list_all uuid_char s" for s
    using that uuid_char_laws by (auto simp: list_all_iff)
  then have slash: "CHR ''/'' \<notin> set (uuid_show X u)" "CHR ''/'' \<notin> set (show_nat n)" for u n
    using assms(1) show_nat_uuid_chars by (simp_all add: uuid_laws_def)
  have "from_utf8_lossy (make_hint_key X t h i) =
      show_node X t @ ''/'' @ show_nat (unat (to_u64 h)) @ ''/'' @ show_oid X i"
    using from_utf8_lossy_valid hint_key_ascii [OF assms(1), of t h i] by (metis make_hint_key_def)
  then have "splitn 3 (CHR ''/'') (from_utf8_lossy (make_hint_key X t h i)) =
      [show_node X t, show_nat (unat (to_u64 h)), show_oid X i]"
    using splitn_three [OF slash(1,2)] by (simp add: show_node_def)
  then show ?thesis
    using assms by (simp add: fate_def show_node_def uuid_laws_def parse_u64_show not_less)
qed

section \<open>A small network\<close>

definition hand_key :: object_key where
  "hand_key = \<lparr>ok_collection = ''c'', ok_object_id = ObjectId 7\<rparr>"

definition hand_request :: write_request where
  "hand_request = \<lparr>wr_key = hand_key, wr_doc = None, wr_version = vc_new, wr_hlc = Hlc 9,
    wr_is_hint = True, wr_hint_target = Some (NodeId 3)\<rparr>"

definition hand_ext :: rep_ext where
  "hand_ext = \<lparr>uuid_show = (\<lambda>u. show_nat (unat u)), uuid_parse = (\<lambda>s. map_option word_of_nat (parse_digits s)),
    ser_versioned = (\<lambda>_. Ok [1]), de_versioned = (\<lambda>_. Ok (request_doc hand_request)),
    ser_hint = (\<lambda>_. Ok [2]), de_hint = (\<lambda>_. Ok (hint_of hand_request)), ser_document = (\<lambda>_. Ok [3])\<rparr>"

definition hand_hint_key :: bytes where
  "hand_hint_key = make_hint_key hand_ext (NodeId 3) (Hlc 9) (ObjectId 7)"

text \<open>Nodes 3 and 4, the hints of node 4 given.\<close>

definition hand_net :: "kv_map \<Rightarrow> mem_engine network" where
  "hand_net rows = register_node \<lparr>rs_node_id = NodeId 4, rs_storage =
      mem_new\<lparr>mem_cfs := (mem_cfs mem_new)(CF_HINTS \<mapsto> rows)\<rparr>\<rparr>
    (register_node \<lparr>rs_node_id = NodeId 3, rs_storage = mem_new\<rparr> network_new)"

lemma hand_laws: "uuid_laws hand_ext"
  using show_nat_uuid_chars by (simp add: uuid_laws_def hand_ext_def parse_show_nat)

lemma hand_storable: "storable hand_ext (request_doc hand_request)"
  by (simp add: storable_def hand_ext_def)

lemma hand_net_laws:
  assumes "bt_sorted rows"
  shows "net_inv mem_inv (hand_net rows)" "hints_at mem_view (NodeId 4) (hand_net rows) = rows"
    "reachable n (hand_net rows) = (\<lambda>m. m \<in> {NodeId 3, NodeId 4})"
proof -
  have "mem_inv (mem_new\<lparr>mem_cfs := (mem_cfs mem_new)(CF_HINTS \<mapsto> rows)\<rparr>)"
    by (rule mem_inv_upd [OF mem_inv_new]) (simp_all add: assms)
  then show "net_inv mem_inv (hand_net rows)"
    by (auto simp: net_inv_def hand_net_def register_node_def network_new_def mem_inv_new split: if_splits)
qed (auto simp: hints_at_def hand_net_def register_node_def mem_view_def reachable_def network_new_def fun_eq_iff)

lemma hand_fate:
  "up (NodeId 3) \<Longrightarrow> fate hand_ext 1000 up (hand_hint_key, [2]) = Delivered (NodeId 3) (hint_of hand_request)"
  unfolding hand_hint_key_def
  by (rule hint_key_fate [OF hand_laws])
    (simp_all add: hand_ext_def physical_ms_def PHYSICAL_SHIFT_def saturating_sub_def HINT_TTL_MS_def)

lemma hand_request_again: "request_doc (hint_request (hint_of hand_request)) = request_doc hand_request"
  by (simp add: request_doc_def hint_request_def hint_of_def)

section \<open>Properties\<close>

text \<open>
  C24: one pass of \<open>deliver_pending_hints\<close> over an in-memory node of the simulated
  network, in whatever state the network's links are.  It returns the number of
  hints it delivered; exactly the hints that decode, are not expired and whose
  owner is unreachable are kept; malformed, undecodable and expired hints are
  dropped; and each hint whose owner is reachable is written there, in the order of
  the hints' keys, nothing else changing on any replica.
\<close>

theorem deliver_pending_hints_correct:
  assumes "net_inv mem_inv N" "nw_nodes N n \<noteq> None" "hints_storable X (hints_at mem_view n N)"
  shows "\<exists>N'. deliver_pending_hints X (node_engine MemEngine n) (transport_for X MemEngine n) now_ms N =
      (Some (Ok (length (filter (\<lambda>row. is_delivered (fate X now_ms (reachable n N) row)) (hints_at mem_view n N)))), N') \<and>
    net_inv mem_inv N' \<and>
    hints_at mem_view n N' = filter (\<lambda>row. fate X now_ms (reachable n N) row = Kept) (hints_at mem_view n N) \<and>
    net_peek X mem_view N' =
      fold (\<lambda>row. deliver_peek X (fate X now_ms (reachable n N) row)) (hints_at mem_view n N) (net_peek X mem_view N)"
  by (rule mem.deliver_pending_hints_run [OF assms])

theorem deliver_pending_hints_correct_witness:
  "\<exists>N'. deliver_pending_hints hand_ext (node_engine MemEngine (NodeId 4)) (transport_for hand_ext MemEngine (NodeId 4)) 1000
      (hand_net [(hand_hint_key, [2])]) = (Some (Ok 1), N') \<and>
    hints_at mem_view (NodeId 4) N' = [] \<and>
    net_peek hand_ext mem_view N' (NodeId 3) (object_key_bytes hand_ext hand_key) = Some (request_doc hand_request)"
proof -
  let ?N = "hand_net [(hand_hint_key, [2])]" and ?X = hand_ext
  have s: "bt_sorted [(hand_hint_key, [2])]" by (simp add: bt_sorted_def)
  have "hints_storable ?X (hints_at mem_view (NodeId 4) ?N)"
    using hand_storable hand_request_again by (auto simp: hints_storable_def hand_ext_def hand_net_laws [OF s])
  moreover have "nw_nodes ?N (NodeId 4) \<noteq> None" by (simp add: hand_net_def register_node_def)
  ultimately show ?thesis
    using deliver_pending_hints_correct [where n = "NodeId 4" and X = ?X and now_ms = 1000, OF hand_net_laws(1) [OF s]]
    by (auto simp: hand_net_laws [OF s] hand_fate is_delivered_def hand_request_again)
      (auto simp: hint_of_def hand_request_def)
qed

lemma deliver_peek_frame:
  assumes "\<forall>row \<in> set rows. \<forall>hint. fate X now_ms up row = Delivered t hint \<longrightarrow> object_key_bytes X (hv_key hint) \<noteq> kb"
  shows "fold (\<lambda>row. deliver_peek X (fate X now_ms up row)) rows p t kb = p t kb"
  using assms
proof (induction rows arbitrary: p)
  case (Cons row rows)
  have "deliver_peek X (fate X now_ms up row) p t kb = p t kb"
    using Cons.prems by (cases "fate X now_ms up row") auto
  thus ?case using Cons by simp
qed simp

lemma fold_deliver_last:
  assumes "bt_sorted rows" "bt_get rows k = Some bs" "fate X now_ms up (k, bs) = Delivered t hint"
    and "\<forall>row \<in> set rows. k < fst row \<longrightarrow>
      (\<forall>hint'. fate X now_ms up row = Delivered t hint' \<longrightarrow> object_key_bytes X (hv_key hint') \<noteq> object_key_bytes X (hv_key hint))"
  shows "fold (\<lambda>row. deliver_peek X (fate X now_ms up row)) rows p t (object_key_bytes X (hv_key hint)) =
    Some (request_doc (hint_request hint))"
proof -
  have "(k, bs) \<in> set rows" using assms(1,2) by (simp add: bt_get_Some_iff)
  then obtain pre post where rows: "rows = pre @ (k, bs) # post" by (meson split_list)
  hence "\<forall>row \<in> set post. k < fst row" using assms(1) by (auto simp: bt_sorted_def sorted_wrt_append)
  hence "\<forall>row \<in> set post. \<forall>hint'. fate X now_ms up row = Delivered t hint' \<longrightarrow>
      object_key_bytes X (hv_key hint') \<noteq> object_key_bytes X (hv_key hint)" using assms(4) rows by auto
  from deliver_peek_frame [OF this] show ?thesis using assms(3) by (simp add: rows)
qed

text \<open>
  C6: a hint reaches its owner.  Some node accepts a hint for the owner \<open>t\<close> of a write.  Later, whatever has happened to
  the network in between, that node makes a pass over its hints.  When its row for the hint is still as it was
  written, the owner is reachable from it, and at most a day has gone by between the write's timestamp and the pass, then
  the pass succeeds and delivers at least this hint: the row is gone afterwards, and the owner holds the document
  and version of the write, provided no later hint of that node, in the order of the hints' keys, goes to the same owner
  for the same object.  (The hints of the node and the written version survive their JSON round trip.)
\<close>

theorem hinted_handoff_delivers:
  assumes "uuid_laws X" "net_inv mem_inv N"
    and "wr_is_hint req" "wr_hint_target req = Some t" "\<And>bs. ser_hint X (hint_of req) = Ok bs \<Longrightarrow> de_hint X bs = Ok (hint_of req)"
    and "t_write (transport_for X MemEngine src) n req N = (Some (Ok resp), N1)"
    and "k = make_hint_key X t (wr_hlc req) (ok_object_id (wr_key req))"
    and "net_inv mem_inv N2" "net_hints mem_view N2 n k = net_hints mem_view N1 n k"
    and "hints_storable X (hints_at mem_view n N2)" "reachable n N2 t"
    and "saturating_sub now_ms (physical_ms (wr_hlc req)) \<le> HINT_TTL_MS"
    and "\<forall>row \<in> set (hints_at mem_view n N2). k < fst row \<longrightarrow>
      (\<forall>hint. fate X now_ms (reachable n N2) row = Delivered t hint \<longrightarrow>
        object_key_bytes X (hv_key hint) \<noteq> object_key_bytes X (wr_key req))"
  shows "\<exists>m N3. hint_run_once X (node_engine MemEngine n) (transport_for X MemEngine n) now_ms N2 = (Some (Ok m), N3) \<and>
    0 < m \<and> net_inv mem_inv N3 \<and> net_hints mem_view N3 n k = None \<and>
    net_peek X mem_view N3 t (object_key_bytes X (wr_key req)) = Some (request_doc req)"
proof -
  let ?rows = "hints_at mem_view n N2" and ?up = "reachable n N2"
  have req: "request_doc (hint_request (hint_of req)) = request_doc req" "hv_key (hint_of req) = wr_key req"
    by (simp_all add: request_doc_def hint_request_def hint_of_def)
  obtain bs where bs: "ser_hint X (hint_of req) = Ok bs" "net_hints mem_view N1 n k = Some bs"
    using mem.sim_write_hint_row [OF assms(2-4), of X src n resp N1] assms(6,7) by (auto simp: transport_for_def)
  hence row: "bt_get ?rows k = Some bs" using assms(9) by (simp add: net_hints_def)
  hence node: "nw_nodes N2 n \<noteq> None" by (cases "nw_nodes N2 n") (simp_all add: hints_at_def)
  have sorted: "bt_sorted ?rows"
    using node assms(8) mem.view_sorted by (auto simp: hints_at_def net_inv_def)
  have f: "fate X now_ms ?up (k, bs) = Delivered t (hint_of req)"
    unfolding assms(7) by (rule hint_key_fate [where up = ?up, OF assms(1) assms(5) [OF bs(1)] assms(12,11)])
  obtain N3 where N3: "deliver_pending_hints X (node_engine MemEngine n) (transport_for X MemEngine n) now_ms N2 =
      (Some (Ok (length (filter (\<lambda>row. is_delivered (fate X now_ms ?up row)) ?rows))), N3)" "net_inv mem_inv N3"
    "hints_at mem_view n N3 = filter (\<lambda>row. fate X now_ms ?up row = Kept) ?rows"
    "net_peek X mem_view N3 = fold (\<lambda>row. deliver_peek X (fate X now_ms ?up row)) ?rows (net_peek X mem_view N2)"
    using mem.deliver_pending_hints_run [OF assms(8) node assms(10)] by blast
  have in_rows: "(k, b) \<in> set ?rows \<longleftrightarrow> b = bs" for b
    using bt_get_Some_iff [OF sorted, of k b] row by auto
  hence "(k, bs) \<in> set (filter (\<lambda>row. is_delivered (fate X now_ms ?up row)) ?rows)"
    using f by (simp add: is_delivered_def)
  hence "0 < length (filter (\<lambda>row. is_delivered (fate X now_ms ?up row)) ?rows)"
    by (rule length_pos_if_in_set)
  moreover have "net_hints mem_view N3 n k = None"
    using in_rows f unfolding net_hints_def N3(3) bt_get_None_iff by fastforce
  moreover have "net_peek X mem_view N3 t (object_key_bytes X (wr_key req)) = Some (request_doc req)"
    using fold_deliver_last [OF sorted row f] assms(13) unfolding N3(4) by (simp add: req)
  ultimately show ?thesis using N3(1,2) by (simp add: hint_run_once_def)
qed

theorem hinted_handoff_delivers_witness:
  "\<exists>N1 m N3. t_write (transport_for hand_ext MemEngine (NodeId 1)) (NodeId 4) hand_request (hand_net []) =
      (Some (Ok \<lparr>wresp_version = vc_new\<rparr>), N1) \<and>
    hint_run_once hand_ext (node_engine MemEngine (NodeId 4)) (transport_for hand_ext MemEngine (NodeId 4)) 1000 N1 =
      (Some (Ok m), N3) \<and> net_hints mem_view N3 (NodeId 4) hand_hint_key = None \<and>
    net_peek hand_ext mem_view N3 (NodeId 3) (object_key_bytes hand_ext hand_key) = Some (request_doc hand_request)"
proof -
  let ?T = "transport_for hand_ext MemEngine (NodeId 1)" and ?N = "hand_net []"
  have s: "bt_sorted ([] :: kv_map)" by simp
  obtain store where st: "resolve_target hand_ext ?N (NodeId 1) (NodeId 4) = Ok store"
    by (simp add: resolve_target_def hand_net_def register_node_def network_new_def)
  then have i: "mem_inv (rs_storage store)"
    using hand_net_laws(1) [OF s] by (auto simp: net_inv_def dest: resolve_target_Ok)
  obtain N1 where w: "t_write ?T (NodeId 4) hand_request ?N = (Some (Ok \<lparr>wresp_version = vc_new\<rparr>), N1)"
    using st mem.serve_hint [OF i, of hand_request hand_ext]
    by (auto simp: transport_for_def sim_write_serve on_store_def hand_request_def hand_ext_def)
  have sw: "sim_write hand_ext MemEngine (NodeId 1) (NodeId 4) hand_request ?N = (Some (Ok \<lparr>wresp_version = vc_new\<rparr>), N1)"
    using w by (simp add: transport_for_def)
  have inv: "net_inv mem_inv N1" "reachable (NodeId 4) N1 (NodeId 3)"
    using mem.sim_write_inv [OF hand_net_laws(1) [OF s], of hand_ext "NodeId 1" "NodeId 4" hand_request]
      mem.sim_write_faults [OF hand_net_laws(1) [OF s], of "NodeId 4" hand_ext "NodeId 1" "NodeId 4" hand_request] sw
    by (simp_all add: hand_net_laws(3) [OF s])
  have key: "hand_hint_key = make_hint_key hand_ext (NodeId 3) (wr_hlc hand_request) (ok_object_id (wr_key hand_request))"
    by (simp add: hand_hint_key_def hand_request_def hand_key_def)
  have "net_hints mem_view N1 (NodeId 4) = [hand_hint_key \<mapsto> [2]]"
    using mem.sim_write_hint_row [OF hand_net_laws(1) [OF s] _ _ sw, of "NodeId 3"] hand_net_laws(2) [OF s]
    by (auto simp: hand_request_def hand_ext_def key net_hints_def fun_eq_iff)
  moreover have "bt_sorted (hints_at mem_view (NodeId 4) N1)"
    using inv(1) mem.view_sorted by (auto simp: hints_at_def net_inv_def split: option.splits)
  ultimately have rows: "row = (hand_hint_key, [2])" if "row \<in> set (hints_at mem_view (NodeId 4) N1)" for row
    using that by (cases row) (auto simp: net_hints_def bt_get_Some_iff [symmetric] split: if_splits)
  have "\<exists>m N3. hint_run_once hand_ext (node_engine MemEngine (NodeId 4)) (transport_for hand_ext MemEngine (NodeId 4)) 1000 N1 =
      (Some (Ok m), N3) \<and> 0 < m \<and> net_inv mem_inv N3 \<and> net_hints mem_view N3 (NodeId 4) hand_hint_key = None \<and>
    net_peek hand_ext mem_view N3 (NodeId 3) (object_key_bytes hand_ext (wr_key hand_request)) = Some (request_doc hand_request)"
  proof (rule hinted_handoff_delivers [OF hand_laws hand_net_laws(1) [OF s] _ _ _ w key inv(1) refl _ inv(2)])
    show "hints_storable hand_ext (hints_at mem_view (NodeId 4) N1)"
      using rows hand_storable by (auto simp: hints_storable_def hand_ext_def hand_request_again)
    show "\<forall>row \<in> set (hints_at mem_view (NodeId 4) N1). hand_hint_key < fst row \<longrightarrow>
      (\<forall>hint. fate hand_ext 1000 (reachable (NodeId 4) N1) row = Delivered (NodeId 3) hint \<longrightarrow>
        object_key_bytes hand_ext (hv_key hint) \<noteq> object_key_bytes hand_ext (wr_key hand_request))"
      using rows by fastforce
  qed (simp_all add: hand_request_def hand_ext_def physical_ms_def PHYSICAL_SHIFT_def saturating_sub_def HINT_TTL_MS_def)
  then show ?thesis using w by (auto simp: hand_request_def)
qed

end
