(* ===== verification/Resp.thy ===== *)
theory Resp
  imports Text
begin

text \<open>
  The wire protocol of \<open>crates/bashfuldb-protocol/src\<close>: the types and limits of
  \<open>types.rs\<close>, the errors of \<open>error.rs\<close>, the RESP parser of \<open>parser.rs\<close> and the
  serialiser of \<open>serializer.rs\<close>.

  What a peer sends is a list of items, each a chunk of bytes that one read
  delivers or an I/O error; the end of the list, or an empty chunk, is the end of
  the stream.  Slicing a string off a character boundary panics.  A \<open>usize\<close> is a
  natural number.  Quoting and upper-casing of strings follow Unicode tables of
  the standard library and are the two fields of \<open>proto_ext\<close>.
\<close>

section \<open>Types\<close>

definition PROTOCOL_VERSION :: string where "PROTOCOL_VERSION = ''4.0.0''"

definition SERVER_BANNER :: bytes where
  "SERVER_BANNER = as_bytes ''+BASHFULDB 4.0.0'' @ [13, 10]"

definition DEFAULT_PORT :: u16 where "DEFAULT_PORT = 6380"
definition DEFAULT_MAX_CONNECTIONS :: nat where "DEFAULT_MAX_CONNECTIONS = 1024"
definition DEFAULT_MAX_LINE_LENGTH :: nat where "DEFAULT_MAX_LINE_LENGTH = 1048576"
definition DEFAULT_MAX_BULK_LENGTH :: nat where "DEFAULT_MAX_BULK_LENGTH = 16777216"
definition MAX_CONSECUTIVE_ERRORS :: nat where "MAX_CONSECUTIVE_ERRORS = 10"
definition MAX_NESTING_DEPTH :: nat where "MAX_NESTING_DEPTH = 8"

record command =
  cmd_name :: string
  cmd_args :: "bytes list"

datatype response =
    RSimple string
  | RError string
  | RInteger "64 word"
  | RBulk "bytes option"
  | RArray "response list"
  | RWarning string

datatype resp_frame =
    FSimple string
  | FError string
  | FInteger "64 word"
  | FBulk "bytes option"
  | FArray "resp_frame list option"
  | FWarning string

datatype protocol_error =
    LineTooLong nat nat
  | BulkTooLarge nat nat
  | Malformed string
  | UnexpectedEof
  | NestingTooDeep nat
  | UnknownType u8
  | TooManyConnections
  | AuthRequired
  | AuthFailed string
  | Tls string
  | ProtoIo string

definition hex_digit :: "nat \<Rightarrow> char" where
  "hex_digit d = (if d < 10 then char_of (48 + d) else char_of (87 + d))"

definition show_protocol_error :: "protocol_error \<Rightarrow> string" where
  "show_protocol_error e =
    (case e of
       LineTooLong len lim \<Rightarrow> ''line too long: '' @ show_nat len @ '' bytes exceeds max '' @ show_nat lim
     | BulkTooLarge len lim \<Rightarrow> ''bulk string too large: '' @ show_nat len @ '' bytes exceeds max '' @ show_nat lim
     | Malformed m \<Rightarrow> ''malformed protocol input: '' @ m
     | UnexpectedEof \<Rightarrow> ''unexpected end of stream''
     | NestingTooDeep n \<Rightarrow> ''array nesting too deep (max '' @ show_nat n @ '' levels)''
     | UnknownType b \<Rightarrow> ''unknown RESP type byte: 0x'' @ [hex_digit (unat b div 16), hex_digit (unat b mod 16)]
     | TooManyConnections \<Rightarrow> ''server at maximum connection capacity''
     | AuthRequired \<Rightarrow> ''authentication required''
     | AuthFailed m \<Rightarrow> ''authentication failed: '' @ m
     | Tls m \<Rightarrow> ''TLS error: '' @ m
     | ProtoIo m \<Rightarrow> ''I/O error: '' @ m)"

record proto_ext =
  px_debug :: "string \<Rightarrow> string"
  px_uppercase :: "string \<Rightarrow> string"

section \<open>The reader\<close>

type_synonym stream = "(string, bytes) result list"
type_synonym 'a parse = "(stream, protocol_error, 'a) act"

fun consume :: "nat \<Rightarrow> stream \<Rightarrow> stream" where
  "consume n (Ok c # r) = (if n < length c then Ok (drop n c) # r else r)"
| "consume n s = s"

text \<open>\<open>read_exact\<close>: the bytes, or \<open>None\<close> when the stream ends or fails before they have come.\<close>

fun read_exact :: "nat \<Rightarrow> bytes \<Rightarrow> stream \<Rightarrow> bytes option \<times> stream" where
  "read_exact n acc [] = (if n = 0 then Some acc else None, [])"
| "read_exact n acc (Err e # r) = (if n = 0 then (Some acc, Err e # r) else (None, r))"
| "read_exact n acc (Ok c # r) =
    (if n = 0 then (Some acc, Ok c # r)
     else if c = [] then (None, Ok c # r)
     else if n \<le> length c then (Some (acc @ take n c), consume n (Ok c # r))
     else read_exact (n - length c) (acc @ c) r)"

fun read_line_loop :: "nat \<Rightarrow> bytes \<Rightarrow> bytes option parse" where
  "read_line_loop max_len buf [] = (Some (if buf = [] then Ok None else Err UnexpectedEof), [])"
| "read_line_loop max_len buf (Err e # r) = (Some (Err (ProtoIo e)), r)"
| "read_line_loop max_len buf (Ok available # r) =
    (if available = [] then (Some (if buf = [] then Ok None else Err UnexpectedEof), Ok available # r)
     else
       let found = 10 \<in> set available;
           end = (if found then length (takeWhile (\<lambda>b. b \<noteq> 10) available) + 1 else length available);
           new_total = length buf + end
       in if max_len + 2 < new_total
          then (Some (Err (LineTooLong new_total max_len)), consume end (Ok available # r))
          else if found then (Some (Ok (Some (buf @ take end available))), consume end (Ok available # r))
          else read_line_loop max_len (buf @ available) r)"

definition strip_crlf :: "bytes \<Rightarrow> bytes" where
  "strip_crlf buf =
    (if 2 \<le> length buf \<and> drop (length buf - 2) buf = [13, 10] then take (length buf - 2) buf
     else if buf \<noteq> [] \<and> last buf = 10 then butlast buf
     else buf)"

definition read_line_limited :: "nat \<Rightarrow> string option parse" where
  "read_line_limited max_len =
    act_bind (read_line_loop max_len []) (\<lambda>line.
    case line of
      None \<Rightarrow> act_ok None
    | Some buf \<Rightarrow>
        (case from_utf8 (strip_crlf buf) of
           Some s \<Rightarrow> act_ok (Some s)
         | None \<Rightarrow> act_err (Malformed ''invalid UTF-8 in RESP line'')))"

section \<open>The parser\<close>

text \<open>\<open>&header[1..]\<close>, \<open>None\<close> for the panic off a character boundary.\<close>

definition slice_from_1 :: "string \<Rightarrow> string option" where
  "slice_from_1 s =
    (case s of
       [] \<Rightarrow> None
     | _ # [] \<Rightarrow> Some []
     | _ # c # r \<Rightarrow> if utf8_cont (of_char c) then None else Some (c # r))"

definition strip_prefix :: "string \<Rightarrow> string \<Rightarrow> string option" where
  "strip_prefix p s = (if take (length p) s = p then Some (drop (length p) s) else None)"

definition parse_simple :: "string \<Rightarrow> resp_frame" where
  "parse_simple payload =
    (case strip_prefix ''_warning '' payload of Some msg \<Rightarrow> FWarning msg | None \<Rightarrow> FSimple payload)"

definition parse_bulk :: "proto_ext \<Rightarrow> nat \<Rightarrow> string \<Rightarrow> resp_frame parse" where
  "parse_bulk X max_bulk payload =
    (case parse_i64 payload of
       None \<Rightarrow> act_err (Malformed (''invalid bulk length: '' @ px_debug X payload))
     | Some len_i \<Rightarrow>
         if len_i < 0 then act_ok (FBulk None)
         else if max_bulk < nat len_i then act_err (BulkTooLarge (nat len_i) max_bulk)
         else (\<lambda>s. case read_exact (nat len_i) [] s of
             (None, s1) \<Rightarrow> (Some (Err UnexpectedEof), s1)
           | (Some data, s1) \<Rightarrow>
               (case read_exact 2 [] s1 of
                  (None, s2) \<Rightarrow> (Some (Err UnexpectedEof), s2)
                | (Some crlf, s2) \<Rightarrow>
                    if crlf \<noteq> [13, 10]
                    then (Some (Err (Malformed ''expected CRLF after bulk string data'')), s2)
                    else (Some (Ok (FBulk (Some data))), s2))))"

text \<open>The frames that are not arrays.\<close>

definition parse_scalar :: "proto_ext \<Rightarrow> nat \<Rightarrow> char \<Rightarrow> string \<Rightarrow> resp_frame parse" where
  "parse_scalar X max_bulk type_byte payload =
    (if type_byte = CHR ''+'' then act_ok (parse_simple payload)
     else if type_byte = CHR ''-'' then act_ok (FError payload)
     else if type_byte = CHR '':'' then
       (case parse_i64 payload of
          None \<Rightarrow> act_err (Malformed (''invalid integer: '' @ px_debug X payload))
        | Some n \<Rightarrow> act_ok (FInteger (word_of_int n)))
     else if type_byte = CHR ''$'' then parse_bulk X max_bulk payload
     else act_err (UnknownType (of_char type_byte)))"

text \<open>The header line of a frame, split into its type byte and its payload.\<close>

definition parse_header :: "nat \<Rightarrow> (char \<times> string) option parse" where
  "parse_header max_line =
    act_bind (read_line_limited max_line) (\<lambda>line.
    case line of
      None \<Rightarrow> act_ok None
    | Some header \<Rightarrow>
        if header = [] then act_err (Malformed ''received empty RESP header line'')
        else (case slice_from_1 header of
            None \<Rightarrow> act_panic
          | Some payload \<Rightarrow> act_ok (Some (hd header, payload))))"

function parse_frame_inner :: "proto_ext \<Rightarrow> nat \<Rightarrow> nat \<Rightarrow> nat \<Rightarrow> resp_frame option parse"
  and parse_elements :: "proto_ext \<Rightarrow> nat \<Rightarrow> nat \<Rightarrow> nat \<Rightarrow> nat \<Rightarrow> resp_frame list parse" where
  "parse_frame_inner X max_line max_bulk depth =
    (if MAX_NESTING_DEPTH < depth then act_err (NestingTooDeep MAX_NESTING_DEPTH)
     else act_bind (parse_header max_line) (\<lambda>hd.
       case hd of
         None \<Rightarrow> act_ok None
       | Some (type_byte, payload) \<Rightarrow>
           if type_byte = CHR ''*'' then
             (case parse_i64 payload of
                None \<Rightarrow> act_err (Malformed (''invalid array count: '' @ px_debug X payload))
              | Some count_i \<Rightarrow>
                  if count_i < 0 then act_ok (Some (FArray None))
                  else act_bind (parse_elements X max_line max_bulk (depth + 1) (nat count_i))
                    (\<lambda>elements. act_ok (Some (FArray (Some elements)))))
           else act_bind (parse_scalar X max_bulk type_byte payload) (\<lambda>f. act_ok (Some f))))"
| "parse_elements X max_line max_bulk depth count =
    (case count of
       0 \<Rightarrow> act_ok []
     | Suc n \<Rightarrow>
         act_bind (parse_frame_inner X max_line max_bulk depth) (\<lambda>frame.
         case frame of
           None \<Rightarrow> act_err UnexpectedEof
         | Some elem \<Rightarrow>
             act_bind (parse_elements X max_line max_bulk depth n) (\<lambda>elems. act_ok (elem # elems))))"
  by pat_completeness auto

termination
  by (relation "inv_image (less_than <*lex*> less_than)
      (\<lambda>x. case x of Inl (_, _, _, depth) \<Rightarrow> (9 - depth, 0) | Inr (_, _, _, depth, n) \<Rightarrow> (9 - depth, Suc n))")
    (auto simp: MAX_NESTING_DEPTH_def)

declare parse_frame_inner.simps [simp del] parse_elements.simps [simp del]

definition parse_frame :: "proto_ext \<Rightarrow> nat \<Rightarrow> nat \<Rightarrow> resp_frame option parse" where
  "parse_frame X max_line max_bulk = parse_frame_inner X max_line max_bulk 0"

fun frame_arg :: "resp_frame \<Rightarrow> (protocol_error, bytes) result" where
  "frame_arg (FBulk (Some b)) = Ok b"
| "frame_arg (FBulk None) = Ok []"
| "frame_arg (FSimple s) = Ok (as_bytes s)"
| "frame_arg _ = Err (Malformed ''command arguments must be bulk strings'')"

text \<open>\<open>collect\<close> into a \<open>Result\<close>: the first error, or all values.\<close>

primrec frame_args :: "resp_frame list \<Rightarrow> (protocol_error, bytes list) result" where
  "frame_args [] = Ok []"
| "frame_args (f # fs) =
    (case frame_arg f of
       Err e \<Rightarrow> Err e
     | Ok b \<Rightarrow> (case frame_args fs of Err e \<Rightarrow> Err e | Ok bs \<Rightarrow> Ok (b # bs)))"

fun frame_name :: "resp_frame \<Rightarrow> (protocol_error, string) result" where
  "frame_name (FBulk (Some b)) =
    (case from_utf8 b of Some s \<Rightarrow> Ok s | None \<Rightarrow> Err (Malformed ''command name is not valid UTF-8''))"
| "frame_name (FSimple s) = Ok s"
| "frame_name _ = Err (Malformed ''command name must be a bulk string'')"

definition frame_array_to_command ::
  "proto_ext \<Rightarrow> resp_frame list \<Rightarrow> (protocol_error, command option) result" where
  "frame_array_to_command X elements =
    (case elements of
       [] \<Rightarrow> Err (Malformed ''command array is empty'')
     | name_raw # rest \<Rightarrow>
         (case frame_name name_raw of
            Err e \<Rightarrow> Err e
          | Ok name \<Rightarrow>
              (case frame_args rest of
                 Err e \<Rightarrow> Err e
               | Ok args \<Rightarrow> Ok (Some \<lparr>cmd_name = px_uppercase X name, cmd_args = args\<rparr>))))"

definition parse_command :: "proto_ext \<Rightarrow> nat \<Rightarrow> nat \<Rightarrow> command option parse" where
  "parse_command X max_line max_bulk =
    act_bind (parse_frame_inner X max_line max_bulk 0) (\<lambda>frame.
    case frame of
      None \<Rightarrow> act_ok None
    | Some (FArray (Some elements)) \<Rightarrow>
        if elements \<noteq> [] then act_of_result (frame_array_to_command X elements)
        else act_err (Malformed ''command array must not be empty'')
    | Some (FArray None) \<Rightarrow> act_err (Malformed ''null array is not a valid command'')
    | Some _ \<Rightarrow> act_err (Malformed ''commands must be sent as RESP arrays''))"

section \<open>The serialiser\<close>

fun write_to_buf :: "response \<Rightarrow> bytes" where
  "write_to_buf (RSimple s) = as_bytes (''+'' @ s) @ [13, 10]"
| "write_to_buf (RError s) = as_bytes (''-'' @ s) @ [13, 10]"
| "write_to_buf (RInteger n) = as_bytes ('':'' @ show_int (sint n)) @ [13, 10]"
| "write_to_buf (RBulk None) = as_bytes ''$-1'' @ [13, 10]"
| "write_to_buf (RBulk (Some data)) = as_bytes (''$'' @ show_nat (length data)) @ [13, 10] @ data @ [13, 10]"
| "write_to_buf (RArray items) = as_bytes (''*'' @ show_nat (length items)) @ [13, 10] @ concat (map write_to_buf items)"
| "write_to_buf (RWarning s) = as_bytes (''+_warning '' @ s) @ [13, 10]"

definition serialize_response :: "response \<Rightarrow> bytes" where
  "serialize_response resp = write_to_buf resp"

definition bulk :: "bytes \<Rightarrow> response" where
  "bulk data = RBulk (Some data)"

end
