(* ===== verification/Wire.thy ===== *)
theory Wire
  imports Resp
begin

text \<open>
  The laws of the wire protocol: a response that is written is parsed back to the
  frame it stands for, however the network cuts the bytes into reads; parsing always
  consumes input; and the one input on which the parser panics.
\<close>

section \<open>Streams without faults\<close>

text \<open>The reads deliver exactly \<open>bs\<close> and then the end of the stream, in non-empty chunks.\<close>

fun clean :: "stream \<Rightarrow> bool" where
  "clean [] = True"
| "clean (Err e # s) = False"
| "clean (Ok c # s) = (c \<noteq> [] \<and> clean s)"

fun flat :: "stream \<Rightarrow> bytes" where
  "flat [] = []"
| "flat (Err e # s) = []"
| "flat (Ok c # s) = c @ flat s"

definition delivers :: "stream \<Rightarrow> bytes \<Rightarrow> bool" where
  "delivers s bs \<longleftrightarrow> clean s \<and> flat s = bs"

lemma delivers_Nil [simp]: "delivers [] bs \<longleftrightarrow> bs = []"
  by (auto simp: delivers_def)

lemma delivers_Cons:
  "delivers (i # s) bs \<longleftrightarrow> (\<exists>c bs'. i = Ok c \<and> c \<noteq> [] \<and> bs = c @ bs' \<and> delivers s bs')"
  by (cases i) (auto simp: delivers_def)

lemma delivers_consume:
  assumes "delivers s bs'" "c \<noteq> []" "n \<le> length c"
  shows "delivers (consume n (Ok c # s)) (drop n c @ bs')"
  using assms by (cases "n < length c") (auto simp: delivers_Cons)

lemma read_exact_delivers:
  "delivers s (d @ rest) \<Longrightarrow> \<exists>t. read_exact (length d) acc s = (Some (acc @ d), t) \<and> delivers t rest"
proof (induction s arbitrary: d acc)
  case Nil
  thus ?case by simp
next
  case (Cons i s)
  obtain c bs' where c: "i = Ok c" "c \<noteq> []" "d @ rest = c @ bs'" "delivers s bs'"
    using Cons.prems by (auto simp: delivers_Cons)
  show ?case
  proof (cases "length d \<le> length c")
    case True
    hence "take (length d) c = d" "rest = drop (length d) c @ bs'"
      using c(3) by (metis append_eq_append_conv_if append_take_drop_id)+
    thus ?thesis
      using c True Cons.prems delivers_consume [OF c(4,2) True] by (cases "d = []") auto
  next
    case False
    then obtain d' where d': "d = c @ d'" using c(3) by (auto simp: append_eq_append_conv2)
    hence "delivers s (d' @ rest)" using c(3,4) by simp
    from Cons.IH [OF this, of "acc @ c"] obtain t where
      "read_exact (length d') (acc @ c) s = (Some ((acc @ c) @ d'), t)" "delivers t rest" by blast
    thus ?thesis using c d' False by (cases "d' = []") auto
  qed
qed

lemma read_line_delivers:
  assumes "delivers s (line @ [10] @ rest)" "10 \<notin> set line" "length buf + length line + 1 \<le> max_len + 2"
  shows "\<exists>t. read_line_loop max_len buf s = (Some (Ok (Some (buf @ line @ [10]))), t) \<and> delivers t rest"
  using assms
proof (induction s arbitrary: buf line)
  case (Cons i s)
  obtain c bs' where c: "i = Ok c" "c \<noteq> []" "line @ 10 # rest = c @ bs'" "delivers s bs'"
    using Cons.prems by (auto simp: delivers_Cons)
  show ?case
  proof (cases "length line < length c")
    case True
    then obtain r where r: "c = line @ 10 # r" "rest = r @ bs'"
      using c(3) by (auto simp: append_eq_append_conv2 Cons_eq_append_conv)
    have "takeWhile (\<lambda>b. b \<noteq> 10) c = line"
      unfolding r(1) using Cons.prems(2) by (subst takeWhile_append2) auto
    thus ?thesis
      using c(1,2) r Cons.prems(3) delivers_consume [OF c(4,2), of "length line + 1"]
      by (auto simp: Let_def)
  next
    case False
    then obtain l' where l': "line = c @ l'" using c(3) by (auto simp: append_eq_append_conv2)
    hence "delivers s (l' @ [10] @ rest)" using c(3,4) by simp
    from Cons.IH [OF this, of "buf @ c"] show ?thesis
      using c l' Cons.prems by (auto simp: Let_def)
  qed
qed simp

section \<open>Header lines\<close>

lemma utf8_valid_Cons_ascii: "a \<le> 0x7F \<Longrightarrow> utf8_valid (a # r) \<longleftrightarrow> utf8_valid r"
  by (simp add: utf8_valid.simps [of "a # r"] utf8_step_def)

lemma word_bounds: "utf8_cont b \<longleftrightarrow> 128 \<le> unat b \<and> unat b \<le> 191" "b \<le> 0x7F \<longleftrightarrow> unat b \<le> 127"
  by (simp_all add: utf8_cont_def word_le_nat_alt)

lemma utf8_first_not_cont: "utf8_valid (a # r) \<Longrightarrow> \<not> utf8_cont a"
  by (auto simp: utf8_valid.simps [of "a # r"] utf8_step_def utf8_cont_def word_le_nat_alt Let_def
    split: if_splits prod.splits list.splits)

lemma slice_ascii:
  assumes "(of_char c :: u8) \<le> 0x7F" "utf8_valid (as_bytes (c # p))"
  shows "slice_from_1 (c # p) = Some p"
proof (cases p)
  case (Cons d r)
  hence "utf8_valid (of_char d # as_bytes r)"
    using assms utf8_valid_Cons_ascii [OF assms(1)] by (simp add: as_bytes_def)
  thus ?thesis using utf8_first_not_cont Cons by (simp add: slice_from_1_def)
qed (simp add: slice_from_1_def)

lemma strip_crlf_line [simp]: "strip_crlf (l @ [13, 10]) = l"
  by (simp add: strip_crlf_def)

lemma read_line_limited_delivers:
  assumes "delivers s (as_bytes h @ [13, 10] @ rest)" "utf8_valid (as_bytes h)" "10 \<notin> set (as_bytes h)"
    "length h \<le> max_line"
  shows "\<exists>t. read_line_limited max_line s = (Some (Ok (Some h)), t) \<and> delivers t rest"
proof -
  obtain t where "read_line_loop max_line [] s = (Some (Ok (Some ((as_bytes h @ [13]) @ [10]))), t)" "delivers t rest"
    using read_line_delivers [of s "as_bytes h @ [13]" rest "[]" max_line] assms by auto
  thus ?thesis
    using assms(2) strip_crlf_line [of "as_bytes h"]
    by (simp add: read_line_limited_def act_bind_def act_ok_def from_utf8_as_bytes)
qed

lemma header_delivers:
  assumes "delivers s (as_bytes (c # p) @ [13, 10] @ rest)" "(of_char c :: u8) \<le> 0x7F"
    "utf8_valid (as_bytes p)" "10 \<notin> set (as_bytes (c # p))" "length p < max_line"
  shows "\<exists>t. parse_header max_line s = (Some (Ok (Some (c, p))), t) \<and> delivers t rest"
proof -
  have v: "utf8_valid (as_bytes (c # p))"
    using assms(2,3) utf8_valid_Cons_ascii [of "of_char c"] by (simp add: as_bytes_def)
  obtain t where "read_line_limited max_line s = (Some (Ok (Some (c # p))), t)" "delivers t rest"
    using read_line_limited_delivers [OF assms(1) v assms(4), of max_line] assms(5) by auto
  thus ?thesis using slice_ascii [OF assms(2) v] by (simp add: parse_header_def act_bind_def act_ok_def)
qed

section \<open>Round trip\<close>

text \<open>
  The frame a response stands for, and what the limits ask of a response.  A warning travels as a simple string with
  a marker in front, so a simple string that begins with the marker stands for the warning.
\<close>

fun frame_of :: "response \<Rightarrow> resp_frame" where
  "frame_of (RSimple s) = (case strip_prefix ''_warning '' s of Some m \<Rightarrow> FWarning m | None \<Rightarrow> FSimple s)"
| "frame_of (RError s) = FError s"
| "frame_of (RInteger n) = FInteger n"
| "frame_of (RBulk b) = FBulk b"
| "frame_of (RArray items) = FArray (Some (map frame_of items))"
| "frame_of (RWarning s) = FWarning s"

definition line_ok :: "nat \<Rightarrow> string \<Rightarrow> bool" where
  "line_ok max_line s \<longleftrightarrow> utf8_valid (as_bytes s) \<and> 10 \<notin> set (as_bytes s) \<and> length s < max_line"

fun response_ok :: "nat \<Rightarrow> nat \<Rightarrow> nat \<Rightarrow> response \<Rightarrow> bool" where
  "response_ok ml mb d (RSimple s) = line_ok ml s"
| "response_ok ml mb d (RError s) = line_ok ml s"
| "response_ok ml mb d (RInteger n) = (length (show_int (sint n)) < ml)"
| "response_ok ml mb d (RBulk None) = (2 < ml)"
| "response_ok ml mb d (RBulk (Some b)) = (length b \<le> mb \<and> length b < 2 ^ 63 \<and> length (show_nat (length b)) < ml)"
| "response_ok ml mb d (RArray items) =
    (length items < 2 ^ 63 \<and> length (show_nat (length items)) < ml \<and>
     (items \<noteq> [] \<longrightarrow> d < MAX_NESTING_DEPTH) \<and> list_all (response_ok ml mb (d + 1)) items)"
| "response_ok ml mb d (RWarning s) = line_ok ml (''_warning '' @ s)"

lemma digits_line:
  assumes "list_all (\<lambda>c. is_digit c \<or> c = CHR ''-'') s" "length s < ml"
  shows "line_ok ml s"
proof -
  have "\<forall>c \<in> set s. (of_char c :: u8) \<le> 0x7F \<and> (of_char c :: u8) \<noteq> 10"
    using assms(1) by (auto simp: list_all_iff is_digit_def word_le_nat_alt word_unat_eq_iff)
  thus ?thesis
    using assms(2) by (auto simp: line_ok_def as_bytes_def list_all_iff intro!: utf8_valid_ascii)
qed

lemma show_nat_line: "length (show_nat n) < ml \<Longrightarrow> line_ok ml (show_nat n)"
  using show_nat_laws [of n] by (auto simp: list_all_iff intro!: digits_line)

lemma show_int_line: "length (show_int i) < ml \<Longrightarrow> line_ok ml (show_int i)"
  using show_nat_laws by (auto simp: list_all_iff show_int_def intro!: digits_line)

lemma parse_i64_nat: "n < 2 ^ 63 \<Longrightarrow> parse_i64 (show_nat n) = Some (int n)"
  using parse_i64_show [of "int n"] by (simp add: show_int_def)

lemma parse_i64_word: "parse_i64 (show_int (sint n)) = Some (sint n)" for n :: "64 word"
  using parse_i64_show [of "sint n"] sint_lt [of n] sint_ge [of n] by simp

lemma line_header:
  assumes "delivers s (as_bytes (c # p) @ [13, 10] @ rest)" "line_ok ml p"
    "(of_char c :: u8) \<le> 0x7F \<and> (of_char c :: u8) \<noteq> 10"
  shows "\<exists>t. parse_header ml s = (Some (Ok (Some (c, p))), t) \<and> delivers t rest"
  using header_delivers [OF assms(1)] assms(2,3) by (auto simp: line_ok_def as_bytes_def)

lemma scalar_frame:
  assumes "parse_header ml s = (Some (Ok (Some (c, p))), t)" "c \<noteq> CHR ''*''" "d \<le> MAX_NESTING_DEPTH"
    "parse_scalar X mb c p t = (Some (Ok f), u)"
  shows "parse_frame_inner X ml mb d s = (Some (Ok (Some f)), u)"
  using assms by (simp add: parse_frame_inner.simps act_bind_def act_ok_def)

lemma bulk_delivers:
  assumes "delivers s (b @ [13, 10] @ rest)" "length b \<le> mb" "length b < 2 ^ 63"
  shows "\<exists>t. parse_bulk X mb (show_nat (length b)) s = (Some (Ok (FBulk (Some b))), t) \<and> delivers t rest"
proof -
  obtain t where t: "read_exact (length b) [] s = (Some b, t)" "delivers t ([13, 10] @ rest)"
    using read_exact_delivers [OF assms(1), of "[]"] by auto
  obtain u where "read_exact 2 [] t = (Some [13, 10], u)" "delivers u rest"
    using read_exact_delivers [OF t(2), of "[]"] by (auto simp: numeral_2_eq_2)
  thus ?thesis using t assms(2) by (simp add: parse_bulk_def parse_i64_nat [OF assms(3)])
qed

lemma elements_delivers:
  assumes "\<And>r d s rest. r \<in> set items \<Longrightarrow> response_ok ml mb d r \<Longrightarrow> d \<le> MAX_NESTING_DEPTH \<Longrightarrow>
      delivers s (write_to_buf r @ rest) \<Longrightarrow>
      \<exists>t. parse_frame_inner X ml mb d s = (Some (Ok (Some (frame_of r))), t) \<and> delivers t rest"
    and "list_all (response_ok ml mb d) items" "items \<noteq> [] \<longrightarrow> d \<le> MAX_NESTING_DEPTH"
    and "delivers s (concat (map write_to_buf items) @ rest)"
  shows "\<exists>t. parse_elements X ml mb d (length items) s = (Some (Ok (map frame_of items)), t) \<and> delivers t rest"
  using assms
proof (induction items arbitrary: s)
  case Nil
  thus ?case by (simp add: parse_elements.simps act_ok_def)
next
  case (Cons r items)
  obtain t where t: "parse_frame_inner X ml mb d s = (Some (Ok (Some (frame_of r))), t)"
    "delivers t (concat (map write_to_buf items) @ rest)"
    using Cons.prems(1) [of r d s "concat (map write_to_buf items) @ rest"] Cons.prems(2-4) by auto
  obtain u where "parse_elements X ml mb d (length items) t = (Some (Ok (map frame_of items)), u)" "delivers u rest"
    using Cons.IH [OF Cons.prems(1) _ _ t(2)] Cons.prems(2,3) by auto
  thus ?case using t(1) by (simp add: parse_elements.simps [of X ml mb d "Suc (length items)"] act_bind_def act_ok_def)
qed

lemma roundtrip_inner:
  assumes "response_ok ml mb d r" "d \<le> MAX_NESTING_DEPTH" "delivers s (write_to_buf r @ rest)"
  shows "\<exists>t. parse_frame_inner X ml mb d s = (Some (Ok (Some (frame_of r))), t) \<and> delivers t rest"
  using assms
proof (induction r arbitrary: d s rest)
  case (RSimple m)
  then obtain t where "parse_header ml s = (Some (Ok (Some (CHR ''+'', m))), t)" "delivers t rest"
    using line_header [of s "CHR ''+''" m rest ml] by auto
  thus ?case using RSimple scalar_frame by (auto simp: parse_scalar_def parse_simple_def act_ok_def split: option.splits)
next
  case (RError m)
  then obtain t where "parse_header ml s = (Some (Ok (Some (CHR ''-'', m))), t)" "delivers t rest"
    using line_header [of s "CHR ''-''" m rest ml] by auto
  thus ?case using RError scalar_frame by (auto simp: parse_scalar_def act_ok_def)
next
  case (RInteger n)
  then obtain t where "parse_header ml s = (Some (Ok (Some (CHR '':'', show_int (sint n)))), t)" "delivers t rest"
    using line_header [of s "CHR '':''" "show_int (sint n)" rest ml] show_int_line by auto
  thus ?case using RInteger scalar_frame by (auto simp: parse_scalar_def act_ok_def parse_i64_word)
next
  case (RBulk b)
  show ?case
  proof (cases b)
    case None
    have "line_ok ml ''-1''" using None RBulk.prems(1) by (intro digits_line) (auto simp: is_digit_def)
    then obtain t where "parse_header ml s = (Some (Ok (Some (CHR ''$'', ''-1''))), t)" "delivers t rest"
      using line_header [of s "CHR ''$''" "''-1''" rest ml] RBulk None by auto
    moreover have "parse_i64 ''-1'' = Some (- 1)" by code_simp
    ultimately show ?thesis
      using RBulk None scalar_frame by (auto simp: parse_scalar_def parse_bulk_def act_ok_def)
  next
    case (Some bs)
    then obtain t where t: "parse_header ml s = (Some (Ok (Some (CHR ''$'', show_nat (length bs)))), t)"
      "delivers t (bs @ [13, 10] @ rest)"
      using line_header [of s "CHR ''$''" "show_nat (length bs)" "bs @ [13, 10] @ rest" ml] RBulk show_nat_line by auto
    obtain u where "parse_bulk X mb (show_nat (length bs)) t = (Some (Ok (FBulk (Some bs))), u)" "delivers u rest"
      using bulk_delivers [OF t(2), of mb X] RBulk.prems(1) Some by auto
    thus ?thesis using t(1) RBulk Some scalar_frame by (auto simp: parse_scalar_def)
  qed
next
  case (RArray items)
  obtain t where t: "parse_header ml s = (Some (Ok (Some (CHR ''*'', show_nat (length items)))), t)"
    "delivers t (concat (map write_to_buf items) @ rest)"
    using line_header [of s "CHR ''*''" "show_nat (length items)" "concat (map write_to_buf items) @ rest" ml]
      RArray.prems show_nat_line by auto
  obtain u where "parse_elements X ml mb (d + 1) (length items) t = (Some (Ok (map frame_of items)), u)" "delivers u rest"
    using elements_delivers [of items ml mb X "d + 1" t rest] RArray.IH RArray.prems(1) t(2) by auto
  thus ?case
    using t(1) RArray.prems by (simp add: parse_frame_inner.simps [of X ml mb d] act_bind_def act_ok_def parse_i64_nat)
next
  case (RWarning m)
  then obtain t where "parse_header ml s = (Some (Ok (Some (CHR ''+'', ''_warning '' @ m))), t)" "delivers t rest"
    using line_header [of s "CHR ''+''" "''_warning '' @ m" rest ml] by auto
  thus ?case using RWarning scalar_frame by (auto simp: parse_scalar_def parse_simple_def act_ok_def strip_prefix_def)
qed

section \<open>Progress\<close>

definition weight :: "stream \<Rightarrow> nat" where
  "weight s = sum_list (map (\<lambda>i. case i of Ok c \<Rightarrow> Suc (length c) | Err _ \<Rightarrow> 1) s)"

lemma weight_simps [simp]:
  "weight [] = 0" "weight (Ok c # s) = Suc (length c) + weight s" "weight (Err e # s) = Suc (weight s)"
  by (simp_all add: weight_def)

abbreviation shrinking :: "'a parse \<Rightarrow> bool" where
  "shrinking m \<equiv> act_moves (\<lambda>s t. weight t \<le> weight s) m"

lemma weight_consume: "0 < n \<Longrightarrow> weight (consume n (Ok c # s)) < weight (Ok c # s)"
  by simp arith

lemma weight_read_exact: "weight (snd (read_exact n acc s)) \<le> weight s"
  by (induction n acc s rule: read_exact.induct) auto

lemma shrinking_line_loop: "shrinking (read_line_loop max_len buf)"
proof -
  have "weight (snd (read_line_loop max_len buf s)) \<le> weight s" for s
  proof (induction s arbitrary: buf)
    case (Cons i r)
    show ?case using Cons.IH [of "buf @ projr i"] by (cases i) (auto simp: Let_def)
  qed simp
  thus ?thesis by (simp add: act_moves_def)
qed

lemma line_loop_progress:
  "fst (read_line_loop max_len [] s) \<noteq> Some (Ok None) \<Longrightarrow> weight (snd (read_line_loop max_len [] s)) < weight s"
proof (cases s)
  case (Cons i r)
  assume "fst (read_line_loop max_len [] s) \<noteq> Some (Ok None)"
  thus ?thesis
    using Cons shrinking_line_loop [of max_len "projr i"]
    by (cases i) (auto simp: Let_def act_moves_def intro: le_less_trans split: if_splits)
qed simp

lemmas shrinking_intros = act_moves_bind [of "\<lambda>s t. weight t \<le> weight s"]
  act_moves_simple [of "\<lambda>s t. weight t \<le> weight s"] shrinking_line_loop

lemma shrinking_order [simp]: "transp (\<lambda>s t. weight t \<le> weight s)" "reflp (\<lambda>s t. weight t \<le> weight s)"
  by (auto simp: transp_def reflp_def)

lemma shrinking_panic [simp]: "shrinking act_panic" by (simp add: act_moves_def act_panic_def)

lemma shrinking_header: "shrinking (parse_header ml)"
  by (auto simp: parse_header_def read_line_limited_def intro!: shrinking_intros split: option.splits)

lemma shrinking_scalar: "shrinking (parse_scalar X mb c p)"
proof -
  have "shrinking (parse_bulk X mb p)"
  proof (cases "parse_i64 p")
    case (Some i)
    have "weight (snd (read_exact 2 [] (snd (read_exact (nat i) [] s)))) \<le> weight s" for s
      using weight_read_exact order_trans by blast
    thus ?thesis using Some weight_read_exact
      by (auto simp: parse_bulk_def act_moves_def act_err_def act_ok_def split: prod.splits option.splits)
        (metis snd_conv)+
  qed (auto simp: parse_bulk_def intro!: shrinking_intros)
  thus ?thesis by (auto simp: parse_scalar_def intro!: shrinking_intros split: option.splits)
qed

lemma shrinking_frame:
  "shrinking (parse_frame_inner X ml mb d)" "shrinking (parse_elements X ml mb d' n)"
proof (induction X ml mb d and X ml mb d' n rule: parse_frame_inner_parse_elements.induct)
  case (1 X ml mb d)
  show ?case
    by (subst parse_frame_inner.simps)
      (auto intro!: shrinking_intros shrinking_header shrinking_scalar 1 [unfolded Suc_eq_plus1 [symmetric]] split: option.splits)
next
  case (2 X ml mb d n)
  show ?case
    by (subst parse_elements.simps) (auto intro!: shrinking_intros 2 split: option.splits nat.splits)
qed

text \<open>Whoever parses a command or a frame at the end of the stream is told so; every other call consumes input.\<close>

lemma act_bind_progress:
  assumes "fst (m s) \<noteq> Some (Ok None) \<Longrightarrow> weight (snd (m s)) < weight s" "\<And>a. shrinking (f (Some a))"
    "f None = act_ok None" "fst (act_bind m f s) \<noteq> Some (Ok None)"
  shows "weight (snd (act_bind m f s)) < weight s"
proof -
  obtain r t where m: "m s = (r, t)" by fastforce
  have "weight (snd (f (Some a) t)) \<le> weight t" for a using assms(2) by (simp add: act_moves_def)
  thus ?thesis
    using assms(1,3,4) m
    by (cases "r = Some (Ok None)")
      (auto simp: act_bind_def act_ok_def intro: le_less_trans split: option.splits sum.splits)
qed

lemma header_progress:
  assumes "fst (parse_header ml s) \<noteq> Some (Ok None)"
  shows "weight (snd (parse_header ml s)) < weight s"
proof -
  have line: "weight (snd (read_line_limited ml s)) < weight s" if "fst (read_line_limited ml s) \<noteq> Some (Ok None)"
    using that unfolding read_line_limited_def
    by (rule act_bind_progress [rotated 3])
      (auto intro!: shrinking_intros line_loop_progress split: option.splits)
  show ?thesis
    using assms unfolding parse_header_def
    by (rule act_bind_progress [rotated 3]) (auto intro!: shrinking_intros line split: option.splits)
qed

lemma frame_progress:
  assumes "d \<le> MAX_NESTING_DEPTH" "fst (parse_frame_inner X ml mb d s) \<noteq> Some (Ok None)"
  shows "weight (snd (parse_frame_inner X ml mb d s)) < weight s"
proof -
  note eq = parse_frame_inner.simps [of X ml mb d, unfolded if_not_P [OF assms(1) [folded not_less]]]
  show ?thesis
    using assms(2) unfolding eq
    by (rule act_bind_progress [rotated 3])
      (auto intro!: shrinking_intros shrinking_frame shrinking_scalar header_progress split: option.splits)
qed

lemma command_progress:
  assumes "fst (parse_command X ml mb s) \<noteq> Some (Ok None)"
  shows "weight (snd (parse_command X ml mb s)) < weight s"
  using assms unfolding parse_command_def
  by (rule act_bind_progress [rotated 3])
    (auto intro!: shrinking_intros frame_progress split: resp_frame.splits option.splits)

section \<open>Properties\<close>

text \<open>
  C7: A response that fits the limits on lines, bulk strings and nesting, and whose simple strings, errors and warnings
  have no line feed, is parsed back to the frame it stands for, and exactly its
  bytes are consumed, however the network cuts them into reads.  This covers arrays
  nested to the depth limit, null bulk strings and binary bulk data (line feeds included).  The frame is of the
  response's own kind but for a simple string that begins with the warning marker, which comes back as that warning.
\<close>

theorem serialize_parse:
  assumes "response_ok max_line max_bulk 0 r" "delivers s (serialize_response r @ rest)"
  shows "\<exists>t. parse_frame X max_line max_bulk s = (Some (Ok (Some (frame_of r))), t) \<and> delivers t rest"
  using roundtrip_inner [of max_line max_bulk 0 r s rest X] assms
  by (simp add: parse_frame_def serialize_response_def MAX_NESTING_DEPTH_def)

theorem serialize_parse_witness:
  "\<exists>t. parse_frame \<lparr>px_debug = id, px_uppercase = id\<rparr> 64 64
      (map (\<lambda>b. Ok [b]) (serialize_response (RArray [RSimple ''OK'', RSimple ''_warning x'', RBulk (Some [10, 0, 255]), RBulk None]) @ [43])) =
    (Some (Ok (Some (FArray (Some [FSimple ''OK'', FWarning ''x'', FBulk (Some [10, 0, 255]), FBulk None])))), t) \<and> delivers t [43]"
proof -
  let ?r = "RArray [RSimple ''OK'', RSimple ''_warning x'', RBulk (Some [10, 0, 255]), RBulk None]"
  have flow: "delivers (map (\<lambda>b. Ok [b]) bs) bs" for bs
    by (induction bs) (auto simp: delivers_Cons)
  have "line_ok 64 ''OK''" "line_ok 64 ''_warning x''"
    by (auto simp: line_ok_def as_bytes_def intro!: utf8_valid_ascii)
  hence "response_ok 64 64 0 ?r"
    by (simp add: MAX_NESTING_DEPTH_def strip_prefix_def show_nat.simps)
  from serialize_parse [where rest = "[43]" and X = "\<lparr>px_debug = id, px_uppercase = id\<rparr>", OF this flow]
  show ?thesis by (simp add: strip_prefix_def)
qed

lemma multibyte_slice:
  assumes "utf8_valid (as_bytes h)" "h \<noteq> []" "\<not> (of_char (hd h) :: u8) \<le> 0x7F"
  shows "slice_from_1 h = None"
proof -
  obtain a r where h: "as_bytes h = a # r" "a = of_char (hd h)"
    using assms(2) by (cases h) (auto simp: as_bytes_def)
  have "\<exists>c r'. r = c # r' \<and> utf8_cont c"
    using assms(1,3) unfolding h utf8_valid.simps [of "of_char (hd h) # r"]
    by (auto simp: utf8_step_def utf8_cont_def word_le_nat_alt Let_def split: if_splits list.splits prod.splits)
  thus ?thesis
    using h assms(2) by (auto simp: slice_from_1_def as_bytes_def split: list.splits)
qed

text \<open>
  A header line whose first character is not ASCII makes the parser panic instead of
  returning an error: the type byte is cut off with a string slice, and byte 1 of such a
  line is not a character boundary.
\<close>

theorem multibyte_header_panics:
  assumes "delivers s (as_bytes h @ [13, 10] @ rest)" "utf8_valid (as_bytes h)" "h \<noteq> []"
    "\<not> (of_char (hd h) :: u8) \<le> 0x7F" "10 \<notin> set (as_bytes h)" "length h \<le> max_line"
  shows "fst (parse_command X max_line max_bulk s) = None"
proof -
  obtain t where "read_line_limited max_line s = (Some (Ok (Some h)), t)"
    using read_line_limited_delivers [OF assms(1,2,5,6)] by blast
  hence "fst (parse_header max_line s) = None"
    using multibyte_slice [OF assms(2-4)] assms(3) by (simp add: parse_header_def act_bind_def act_panic_def)
  thus ?thesis
    by (auto simp: parse_command_def parse_frame_inner.simps MAX_NESTING_DEPTH_def act_bind_def split: prod.splits)
qed

theorem multibyte_header_panics_witness:
  "fst (parse_command \<lparr>px_debug = id, px_uppercase = id\<rparr> 64 64 [Ok [0xC3, 0xA9, 13, 10]]) = None"
proof -
  let ?h = "of_bytes [0xC3, 0xA9]"
  have "?h \<noteq> []" "(of_char (hd ?h) :: u8) = 0xC3"
    using of_char_char_of_unat [of "0xC3"] by (simp_all add: of_bytes_def)
  thus ?thesis
    using multibyte_header_panics [of "[Ok [0xC3, 0xA9, 13, 10]]" ?h "[]" 64 "\<lparr>px_debug = id, px_uppercase = id\<rparr>" 64]
    by (simp add: delivers_def utf8_valid.simps utf8_step_def utf8_cont_def word_le_nat_alt)
qed

end
