(* ===== verification/Rbac.thy ===== *)
theory Rbac
  imports Prelude
begin

text \<open>
  Roles, actions, resources and claims of \<open>crates/bashfuldb-auth/src\<close> (\<open>rbac.rs\<close>,
  \<open>types.rs\<close>, \<open>error.rs\<close>) and the authorizer of \<open>authz.rs\<close>, with the
  characterisation of what it grants.  A \<open>Duration\<close> is a number of nanoseconds.
\<close>

section \<open>The RBAC model\<close>

datatype role = ServerAdmin | TenantAdmin | DatabaseAdmin | ReadWrite | ReadOnly

datatype action =
    ActRead | ActCreate | ActUpdate | ActDelete
  | CreateIndex | DropIndex | CreateDatabase | DropDatabase
  | CreateCollection | DropCollection | ManageUsers | ManageCluster

definition permits :: "role \<Rightarrow> action \<Rightarrow> bool" where
  "permits r a =
    (case r of
       ServerAdmin \<Rightarrow> True
     | TenantAdmin \<Rightarrow> a \<noteq> ManageCluster
     | DatabaseAdmin \<Rightarrow> a \<in> {ActRead, ActCreate, ActUpdate, ActDelete, CreateIndex, DropIndex,
         CreateCollection, DropCollection, CreateDatabase, DropDatabase}
     | ReadWrite \<Rightarrow> a \<in> {ActRead, ActCreate, ActUpdate, ActDelete}
     | ReadOnly \<Rightarrow> a = ActRead)"

record resource =
  res_tenant :: "string option"
  res_database :: "string option"
  res_collection :: "string option"

definition resource_cluster :: resource where
  "resource_cluster = \<lparr>res_tenant = None, res_database = None, res_collection = None\<rparr>"

definition resource_tenant :: "string \<Rightarrow> resource" where
  "resource_tenant t = \<lparr>res_tenant = Some t, res_database = None, res_collection = None\<rparr>"

definition resource_database :: "string \<Rightarrow> string \<Rightarrow> resource" where
  "resource_database t d = \<lparr>res_tenant = Some t, res_database = Some d, res_collection = None\<rparr>"

definition resource_collection :: "string \<Rightarrow> string \<Rightarrow> string \<Rightarrow> resource" where
  "resource_collection t d c = \<lparr>res_tenant = Some t, res_database = Some d, res_collection = Some c\<rparr>"

definition show_resource :: "resource \<Rightarrow> string" where
  "show_resource r =
    (case (res_tenant r, res_database r, res_collection r) of
       (None, _, _) \<Rightarrow> ''cluster''
     | (Some t, None, _) \<Rightarrow> ''tenant:'' @ t
     | (Some t, Some d, None) \<Rightarrow> ''tenant:'' @ t @ ''/db:'' @ d
     | (Some t, Some d, Some c) \<Rightarrow> ''tenant:'' @ t @ ''/db:'' @ d @ ''/coll:'' @ c)"

section \<open>Errors, claims and tokens\<close>

datatype auth_error =
    InvalidCredentials
  | TokenExpired
  | InvalidToken string
  | TokenRevoked
  | PermissionDenied action string
  | UserNotFound string
  | UserAlreadyExists string
  | WeakPassword string
  | AuthInternal string

record credentials =
  cr_username :: string
  cr_password :: string

type_synonym duration = nat

definition as_secs :: "duration \<Rightarrow> u64" where
  "as_secs d = of_nat (d div 1000000000)"

record token_pair =
  access_token :: string
  refresh_token :: string
  tp_access_ttl :: duration
  tp_refresh_ttl :: duration

record claims =
  cl_sub :: string
  cl_tenant :: "string option"
  cl_roles :: "role list"
  cl_iat :: u64
  cl_exp :: u64

definition claims_new ::
  "string \<Rightarrow> string option \<Rightarrow> role list \<Rightarrow> u64 \<Rightarrow> u64 \<Rightarrow> claims" where
  "claims_new sub tenant roles iat exp =
    \<lparr>cl_sub = sub, cl_tenant = tenant, cl_roles = roles, cl_iat = iat, cl_exp = exp\<rparr>"

definition is_expired :: "u64 \<Rightarrow> claims \<Rightarrow> bool" where
  "is_expired now_secs c \<longleftrightarrow> cl_exp c \<le> now_secs"

definition role_rank :: "role \<Rightarrow> nat" where
  "role_rank r = (case r of ServerAdmin \<Rightarrow> 0 | TenantAdmin \<Rightarrow> 1 | DatabaseAdmin \<Rightarrow> 2
    | ReadWrite \<Rightarrow> 3 | ReadOnly \<Rightarrow> 4)"

text \<open>\<open>Iterator::min_by_key\<close>: the first of the elements with the least key.\<close>

definition highest_role :: "claims \<Rightarrow> role option" where
  "highest_role c =
    (case cl_roles c of
       [] \<Rightarrow> None
     | r # rs \<Rightarrow> Some (fold (\<lambda>x best. if role_rank x < role_rank best then x else best) rs r))"

definition DEFAULT_ACCESS_TTL :: duration where "DEFAULT_ACCESS_TTL = 3600 * 1000000000"
definition DEFAULT_REFRESH_TTL :: duration where "DEFAULT_REFRESH_TTL = 172800 * 1000000000"
definition BOOTSTRAP_ADMIN_USER :: string where "BOOTSTRAP_ADMIN_USER = ''_system__admin''"

section \<open>The authorizer\<close>

definition denied :: "action \<Rightarrow> resource \<Rightarrow> auth_error" where
  "denied a res = PermissionDenied a (show_resource res)"

definition is_server_admin :: "role list \<Rightarrow> bool" where
  "is_server_admin rs = list_ex (\<lambda>r. r = ServerAdmin) rs"

definition rbac_check :: "claims \<Rightarrow> action \<Rightarrow> resource \<Rightarrow> (auth_error, unit) result" where
  "rbac_check c a res =
    (let permitted =
       (if list_ex (\<lambda>r. permits r a) (cl_roles c) then Ok () else Err (denied a res))
     in if is_server_admin (cl_roles c) then permitted
        else case cl_tenant c of
            None \<Rightarrow> Err (denied a res)
          | Some claims_tenant \<Rightarrow>
              (case res_tenant res of
                 None \<Rightarrow> Err (denied a res)
               | Some res_tenant' \<Rightarrow>
                   if claims_tenant \<noteq> res_tenant' then Err (denied a res) else permitted))"

section \<open>What the authorizer grants\<close>

text \<open>The privilege order of the roles, each permitting what the ones below it do.\<close>

lemma permits_antimono: "role_rank r \<le> role_rank r' \<Longrightarrow> permits r' a \<Longrightarrow> permits r a"
  by (cases r; cases r'; auto simp: role_rank_def permits_def)

lemma highest_role_fold:
  "(fold (\<lambda>x best. if role_rank x < role_rank best then x else best) rs r) \<in> set (r # rs) \<and>
   (\<forall>x \<in> set (r # rs). role_rank (fold (\<lambda>x best. if role_rank x < role_rank best then x else best) rs r)
      \<le> role_rank x)"
proof (induction rs arbitrary: r)
  case (Cons y rs)
  show ?case
    using Cons.IH [of r] Cons.IH [of y] by (auto split: if_splits)
qed simp

lemma highest_role_Some:
  "highest_role c = Some r \<Longrightarrow> r \<in> set (cl_roles c) \<and> (\<forall>x \<in> set (cl_roles c). role_rank r \<le> role_rank x)"
  using highest_role_fold by (fastforce simp: highest_role_def split: list.splits)

lemma rbac_check_eq:
  "rbac_check c a res =
    (if ServerAdmin \<in> set (cl_roles c) \<or>
        (\<exists>t. cl_tenant c = Some t \<and> res_tenant res = Some t) \<and> (\<exists>r \<in> set (cl_roles c). permits r a)
     then Ok () else Err (denied a res))"
proof -
  have "ServerAdmin \<in> set (cl_roles c) \<Longrightarrow> \<exists>r \<in> set (cl_roles c). permits r a"
    by (rule bexI [of _ ServerAdmin]) (simp_all add: permits_def)
  thus ?thesis
    by (auto simp: rbac_check_def is_server_admin_def Let_def list_ex_iff split: option.splits)
qed

text \<open>
  C27: What the authorizer decides, and on what.  It grants exactly two kinds of requests: any request of a
  server administrator, and a request of a tenant's user on a resource of the same tenant
  whose action the most privileged of the user's roles permits.  Everything else is
  \<open>PermissionDenied\<close> for the action and the resource; in particular a user of one
  tenant gets nothing on another tenant or on the cluster.  The database and the collection of the resource do
  not take part in the decision: a \<open>DatabaseAdmin\<close>, \<open>ReadWrite\<close> or \<open>ReadOnly\<close> user holds the role on every
  database and collection of the tenant, where the documentation of the roles confines it to the database or the
  collection it was assigned for.
\<close>

theorem rbac_check_is_tenant_wide:
  "rbac_check c a res =
    (if highest_role c = Some ServerAdmin \<or>
        (cl_tenant c \<noteq> None \<and> cl_tenant c = res_tenant res \<and>
         (case highest_role c of None \<Rightarrow> False | Some r \<Rightarrow> permits r a))
     then Ok () else Err (PermissionDenied a (show_resource res))) \<and>
   (rbac_check c a (res\<lparr>res_database := d, res_collection := coll\<rparr>) = Ok ()) = (rbac_check c a res = Ok ())"
proof (cases "highest_role c")
  case None
  hence "cl_roles c = []" by (auto simp: highest_role_def split: list.splits)
  thus ?thesis using None by (simp add: rbac_check_eq denied_def)
next
  case (Some h)
  have top: "h \<in> set (cl_roles c)" "\<forall>x \<in> set (cl_roles c). role_rank h \<le> role_rank x"
    using highest_role_Some [OF Some] by auto
  have admin: "ServerAdmin \<in> set (cl_roles c) \<longleftrightarrow> h = ServerAdmin"
  proof
    assume "ServerAdmin \<in> set (cl_roles c)"
    hence "role_rank h \<le> role_rank ServerAdmin" using top(2) by blast
    thus "h = ServerAdmin" by (cases h) (simp_all add: role_rank_def)
  qed (use top(1) in simp)
  have any: "(\<exists>r \<in> set (cl_roles c). permits r a) \<longleftrightarrow> permits h a"
    using top permits_antimono by blast
  show ?thesis
    unfolding rbac_check_eq admin any denied_def by (auto simp: Some)
qed

end
