(* ===== verification/Auth.thy ===== *)
theory Auth
  imports Rbac Storage Clocks Text "HOL-Library.Sublist"
begin

text \<open>
  The authentication service of \<open>crates/bashfuldb-auth/src/authn.rs\<close>: users and
  roles in the system column family, login, token pairs, verification, refresh and
  revocation, over any storage engine and any clock.

  The packages the service calls are the fields of \<open>auth_ext\<close>: \<open>serde_json\<close> on the
  two stored types, Argon2, SHA-256, URL-safe base64, \<open>jsonwebtoken\<close> and RSA key
  generation.  What the random generator draws is an argument (\<open>auth_draw\<close>).
\<close>

section \<open>Configuration and stored data\<close>

definition USER_KEY_PREFIX :: string where "USER_KEY_PREFIX = ''auth/users/''"
definition ROLE_KEY_PREFIX :: string where "ROLE_KEY_PREFIX = ''auth/roles/''"
definition DEFAULT_BOOTSTRAP_ENV :: string where
  "DEFAULT_BOOTSTRAP_ENV = ''BASHFULDB_BOOTSTRAP_ADMIN_PASSWORD''"

datatype jwt_mode = ModeRs256 | ModeHs256 bytes

record auth_config =
  ac_jwt_mode :: jwt_mode
  ac_access_ttl :: duration
  ac_refresh_ttl :: duration
  ac_bootstrap_admin_password :: "string option"

text \<open>The argument is what the environment variable holds.\<close>

definition auth_config_default :: "string option \<Rightarrow> auth_config" where
  "auth_config_default env =
    \<lparr>ac_jwt_mode = ModeRs256, ac_access_ttl = DEFAULT_ACCESS_TTL,
     ac_refresh_ttl = DEFAULT_REFRESH_TTL, ac_bootstrap_admin_password = env\<rparr>"

record user_create_request =
  uc_user_id :: "string option"
  uc_username :: string
  uc_tenant :: "string option"
  uc_password :: string
  uc_roles :: "role list"

datatype token_kind = Access | Refresh

record jwt_claims =
  jw_sub :: string
  jw_tenant :: "string option"
  jw_roles :: "role list"
  jw_iat :: u64
  jw_exp :: u64
  jw_token_kind :: token_kind

definition from_claims :: "claims \<Rightarrow> token_kind \<Rightarrow> jwt_claims" where
  "from_claims c kind =
    \<lparr>jw_sub = cl_sub c, jw_tenant = cl_tenant c, jw_roles = cl_roles c,
     jw_iat = cl_iat c, jw_exp = cl_exp c, jw_token_kind = kind\<rparr>"

definition into_claims :: "jwt_claims \<Rightarrow> claims" where
  "into_claims j = claims_new (jw_sub j) (jw_tenant j) (jw_roles j) (jw_iat j) (jw_exp j)"

record stored_user =
  su_user_id :: string
  su_username :: string
  su_tenant :: "string option"
  su_password_hash :: string

record stored_roles =
  sr_roles :: "role list"

datatype algorithm = RS256 | HS256
datatype jwt_key = FromRsaDer bytes | FromSecret bytes

record rsa_key =
  rk_private_der :: "(string, bytes) result"
  rk_public_der :: "(string, bytes) result"
  rk_n :: bytes
  rk_e :: bytes

record auth_ext =
  ser_user :: "stored_user \<Rightarrow> (string, bytes) result"
  de_user :: "bytes \<Rightarrow> (string, stored_user) result"
  ser_roles :: "stored_roles \<Rightarrow> (string, bytes) result"
  de_roles :: "bytes \<Rightarrow> (string, stored_roles) result"
  argon_hash :: "bytes \<Rightarrow> string \<Rightarrow> (string, string) result"
  argon_parse :: "string \<Rightarrow> bool"
  argon_verify :: "bytes \<Rightarrow> string \<Rightarrow> bool"
  jwt_encode :: "algorithm \<Rightarrow> string option \<Rightarrow> jwt_key \<Rightarrow> jwt_claims \<Rightarrow> (string, string) result"
  jwt_decode :: "algorithm \<Rightarrow> jwt_key \<Rightarrow> bool \<Rightarrow> string \<Rightarrow> (string, jwt_claims) result"
  sha256 :: "bytes \<Rightarrow> bytes"
  base64_url :: "bytes \<Rightarrow> string"
  debug_str :: "string \<Rightarrow> string"

record auth_draw =
  dr_uuid :: string
  dr_salt :: string

section \<open>The signer\<close>

datatype signer =
    SignRs256 (sg_encoding: jwt_key) (sg_decoding: jwt_key) (sg_kid: string) (sg_n: string) (sg_e: string)
  | SignHs256 (sg_secret: bytes)

definition signer_new ::
  "auth_ext \<Rightarrow> (string, rsa_key) result \<Rightarrow> jwt_mode \<Rightarrow> (auth_error, signer) result" where
  "signer_new X key mode =
    (case mode of
       ModeRs256 \<Rightarrow>
         (case key of
            Err err \<Rightarrow> Err (AuthInternal (''failed to generate RSA keypair: '' @ err))
          | Ok k \<Rightarrow>
              (case rk_private_der k of
                 Err err \<Rightarrow> Err (AuthInternal (''failed to serialize RSA private key: '' @ err))
               | Ok private_der \<Rightarrow>
                   (case rk_public_der k of
                      Err err \<Rightarrow> Err (AuthInternal (''failed to serialize RSA public key: '' @ err))
                    | Ok public_der \<Rightarrow>
                        (let n = base64_url X (rk_n k);
                             e = base64_url X (rk_e k);
                             kid = base64_url X (sha256 X (as_bytes n @ as_bytes e))
                         in Ok (SignRs256 (FromRsaDer private_der) (FromRsaDer public_der) kid n e)))))
     | ModeHs256 secret \<Rightarrow> Ok (SignHs256 secret))"

definition signer_algorithm :: "signer \<Rightarrow> algorithm" where
  "signer_algorithm sg = (case sg of SignRs256 _ _ _ _ _ \<Rightarrow> RS256 | SignHs256 _ \<Rightarrow> HS256)"

definition sign_encode :: "auth_ext \<Rightarrow> signer \<Rightarrow> jwt_claims \<Rightarrow> (auth_error, string) result" where
  "sign_encode X sg c =
    map_sum InvalidToken id
      (case sg of
         SignRs256 encoding_key _ kid _ _ \<Rightarrow> jwt_encode X (signer_algorithm sg) (Some kid) encoding_key c
       | SignHs256 secret \<Rightarrow> jwt_encode X (signer_algorithm sg) None (FromSecret secret) c)"

text \<open>\<open>validate_exp\<close> is switched off: the service checks the expiry itself.\<close>

definition sign_decode :: "auth_ext \<Rightarrow> signer \<Rightarrow> string \<Rightarrow> (auth_error, jwt_claims) result" where
  "sign_decode X sg token =
    map_sum InvalidToken id
      (case sg of
         SignRs256 _ decoding_key _ _ _ \<Rightarrow> jwt_decode X (signer_algorithm sg) decoding_key False token
       | SignHs256 secret \<Rightarrow> jwt_decode X (signer_algorithm sg) (FromSecret secret) False token)"

text \<open>The published key set, as the list of its (\<open>kid\<close>, \<open>n\<close>, \<open>e\<close>) entries.\<close>

definition jwks :: "signer \<Rightarrow> (string \<times> string \<times> string) list" where
  "jwks sg = (case sg of SignRs256 _ _ kid n e \<Rightarrow> [(kid, n, e)] | SignHs256 _ \<Rightarrow> [])"

section \<open>Keys, hashes and error texts\<close>

definition user_key :: "string \<Rightarrow> string" where
  "user_key user_id = USER_KEY_PREFIX @ user_id"

definition role_key :: "string \<Rightarrow> string" where
  "role_key user_id = ROLE_KEY_PREFIX @ user_id"

definition hash_password :: "auth_ext \<Rightarrow> auth_draw \<Rightarrow> string \<Rightarrow> (auth_error, string) result" where
  "hash_password X d password =
    map_sum (\<lambda>err. AuthInternal (''failed to hash password: '' @ err)) id
      (argon_hash X (as_bytes password) (dr_salt d))"

definition decode_failed :: "string \<Rightarrow> string \<Rightarrow> auth_error" where
  "decode_failed subject err = AuthInternal (''failed to decode '' @ subject @ '': '' @ err)"

definition deserialize_user :: "auth_ext \<Rightarrow> bytes \<Rightarrow> (auth_error, stored_user) result" where
  "deserialize_user X bs = map_sum (decode_failed ''stored user'') id (de_user X bs)"

definition deserialize_roles :: "auth_ext \<Rightarrow> bytes \<Rightarrow> (auth_error, stored_roles) result" where
  "deserialize_roles X bs = map_sum (decode_failed ''stored roles'') id (de_roles X bs)"

definition map_storage_error :: "auth_ext \<Rightarrow> storage_error \<Rightarrow> auth_error" where
  "map_storage_error X err = AuthInternal (''storage error: '' @ storage_error_display (debug_str X) err)"

definition token_digest :: "auth_ext \<Rightarrow> string \<Rightarrow> string" where
  "token_digest X token = base64_url X (sha256 X (as_bytes token))"

text \<open>The loop runs from the last byte to the first; the argument is the reversed prefix.\<close>

fun prefix_end_loop :: "bytes \<Rightarrow> bytes" where
  "prefix_end_loop [] = []"
| "prefix_end_loop (b # bs) = (if b \<noteq> - 1 then rev (saturating_add b 1 # bs) else prefix_end_loop bs)"

definition prefix_end :: "bytes \<Rightarrow> bytes" where
  "prefix_end p = prefix_end_loop (rev p)"

section \<open>The service\<close>

record ('s, 'c) auth_service =
  as_engine :: "'s engine"
  as_tick :: "'c \<Rightarrow> hlc_outcome \<times> 'c"
  as_signer :: signer
  as_access_ttl :: duration
  as_refresh_ttl :: duration

record ('s, 'c) auth_state =
  au_storage :: 's
  au_clock :: 'c
  au_revoked :: "string set"
  au_revoked_poisoned :: bool

type_synonym ('s, 'c, 'a) auth_act = "(('s, 'c) auth_state, auth_error, 'a) act"

text \<open>A storage call followed by \<open>map_err(map_storage_error)\<close>.\<close>

definition au_store :: "auth_ext \<Rightarrow> ('s, storage_error, 'a) act \<Rightarrow> ('s, 'c, 'a) auth_act" where
  "au_store X m = (\<lambda>s. case m (au_storage s) of
    (r, t) \<Rightarrow> (map_option (map_sum (map_storage_error X) id) r, s\<lparr>au_storage := t\<rparr>))"

definition now_secs :: "('s, 'c) auth_service \<Rightarrow> ('s, 'c, u64) auth_act" where
  "now_secs A = (\<lambda>s. case as_tick A (au_clock s) of
    (r, c) \<Rightarrow> (map_option (map_sum (\<lambda>err. AuthInternal (''clock error: '' @ show_clock_error err))
                 (\<lambda>h. physical_ms h div 1000)) r, s\<lparr>au_clock := c\<rparr>))"

definition scan_prefix ::
  "auth_ext \<Rightarrow> ('s, 'c) auth_service \<Rightarrow> string \<Rightarrow> ('s, 'c, scan_iter) auth_act" where
  "scan_prefix X A p =
    au_store X (e_scan (as_engine A) CF_SYSTEM (as_bytes p) (prefix_end (as_bytes p)))"

definition any_user_exists :: "auth_ext \<Rightarrow> ('s, 'c) auth_service \<Rightarrow> ('s, 'c, bool) auth_act" where
  "any_user_exists X A = act_bind (scan_prefix X A USER_KEY_PREFIX) (\<lambda>iter.
    case iter of
      [] \<Rightarrow> act_ok False
    | item # _ \<Rightarrow> act_bind (act_of_result (map_sum (map_storage_error X) id item)) (\<lambda>_. act_ok True))"

definition persist_user_and_roles ::
  "auth_ext \<Rightarrow> ('s, 'c) auth_service \<Rightarrow> stored_user \<Rightarrow> stored_roles \<Rightarrow> ('s, 'c, unit) auth_act" where
  "persist_user_and_roles X A user roles =
    act_bind (act_of_result (map_sum (\<lambda>err. AuthInternal (''failed to serialize user: '' @ err)) id (ser_user X user))) (\<lambda>user_value.
    act_bind (act_of_result (map_sum (\<lambda>err. AuthInternal (''failed to serialize roles: '' @ err)) id (ser_roles X roles))) (\<lambda>role_value.
    au_store X (e_write_batch (as_engine A)
      (batch_put CF_SYSTEM (as_bytes (role_key (su_user_id user))) role_value
        (batch_put CF_SYSTEM (as_bytes (user_key (su_user_id user))) user_value batch_new)))))"

definition find_user_by_id ::
  "auth_ext \<Rightarrow> ('s, 'c) auth_service \<Rightarrow> string \<Rightarrow> ('s, 'c, stored_user option) auth_act" where
  "find_user_by_id X A user_id =
    act_bind (au_store X (e_get (as_engine A) CF_SYSTEM (as_bytes (user_key user_id)))) (\<lambda>bs.
    case bs of
      Some v \<Rightarrow> act_of_result (map_sum id Some (deserialize_user X v))
    | None \<Rightarrow> act_ok None)"

primrec username_loop ::
  "auth_ext \<Rightarrow> string \<Rightarrow> scan_iter \<Rightarrow> (auth_error, stored_user option) result" where
  "username_loop X username [] = Ok None"
| "username_loop X username (item # iter) =
    (case item of
       Err e \<Rightarrow> Err (map_storage_error X e)
     | Ok kv \<Rightarrow>
         (case deserialize_user X (snd kv) of
            Err e \<Rightarrow> Err e
          | Ok user \<Rightarrow> if su_username user = username then Ok (Some user)
                      else username_loop X username iter))"

definition find_user_by_username ::
  "auth_ext \<Rightarrow> ('s, 'c) auth_service \<Rightarrow> string \<Rightarrow> ('s, 'c, stored_user option) auth_act" where
  "find_user_by_username X A username =
    act_bind (scan_prefix X A USER_KEY_PREFIX) (\<lambda>iter. act_of_result (username_loop X username iter))"

definition get_roles ::
  "auth_ext \<Rightarrow> ('s, 'c) auth_service \<Rightarrow> string \<Rightarrow> ('s, 'c, role list) auth_act" where
  "get_roles X A user_id =
    act_bind (au_store X (e_get (as_engine A) CF_SYSTEM (as_bytes (role_key user_id)))) (\<lambda>bs.
    case bs of
      None \<Rightarrow> act_err (UserNotFound user_id)
    | Some v \<Rightarrow> act_of_result (map_sum id sr_roles (deserialize_roles X v)))"

primrec tenant_loop ::
  "auth_ext \<Rightarrow> ('s, 'c) auth_service \<Rightarrow> string \<Rightarrow> scan_iter \<Rightarrow> ('s, 'c, bool) auth_act" where
  "tenant_loop X A tenant [] = act_ok False"
| "tenant_loop X A tenant (item # iter) =
    act_bind (act_of_result (map_sum (map_storage_error X) id item)) (\<lambda>kv.
    act_bind (act_of_result (deserialize_user X (snd kv))) (\<lambda>user.
      if su_tenant user \<noteq> Some tenant then tenant_loop X A tenant iter
      else act_bind (get_roles X A (su_user_id user)) (\<lambda>roles.
        if \<not> is_server_admin roles then act_ok True else tenant_loop X A tenant iter)))"

definition non_server_admin_exists_for_tenant ::
  "auth_ext \<Rightarrow> ('s, 'c) auth_service \<Rightarrow> string \<Rightarrow> ('s, 'c, bool) auth_act" where
  "non_server_admin_exists_for_tenant X A tenant =
    act_bind (scan_prefix X A USER_KEY_PREFIX) (tenant_loop X A tenant)"

text \<open>The checks of \<open>create_user\<close> that need no storage; they also settle the tenant.\<close>

definition check_request :: "user_create_request \<Rightarrow> (auth_error, string option) result" where
  "check_request req =
    (if uc_roles req = [] then Err (AuthInternal ''user must have at least one role'')
     else if length (uc_password req) < 8
       then Err (WeakPassword ''password must be at least 8 characters'')
     else if is_server_admin (uc_roles req) then Ok None
     else case uc_tenant req of
         None \<Rightarrow> Err (AuthInternal ''tenant-scoped users must provide tenant'')
       | Some t \<Rightarrow> Ok (Some t))"

definition create_user ::
  "auth_ext \<Rightarrow> ('s, 'c) auth_service \<Rightarrow> auth_draw \<Rightarrow> user_create_request \<Rightarrow> ('s, 'c, string) auth_act" where
  "create_user X A d req =
    act_bind (act_of_result (check_request req)) (\<lambda>tenant.
    act_bind (case tenant of
        None \<Rightarrow> act_ok ()
      | Some t \<Rightarrow> act_bind (non_server_admin_exists_for_tenant X A t) (\<lambda>exists.
          if exists then act_err (UserAlreadyExists (''tenant:'' @ t)) else act_ok ())) (\<lambda>_.
    act_bind (find_user_by_username X A (uc_username req)) (\<lambda>found.
    if found \<noteq> None then act_err (UserAlreadyExists (uc_username req))
    else
      let user_id = (case uc_user_id req of Some i \<Rightarrow> i | None \<Rightarrow> dr_uuid d)
      in act_bind (act_of_result (hash_password X d (uc_password req))) (\<lambda>password_hash.
         act_bind (persist_user_and_roles X A
             \<lparr>su_user_id = user_id, su_username = uc_username req, su_tenant = tenant,
              su_password_hash = password_hash\<rparr>
             \<lparr>sr_roles = uc_roles req\<rparr>) (\<lambda>_.
         act_ok user_id)))))"

definition bootstrap_if_needed ::
  "auth_ext \<Rightarrow> ('s, 'c) auth_service \<Rightarrow> auth_draw \<Rightarrow> string option \<Rightarrow> ('s, 'c, unit) auth_act" where
  "bootstrap_if_needed X A d bootstrap_password =
    act_bind (any_user_exists X A) (\<lambda>exists.
    if exists then act_ok ()
    else case bootstrap_password of
        None \<Rightarrow> act_err (AuthInternal
          (''bootstrap password required via env/config ('' @ DEFAULT_BOOTSTRAP_ENV @ '')''))
      | Some password \<Rightarrow>
          act_bind (create_user X A d
            \<lparr>uc_user_id = Some BOOTSTRAP_ADMIN_USER, uc_username = BOOTSTRAP_ADMIN_USER,
             uc_tenant = None, uc_password = password, uc_roles = [ServerAdmin]\<rparr>) (\<lambda>_.
          act_ok ()))"

text \<open>\<open>AuthService::new\<close> on a storage and a clock: the service, and the state it starts in.\<close>

definition auth_new ::
  "auth_ext \<Rightarrow> (string, rsa_key) result \<Rightarrow> auth_draw \<Rightarrow> 's engine \<Rightarrow> ('c \<Rightarrow> hlc_outcome \<times> 'c) \<Rightarrow>
    auth_config \<Rightarrow> 's \<Rightarrow> 'c \<Rightarrow> (auth_error, ('s, 'c) auth_service) result option \<times> ('s, 'c) auth_state" where
  "auth_new X key d E tick config st0 c0 =
    (let s = \<lparr>au_storage = st0, au_clock = c0, au_revoked = {}, au_revoked_poisoned = False\<rparr>
     in act_bind (act_of_result (signer_new X key (ac_jwt_mode config))) (\<lambda>sg.
        let A = \<lparr>as_engine = E, as_tick = tick, as_signer = sg,
                 as_access_ttl = ac_access_ttl config, as_refresh_ttl = ac_refresh_ttl config\<rparr>
        in act_bind (bootstrap_if_needed X A d (ac_bootstrap_admin_password config)) (\<lambda>_. act_ok A)) s)"

section \<open>Tokens\<close>

definition token_claims :: "claims \<Rightarrow> u64 \<Rightarrow> duration \<Rightarrow> claims" where
  "token_claims c now ttl =
    claims_new (cl_sub c) (cl_tenant c) (cl_roles c) now (saturating_add now (as_secs ttl))"

definition issue_token_pair ::
  "auth_ext \<Rightarrow> ('s, 'c) auth_service \<Rightarrow> claims \<Rightarrow> ('s, 'c, token_pair) auth_act" where
  "issue_token_pair X A c =
    act_bind (now_secs A) (\<lambda>now.
    act_bind (act_of_result (sign_encode X (as_signer A)
      (from_claims (token_claims c now (as_access_ttl A)) Access))) (\<lambda>access.
    act_bind (act_of_result (sign_encode X (as_signer A)
      (from_claims (token_claims c now (as_refresh_ttl A)) Refresh))) (\<lambda>refresh.
    act_ok \<lparr>access_token = access, refresh_token = refresh,
            tp_access_ttl = as_access_ttl A, tp_refresh_ttl = as_refresh_ttl A\<rparr>)))"

definition revoked_poisoned :: auth_error where
  "revoked_poisoned = AuthInternal ''revocation lock poisoned''"

definition check_revoked :: "auth_ext \<Rightarrow> string \<Rightarrow> ('s, 'c, unit) auth_act" where
  "check_revoked X token = (\<lambda>s.
    if au_revoked_poisoned s then (Some (Err revoked_poisoned), s)
    else if token_digest X token \<in> au_revoked s then (Some (Err TokenRevoked), s)
    else (Some (Ok ()), s))"

definition revoke :: "auth_ext \<Rightarrow> string \<Rightarrow> ('s, 'c, unit) auth_act" where
  "revoke X token = (\<lambda>s.
    if au_revoked_poisoned s then (Some (Err revoked_poisoned), s)
    else (Some (Ok ()), s\<lparr>au_revoked := insert (token_digest X token) (au_revoked s)\<rparr>))"

definition decode_token ::
  "auth_ext \<Rightarrow> ('s, 'c) auth_service \<Rightarrow> string \<Rightarrow> token_kind \<Rightarrow> ('s, 'c, claims) auth_act" where
  "decode_token X A token expected =
    act_bind (check_revoked X token) (\<lambda>_.
    act_bind (act_of_result (sign_decode X (as_signer A) token)) (\<lambda>decoded.
    if jw_token_kind decoded \<noteq> expected then act_err (InvalidToken ''unexpected token kind'')
    else act_bind (now_secs A) (\<lambda>now.
      if is_expired now (into_claims decoded) then act_err TokenExpired
      else act_ok (into_claims decoded))))"

definition login ::
  "auth_ext \<Rightarrow> ('s, 'c) auth_service \<Rightarrow> credentials \<Rightarrow> ('s, 'c, token_pair) auth_act" where
  "login X A cr =
    act_bind (find_user_by_username X A (cr_username cr)) (\<lambda>found.
    case found of
      None \<Rightarrow> act_err InvalidCredentials
    | Some user \<Rightarrow>
        if \<not> argon_parse X (su_password_hash user) then act_err InvalidCredentials
        else if \<not> argon_verify X (as_bytes (cr_password cr)) (su_password_hash user)
          then act_err InvalidCredentials
        else act_bind (get_roles X A (su_user_id user)) (\<lambda>roles.
          act_bind (now_secs A) (\<lambda>now.
          issue_token_pair X A (claims_new (su_user_id user) (su_tenant user) roles now now))))"

text \<open>\<open>refresh\<close> reads the clock twice for the new claims.\<close>

definition refresh ::
  "auth_ext \<Rightarrow> ('s, 'c) auth_service \<Rightarrow> string \<Rightarrow> ('s, 'c, token_pair) auth_act" where
  "refresh X A token =
    act_bind (decode_token X A token Refresh) (\<lambda>c.
    act_bind (find_user_by_id X A (cl_sub c)) (\<lambda>found.
    case found of
      None \<Rightarrow> act_err (UserNotFound (cl_sub c))
    | Some user \<Rightarrow>
        act_bind (get_roles X A (su_user_id user)) (\<lambda>roles.
        act_bind (now_secs A) (\<lambda>iat.
        act_bind (now_secs A) (\<lambda>exp.
        issue_token_pair X A (claims_new (su_user_id user) (su_tenant user) roles iat exp))))))"

definition verify ::
  "auth_ext \<Rightarrow> ('s, 'c) auth_service \<Rightarrow> string \<Rightarrow> ('s, 'c, claims) auth_act" where
  "verify X A token = decode_token X A token Access"

definition logout :: "auth_ext \<Rightarrow> string \<Rightarrow> ('s, 'c, unit) auth_act" where
  "logout X token = revoke X token"

end
