(* ===== verification/Directory.thy ===== *)
theory Directory
  imports Auth
begin

text \<open>
  The users and roles kept in the system column family, as a directory from user
  ids to users with their roles: what the queries of \<open>authn.rs\<close> answer over any
  engine that meets the storage contract, what \<open>create_user\<close> does to the
  directory, and that a user so created can log in and present the token.
\<close>

section \<open>Prefix scans\<close>

lemma append_le_iff: "p @ [b] \<le> k \<and> k < p @ [c] \<longleftrightarrow> (\<exists>d r. k = p @ d # r \<and> b \<le> d \<and> d < c)"
  for p :: bytes
proof (induction p arbitrary: k)
  case Nil
  show ?case by (cases k) auto
next
  case (Cons x p)
  show ?case using Cons.IH by (cases k) auto
qed

lemma snoc_max_le_iff: "p @ [- 1] \<le> k \<longleftrightarrow> p \<le> k \<and> (prefix p k \<longrightarrow> prefix (p @ [- 1]) k)"
  for p :: bytes
proof (induction p arbitrary: k)
  case Nil
  show ?case by (cases k) (auto simp: word_order.extremum_unique)
next
  case (Cons x p)
  show ?case using Cons.IH by (cases k) auto
qed

lemma prefix_le: "prefix p k \<Longrightarrow> p \<le> k" for p :: bytes
proof (induction p arbitrary: k)
  case (Cons x p)
  then obtain r where "k = x # r" "prefix p r" by (auto simp: prefix_def)
  thus ?case using Cons.IH by simp
qed simp

lemma byte_succ:
  fixes b d :: u8
  assumes "b \<noteq> - 1"
  shows "saturating_add b 1 = b + 1" "b \<le> d \<and> d < b + 1 \<longleftrightarrow> d = b"
proof -
  have "unat b \<noteq> unat (- 1 :: u8)" using assms word_unat_eq_iff by blast
  moreover have "unat b < 256" using unsigned_less [of b] by simp
  moreover have "unat (- 1 :: u8) = 255" by (simp add: unsigned_minus_1_eq_mask mask_eq_exp_minus_1)
  ultimately have "unat (b + 1) = unat b + 1" by (simp add: unat_word_ariths)
  thus "saturating_add b 1 = b + 1" "b \<le> d \<and> d < b + 1 \<longleftrightarrow> d = b"
    by (auto simp: saturating_add_def word_less_nat_alt word_le_nat_alt word_unat_eq_iff)
qed

lemma prefix_end_range:
  "p \<le> k \<and> (prefix_end p = [] \<or> k < prefix_end p) \<longleftrightarrow> prefix p k"
proof (induction p rule: rev_induct)
  case Nil
  show ?case by (simp add: prefix_end_def)
next
  case (snoc b p)
  show ?case
  proof (cases "b = - 1")
    case True
    hence "prefix_end (p @ [b]) = prefix_end p" by (simp add: prefix_end_def)
    thus ?thesis
      using snoc snoc_max_le_iff [of p k] True append_prefixD [of p "[b]" k] by auto
  next
    case False
    hence "prefix_end (p @ [b]) = p @ [b + 1]" by (simp add: prefix_end_def byte_succ)
    thus ?thesis
      using False append_le_iff [of p b k "b + 1"] byte_succ [of b]
      by (auto simp: prefix_def)
  qed
qed


section \<open>The user directory\<close>

type_synonym directory = "string \<Rightarrow> (stored_user \<times> role list) option"

definition user_at :: "auth_ext \<Rightarrow> kv_map \<Rightarrow> string \<Rightarrow> stored_user option" where
  "user_at X m i = (case bt_get m (as_bytes (user_key i)) of
      None \<Rightarrow> None | Some v \<Rightarrow> (case de_user X v of Err _ \<Rightarrow> None | Ok u \<Rightarrow> Some u))"

definition roles_at :: "auth_ext \<Rightarrow> kv_map \<Rightarrow> string \<Rightarrow> role list option" where
  "roles_at X m i = (case bt_get m (as_bytes (role_key i)) of
      None \<Rightarrow> None | Some v \<Rightarrow> (case de_roles X v of Err _ \<Rightarrow> None | Ok r \<Rightarrow> Some (sr_roles r)))"

definition directory :: "auth_ext \<Rightarrow> kv_map \<Rightarrow> directory" where
  "directory X m i = (case (user_at X m i, roles_at X m i) of
      (Some u, Some rs) \<Rightarrow> Some (u, rs) | _ \<Rightarrow> None)"

text \<open>Every row under the user prefix holds a user under its own id, with its roles.\<close>

definition directory_wf :: "auth_ext \<Rightarrow> kv_map \<Rightarrow> bool" where
  "directory_wf X m \<longleftrightarrow> bt_sorted m \<and>
    (\<forall>i. bt_get m (as_bytes (user_key i)) \<noteq> None \<longrightarrow>
      (\<exists>u rs. directory X m i = Some (u, rs) \<and> su_user_id u = i))"

definition has_username :: "directory \<Rightarrow> string \<Rightarrow> bool" where
  "has_username D n \<longleftrightarrow> (\<exists>i u rs. D i = Some (u, rs) \<and> su_username u = n)"

definition has_tenant_user :: "directory \<Rightarrow> string \<Rightarrow> bool" where
  "has_tenant_user D t \<longleftrightarrow>
    (\<exists>i u rs. D i = Some (u, rs) \<and> su_tenant u = Some t \<and> \<not> is_server_admin rs)"

text \<open>The specification's rules: usernames are unique, and a tenant has one user.\<close>

definition clash :: "stored_user \<Rightarrow> stored_user \<Rightarrow> bool" where
  "clash u v \<longleftrightarrow> su_username u = su_username v \<or> (su_tenant u \<noteq> None \<and> su_tenant u = su_tenant v)"

definition directory_unique :: "directory \<Rightarrow> bool" where
  "directory_unique D \<longleftrightarrow>
    (\<forall>i u rs. D i = Some (u, rs) \<longrightarrow> rs \<noteq> [] \<and> (su_tenant u = None \<longleftrightarrow> is_server_admin rs)) \<and>
    (\<forall>i u rs j v vs. D i = Some (u, rs) \<and> D j = Some (v, vs) \<longrightarrow> clash u v \<longrightarrow> i = j)"

definition json_laws :: "auth_ext \<Rightarrow> bool" where
  "json_laws X \<longleftrightarrow> (\<forall>u b. ser_user X u = Ok b \<longrightarrow> de_user X b = Ok u) \<and>
    (\<forall>r b. ser_roles X r = Ok b \<longrightarrow> de_roles X b = Ok r)"

lemma keys_distinct [simp]:
  "user_key i = user_key j \<longleftrightarrow> i = j" "role_key i = role_key j \<longleftrightarrow> i = j"
  "user_key i \<noteq> role_key j" "role_key i \<noteq> user_key j"
  by (simp_all add: user_key_def role_key_def USER_KEY_PREFIX_def ROLE_KEY_PREFIX_def)

lemma user_prefix_iff: "prefix (as_bytes USER_KEY_PREFIX) k \<longleftrightarrow> (\<exists>i. k = as_bytes (user_key i))"
proof
  assume "prefix (as_bytes USER_KEY_PREFIX) k"
  then obtain r where "k = as_bytes USER_KEY_PREFIX @ r" by (auto simp: prefix_def)
  hence "k = as_bytes (user_key (of_bytes r))" by (simp add: user_key_def)
  thus "\<exists>i. k = as_bytes (user_key i)" ..
qed (auto simp: user_key_def)

definition user_rows :: "kv_map \<Rightarrow> kv_map" where
  "user_rows m = filter (\<lambda>(k, _). prefix (as_bytes USER_KEY_PREFIX) k) m"

text \<open>What the rows of a well-formed directory decode to.\<close>

definition row_user :: "auth_ext \<Rightarrow> bytes \<times> bytes \<Rightarrow> stored_user" where
  "row_user X kv = (case de_user X (snd kv) of Ok u \<Rightarrow> u)"

lemma row_decodes:
  assumes "directory_wf X m" "kv \<in> set (user_rows m)"
  obtains u rs where "de_user X (snd kv) = Ok u" "row_user X kv = u" "directory X m (su_user_id u) = Some (u, rs)"
proof -
  obtain k v where kv: "kv = (k, v)" by fastforce
  obtain i where i: "k = as_bytes (user_key i)" "(k, v) \<in> set m"
    using assms(2) kv by (auto simp: user_rows_def user_prefix_iff)
  have get: "bt_get m k = Some v"
    using assms(1) i(2) by (simp add: directory_wf_def bt_get_Some_iff)
  then obtain u rs where "directory X m i = Some (u, rs)" "su_user_id u = i"
    using assms(1) i(1) by (auto simp: directory_wf_def)
  thus thesis using get i(1) kv that
    by (auto simp: directory_def user_at_def row_user_def split: option.splits sum.splits)
qed

lemma directory_row:
  assumes "directory_wf X m" "directory X m i = Some (u, rs)"
  shows "su_user_id u = i" "\<exists>kv \<in> set (user_rows m). row_user X kv = u"
proof -
  obtain v where v: "bt_get m (as_bytes (user_key i)) = Some v" "de_user X v = Ok u"
    using assms(2) by (auto simp: directory_def user_at_def split: option.splits sum.splits)
  show "su_user_id u = i" using assms v by (auto simp: directory_wf_def)
  have "(as_bytes (user_key i), v) \<in> set (user_rows m)"
    using assms(1) v(1) by (auto simp: user_rows_def user_prefix_iff directory_wf_def bt_get_Some_iff)
  thus "\<exists>kv \<in> set (user_rows m). row_user X kv = u" using v(2) by (force simp: row_user_def)
qed

lemma decoded_users:
  assumes "directory_wf X m"
  shows "row_user X ` set (user_rows m) = {u. \<exists>rs. directory X m (su_user_id u) = Some (u, rs)}"
proof (intro set_eqI iffI)
  fix u assume "u \<in> row_user X ` set (user_rows m)"
  thus "u \<in> {u. \<exists>rs. directory X m (su_user_id u) = Some (u, rs)}"
    using row_decodes [OF assms] by (metis (mono_tags, lifting) imageE mem_Collect_eq)
next
  fix u assume "u \<in> {u. \<exists>rs. directory X m (su_user_id u) = Some (u, rs)}"
  thus "u \<in> row_user X ` set (user_rows m)" using directory_row(2) [OF assms] by blast
qed

lemma rows_decode:
  "directory_wf X m \<Longrightarrow> \<forall>kv \<in> set (user_rows m). \<exists>u. de_user X (snd kv) = Ok u"
  using row_decodes by metis

lemma username_loop_eq:
  assumes "\<forall>kv \<in> set rows. \<exists>u. de_user X (snd kv) = Ok u"
  shows "username_loop X n (map Ok rows) = Ok (find (\<lambda>u. su_username u = n) (map (row_user X) rows))"
  using assms by (induction rows) (auto simp: deserialize_user_def row_user_def)

definition find_username :: "auth_ext \<Rightarrow> kv_map \<Rightarrow> string \<Rightarrow> stored_user option" where
  "find_username X m n = find (\<lambda>u. su_username u = n) (map (row_user X) (user_rows m))"

lemma find_username_None:
  assumes "directory_wf X m"
  shows "find_username X m n = None \<longleftrightarrow> \<not> has_username (directory X m) n"
proof -
  have "find_username X m n = None \<longleftrightarrow> (\<forall>u \<in> row_user X ` set (user_rows m). su_username u \<noteq> n)"
    by (auto simp: find_username_def find_None_iff)
  thus ?thesis
    unfolding decoded_users [OF assms] has_username_def using directory_row(1) [OF assms] by blast
qed

lemma find_username_Some:
  assumes "directory_wf X m" "find_username X m n = Some u"
  shows "su_username u = n" "\<exists>rs. directory X m (su_user_id u) = Some (u, rs)"
proof -
  have "u \<in> row_user X ` set (user_rows m) \<and> su_username u = n"
    using assms(2) by (force simp: find_username_def find_Some_iff)
  thus "su_username u = n" "\<exists>rs. directory X m (su_user_id u) = Some (u, rs)"
    using decoded_users [OF assms(1)] by auto
qed

lemma directory_insert:
  assumes "json_laws X" "bt_sorted m" "ser_user X u = Ok uv" "ser_roles X r = Ok rv"
  shows "directory X (bt_insert (as_bytes (role_key (su_user_id u))) rv
      (bt_insert (as_bytes (user_key (su_user_id u))) uv m)) =
    (directory X m)(su_user_id u \<mapsto> (u, sr_roles r))"
  using assms
  by (auto simp: fun_eq_iff directory_def user_at_def roles_at_def json_laws_def btree_simps bt_sorted_insert
      cong: option.case_cong)

lemma directory_wf_insert:
  assumes "json_laws X" "directory_wf X m" "ser_user X u = Ok uv" "ser_roles X r = Ok rv"
  shows "directory_wf X (bt_insert (as_bytes (role_key (su_user_id u))) rv
      (bt_insert (as_bytes (user_key (su_user_id u))) uv m))"
  using assms unfolding directory_wf_def
  by (auto simp: directory_insert btree_simps bt_sorted_insert)

section \<open>Creating users\<close>

text \<open>
  What \<open>create_user\<close> does to the directory: the request is refused, or one user
  is entered under the id of the request or the one drawn.
\<close>

definition request_user :: "auth_draw \<Rightarrow> user_create_request \<Rightarrow> string option \<Rightarrow> string \<Rightarrow> stored_user" where
  "request_user d req tenant password_hash =
    \<lparr>su_user_id = (case uc_user_id req of Some i \<Rightarrow> i | None \<Rightarrow> dr_uuid d),
     su_username = uc_username req, su_tenant = tenant, su_password_hash = password_hash\<rparr>"

definition directory_create ::
  "auth_ext \<Rightarrow> auth_draw \<Rightarrow> user_create_request \<Rightarrow> directory \<Rightarrow> (auth_error, stored_user) result" where
  "directory_create X d req D =
    (case check_request req of
       Err e \<Rightarrow> Err e
     | Ok tenant \<Rightarrow>
         if \<exists>t. tenant = Some t \<and> has_tenant_user D t
         then Err (UserAlreadyExists (''tenant:'' @ the tenant))
         else if has_username D (uc_username req) then Err (UserAlreadyExists (uc_username req))
         else case hash_password X d (uc_password req) of
             Err e \<Rightarrow> Err e
           | Ok h \<Rightarrow>
               (let u = request_user d req tenant h
                in case ser_user X u of
                     Err err \<Rightarrow> Err (AuthInternal (''failed to serialize user: '' @ err))
                   | Ok _ \<Rightarrow>
                       (case ser_roles X \<lparr>sr_roles = uc_roles req\<rparr> of
                          Err err \<Rightarrow> Err (AuthInternal (''failed to serialize roles: '' @ err))
                        | Ok _ \<Rightarrow> Ok u)))"

lemma directory_unique_create:
  assumes "directory_unique D" "directory_create X d req D = Ok u"
  shows "directory_unique (D(su_user_id u \<mapsto> (u, uc_roles req)))"
proof -
  obtain tenant where t: "check_request req = Ok tenant" "su_tenant u = tenant"
    "\<not> (\<exists>t. tenant = Some t \<and> has_tenant_user D t)" "\<not> has_username D (su_username u)"
    using assms(2)
    by (auto simp: directory_create_def request_user_def Let_def split: sum.splits if_splits)
  have shape: "uc_roles req \<noteq> []" "tenant = None \<longleftrightarrow> is_server_admin (uc_roles req)"
    using t(1) by (cases "uc_tenant req"; auto simp: check_request_def split: if_splits)+
  have fresh: "\<not> clash v u" "\<not> clash u v" if "D j = Some (v, vs)" for j v vs
  proof -
    have "su_tenant v = None \<longleftrightarrow> is_server_admin vs"
      using assms(1) that by (auto simp: directory_unique_def)
    moreover have "su_username v \<noteq> su_username u"
      using t(4) that unfolding has_username_def by metis
    ultimately show "\<not> clash v u" "\<not> clash u v"
      using t(2,3) that unfolding has_tenant_user_def clash_def by (cases tenant; metis option.distinct(1))+
  qed
  show ?thesis
    unfolding directory_unique_def
  proof (intro conjI allI impI, goal_cases)
    case (1 i u' rs)
    thus ?case using shape t(2) assms(1) by (auto simp: directory_unique_def split: if_splits)
  next
    case (2 i u' rs)
    thus ?case using shape t(2) assms(1) by (auto simp: directory_unique_def split: if_splits)
  next
    case (3 i u' rs j v vs)
    show ?case
    proof (cases "i = su_user_id u \<or> j = su_user_id u")
      case True
      thus ?thesis using 3 fresh by (auto split: if_splits)
    next
      case False
      hence "D i = Some (u', rs)" "D j = Some (v, vs)" using 3 by auto
      thus ?thesis using assms(1) 3(2) unfolding directory_unique_def by blast
    qed
  qed
qed

section \<open>Running the queries\<close>

lemma au_store_run:
  "m (au_storage s) = (Some (Ok a), t) \<Longrightarrow> au_store X m s = (Some (Ok a), s\<lparr>au_storage := t\<rparr>)"
  by (simp add: au_store_def)

lemma cf_system [simp]: "CF_SYSTEM \<in> set cf_all" by (simp add: cf_all_def)

context storage_engine
begin

lemma scan_users:
  assumes "as_engine A = E" "inv (au_storage s)"
  shows "scan_prefix X A USER_KEY_PREFIX s = (Some (Ok (map Ok (user_rows (view (au_storage s) CF_SYSTEM)))), s)"
proof -
  let ?p = "as_bytes USER_KEY_PREFIX"
  have "prefix_end ?p = [] \<or> ?p \<le> prefix_end ?p"
    using prefix_end_range [of ?p ?p] by auto
  moreover have "scan_range ?p (prefix_end ?p) m = user_rows m" for m
    using prefix_end_range [of ?p] by (auto simp: scan_range_def user_rows_def intro!: filter_cong)
  ultimately show ?thesis
    using assms scan_law [OF assms(2) cf_system, of "prefix_end ?p" ?p]
    by (simp add: scan_prefix_def au_store_run)
qed

lemma query_username:
  assumes "as_engine A = E" "inv (au_storage s)" "directory_wf X (view (au_storage s) CF_SYSTEM)"
  shows "find_user_by_username X A n s = (Some (Ok (find_username X (view (au_storage s) CF_SYSTEM) n)), s)"
  using scan_users [OF assms(1,2), of X] username_loop_eq [OF rows_decode [OF assms(3)], of n]
  by (simp add: find_user_by_username_def act_bind_def act_of_result_def find_username_def)

lemma query_roles:
  assumes "as_engine A = E" "inv (au_storage s)" "directory X (view (au_storage s) CF_SYSTEM) i = Some (u, rs)"
  shows "get_roles X A i s = (Some (Ok rs), s)"
  using assms by (auto simp: get_roles_def au_store_run get_law act_simps directory_def roles_at_def
    deserialize_roles_def split: option.splits sum.splits)

lemma query_user:
  assumes "as_engine A = E" "inv (au_storage s)" "directory X (view (au_storage s) CF_SYSTEM) i = Some (u, rs)"
  shows "find_user_by_id X A i s = (Some (Ok (Some u)), s)"
  using assms by (auto simp: find_user_by_id_def au_store_run get_law act_simps directory_def user_at_def
    deserialize_user_def split: option.splits sum.splits)

lemma tenant_loop_run:
  assumes "as_engine A = E" "inv (au_storage s)"
    "\<forall>kv \<in> set rows. \<exists>u rs. de_user X (snd kv) = Ok u \<and>
       directory X (view (au_storage s) CF_SYSTEM) (su_user_id u) = Some (u, rs)"
  shows "tenant_loop X A t (map Ok rows) s = (Some (Ok (\<exists>u \<in> row_user X ` set rows. \<exists>rs.
     directory X (view (au_storage s) CF_SYSTEM) (su_user_id u) = Some (u, rs) \<and>
     su_tenant u = Some t \<and> \<not> is_server_admin rs)), s)"
  using assms(3)
proof (induction rows)
  case (Cons kv rows)
  obtain u rs where u: "de_user X (snd kv) = Ok u"
    "directory X (view (au_storage s) CF_SYSTEM) (su_user_id u) = Some (u, rs)"
    using Cons.prems by auto
  have row: "row_user X kv = u" using u(1) by (simp add: row_user_def)
  show ?case
    using Cons u query_roles [OF assms(1,2) u(2)]
    by (simp add: act_simps deserialize_user_def row)
qed (simp add: act_simps)

lemma query_tenant:
  assumes "as_engine A = E" "inv (au_storage s)" "directory_wf X (view (au_storage s) CF_SYSTEM)"
  shows "non_server_admin_exists_for_tenant X A t s =
    (Some (Ok (has_tenant_user (directory X (view (au_storage s) CF_SYSTEM)) t)), s)"
proof -
  let ?m = "view (au_storage s) CF_SYSTEM"
  have "\<forall>kv \<in> set (user_rows ?m). \<exists>u rs. de_user X (snd kv) = Ok u \<and> directory X ?m (su_user_id u) = Some (u, rs)"
    using row_decodes [OF assms(3)] by metis
  note loop = tenant_loop_run [OF assms(1,2) this, of t]
  have "has_tenant_user (directory X ?m) t \<longleftrightarrow> (\<exists>u \<in> row_user X ` set (user_rows ?m). \<exists>rs.
      directory X ?m (su_user_id u) = Some (u, rs) \<and> su_tenant u = Some t \<and> \<not> is_server_admin rs)"
    unfolding has_tenant_user_def decoded_users [OF assms(3)] using directory_row(1) [OF assms(3)] by blast
  thus ?thesis
    using loop scan_users [OF assms(1,2), of X]
    by (simp add: non_server_admin_exists_for_tenant_def act_bind_def)
qed

lemma persist_run:
  assumes "as_engine A = E" "inv (au_storage s)" "ser_user X u = Ok uv" "ser_roles X r = Ok rv"
  obtains t where "persist_user_and_roles X A u r s = (Some (Ok ()), s\<lparr>au_storage := t\<rparr>)" "inv t"
    "view t CF_SYSTEM = bt_insert (as_bytes (role_key (su_user_id u))) rv
      (bt_insert (as_bytes (user_key (su_user_id u))) uv (view (au_storage s) CF_SYSTEM))"
proof -
  let ?b = "batch_put CF_SYSTEM (as_bytes (role_key (su_user_id u))) rv
      (batch_put CF_SYSTEM (as_bytes (user_key (su_user_id u))) uv batch_new)"
  have "op_cf ` set (batch_ops ?b) \<subseteq> set cf_all"
    by (simp add: batch_put_def batch_new_def)
  note run = batch_run [OF assms(2) this]
  show thesis
    by (rule that [OF _ run(2)])
      (use assms run in \<open>simp_all add: persist_user_and_roles_def act_simps au_store_run batch_put_def batch_new_def\<close>)
qed

lemma create_user_run:
  assumes A: "as_engine A = E" "inv (au_storage s)" and wf: "json_laws X" "directory_wf X (view (au_storage s) CF_SYSTEM)"
  shows "\<exists>t. create_user X A d req s =
      (Some (map_sum id su_user_id (directory_create X d req (directory X (view (au_storage s) CF_SYSTEM)))),
       s\<lparr>au_storage := t\<rparr>) \<and>
    inv t \<and> directory_wf X (view t CF_SYSTEM) \<and>
    directory X (view t CF_SYSTEM) =
      (case directory_create X d req (directory X (view (au_storage s) CF_SYSTEM)) of
         Err _ \<Rightarrow> directory X (view (au_storage s) CF_SYSTEM)
       | Ok u \<Rightarrow> (directory X (view (au_storage s) CF_SYSTEM))(su_user_id u \<mapsto> (u, uc_roles req)))"
proof -
  let ?m = "view (au_storage s) CF_SYSTEM" let ?D = "directory X (view (au_storage s) CF_SYSTEM)"
  note q = query_username [OF A wf(2)] query_tenant [OF A wf(2)]
  show ?thesis
  proof (cases "directory_create X d req ?D")
    case (Inl e)
    have "create_user X A d req s = (Some (Err e), s)"
      using Inl find_username_None [OF wf(2), of "uc_username req"]
      by (auto simp: directory_create_def create_user_def act_simps q Let_def persist_user_and_roles_def
        request_user_def [symmetric] split: sum.splits if_splits option.splits)
    thus ?thesis using Inl A wf by (intro exI [of _ "au_storage s"]) simp
  next
    case (Inr u)
    then obtain tenant h uv rv where c: "check_request req = Ok tenant"
      "\<not> (\<exists>t. tenant = Some t \<and> has_tenant_user ?D t)" "\<not> has_username ?D (uc_username req)"
      "hash_password X d (uc_password req) = Ok h" "u = request_user d req tenant h"
      "ser_user X u = Ok uv" "ser_roles X \<lparr>sr_roles = uc_roles req\<rparr> = Ok rv"
      by (auto simp: directory_create_def Let_def split: sum.splits if_splits)
    obtain t where t: "persist_user_and_roles X A u \<lparr>sr_roles = uc_roles req\<rparr> s = (Some (Ok ()), s\<lparr>au_storage := t\<rparr>)"
      "inv t" "view t CF_SYSTEM = bt_insert (as_bytes (role_key (su_user_id u))) rv
        (bt_insert (as_bytes (user_key (su_user_id u))) uv ?m)"
      by (rule persist_run [OF A c(6,7)])
    have "create_user X A d req s = (Some (Ok (su_user_id u)), s\<lparr>au_storage := t\<rparr>)"
      using c t(1) q find_username_None [OF wf(2), of "uc_username req"]
      by (cases tenant) (simp_all add: create_user_def act_simps Let_def request_user_def)
    thus ?thesis
      using Inr t wf c directory_insert [OF wf(1) _ c(6,7), of ?m] directory_wf_insert [OF wf c(6,7)]
      by (intro exI [of _ t]) (simp add: directory_wf_def)
  qed
qed

end

section \<open>Logging in\<close>

definition argon_law :: "auth_ext \<Rightarrow> bool" where
  "argon_law X \<longleftrightarrow>
    (\<forall>p salt h. argon_hash X p salt = Ok h \<longrightarrow> argon_parse X h \<and> argon_verify X p h)"

text \<open>A token decodes to the claims it was signed for.\<close>

definition signer_law :: "auth_ext \<Rightarrow> signer \<Rightarrow> bool" where
  "signer_law X sg \<longleftrightarrow> (\<forall>c t. sign_encode X sg c = Ok t \<longrightarrow> sign_decode X sg t = Ok c)"

lemma now_secs_run:
  "as_tick A (au_clock s) = (Some (Ok h), c) \<Longrightarrow>
    now_secs A s = (Some (Ok (physical_ms h div 1000)), s\<lparr>au_clock := c\<rparr>)"
  by (simp add: now_secs_def)

lemma issue_run:
  assumes "as_tick A (au_clock s) = (Some (Ok h), c)"
    "sign_encode X (as_signer A) (from_claims (token_claims cl (physical_ms h div 1000) (as_access_ttl A)) Access) = Ok a"
    "sign_encode X (as_signer A) (from_claims (token_claims cl (physical_ms h div 1000) (as_refresh_ttl A)) Refresh) = Ok r"
  shows "issue_token_pair X A cl s =
    (Some (Ok \<lparr>access_token = a, refresh_token = r, tp_access_ttl = as_access_ttl A,
       tp_refresh_ttl = as_refresh_ttl A\<rparr>), s\<lparr>au_clock := c\<rparr>)"
  using assms by (simp add: issue_token_pair_def act_simps now_secs_run)

lemma directory_unique_username:
  assumes "directory_unique D" "D i = Some (u, rs)" "D j = Some (v, vs)" "su_username u = su_username v"
  shows "(u, rs) = (v, vs)"
proof -
  have "i = j" using assms unfolding directory_unique_def clash_def by blast
  thus ?thesis using assms by simp
qed

context storage_engine
begin

lemma login_run:
  assumes A: "as_engine A = E" "inv (au_storage s)" and wf: "directory_wf X (view (au_storage s) CF_SYSTEM)"
    and D: "directory_unique (directory X (view (au_storage s) CF_SYSTEM))"
      "directory X (view (au_storage s) CF_SYSTEM) i = Some (u, rs)"
    and tick: "as_tick A (au_clock s) = (Some (Ok h), c)"
  shows "login X A \<lparr>cr_username = su_username u, cr_password = p\<rparr> s =
    (if argon_parse X (su_password_hash u) \<and> argon_verify X (as_bytes p) (su_password_hash u)
     then issue_token_pair X A (claims_new i (su_tenant u) rs (physical_ms h div 1000) (physical_ms h div 1000))
       (s\<lparr>au_clock := c\<rparr>)
     else (Some (Err InvalidCredentials), s))"
proof -
  let ?m = "view (au_storage s) CF_SYSTEM"
  have "has_username (directory X ?m) (su_username u)" using D(2) by (auto simp: has_username_def)
  then obtain v where v: "find_username X ?m (su_username u) = Some v"
    using find_username_None [OF wf] by blast
  note found = find_username_Some [OF wf v]
  have "v = u" using found directory_unique_username [OF D(1) _ D(2)] by blast
  hence "find_user_by_username X A (su_username u) s = (Some (Ok (Some u)), s)"
    using query_username [OF A wf, of "su_username u"] v by simp
  moreover have "su_user_id u = i" using directory_row(1) [OF wf D(2)] .
  ultimately show ?thesis
    using query_roles [OF A D(2)] now_secs_run [OF tick] by (simp add: login_def act_simps)
qed

lemma login_unknown:
  assumes "as_engine A = E" "inv (au_storage s)" "directory_wf X (view (au_storage s) CF_SYSTEM)"
    "\<not> has_username (directory X (view (au_storage s) CF_SYSTEM)) (cr_username cr)"
  shows "login X A cr s = (Some (Err InvalidCredentials), s)"
  using query_username [OF assms(1-3)] find_username_None [OF assms(3), of "cr_username cr"] assms(4)
  by (simp add: login_def act_simps)

end

text \<open>\<open>verify\<close> of a token whose signature and contents are known.\<close>

lemma decode_token_run:
  assumes "sign_decode X (as_signer A) tok = Ok j" "as_tick A (au_clock s) = (Some (Ok h), c)"
    "\<not> au_revoked_poisoned s" "token_digest X tok \<notin> au_revoked s"
  shows "decode_token X A tok k s =
    (if jw_token_kind j \<noteq> k then (Some (Err (InvalidToken ''unexpected token kind'')), s)
     else (Some (if jw_exp j \<le> physical_ms h div 1000 then Err TokenExpired else Ok (into_claims j)),
       s\<lparr>au_clock := c\<rparr>))"
  using assms
  by (simp add: decode_token_def check_revoked_def act_bind_def act_of_result_def act_err_def act_ok_def
    now_secs_run is_expired_def into_claims_def claims_new_def)

section \<open>Properties\<close>

primrec create_all ::
  "auth_ext \<Rightarrow> ('s, 'c) auth_service \<Rightarrow> (auth_draw \<times> user_create_request) list \<Rightarrow>
    ('s, 'c) auth_state \<Rightarrow> ('s, 'c) auth_state" where
  "create_all X A [] s = s"
| "create_all X A (r # rs) s = create_all X A rs (snd (create_user X A (fst r) (snd r) s))"

text \<open>The directory an in-memory engine holds.\<close>

abbreviation mem_directory :: "auth_ext \<Rightarrow> mem_engine \<Rightarrow> directory" where
  "mem_directory X e \<equiv> directory X (mem_view e CF_SYSTEM)"

definition directory_inv :: "auth_ext \<Rightarrow> mem_engine \<Rightarrow> bool" where
  "directory_inv X e \<longleftrightarrow> mem_inv e \<and> directory_wf X (mem_view e CF_SYSTEM) \<and> directory_unique (mem_directory X e)"

lemma directory_inv_new: "directory_inv X mem_new"
proof -
  have "mem_view mem_new CF_SYSTEM = []"
    by (simp add: mem_view_def mem_new_def init_cf_map_def cf_all_def)
  thus ?thesis
    by (simp add: directory_inv_def mem_inv_new directory_wf_def directory_unique_def directory_def user_at_def)
qed

lemma create_user_inv:
  assumes "json_laws X" "as_engine A = MemEngine" "directory_inv X (au_storage s)"
  shows "directory_inv X (au_storage (snd (create_user X A d req s)))"
  using mem.create_user_run [OF assms(2) _ assms(1), of s d req] assms(3) directory_unique_create
  by (fastforce simp: directory_inv_def split: sum.splits)

text \<open>
  C25: Whatever requests \<open>create_user\<close> is given, in whatever order, on an engine that
  starts empty, every user row decodes to a user stored under its own id with its
  roles; no two users have the same username; every tenant has at most one user; and
  a user has no tenant exactly when it is a server administrator.
\<close>

theorem create_users_unique:
  assumes "json_laws X" "as_engine A = MemEngine" "au_storage s = mem_new"
  shows "directory_wf X (mem_view (au_storage (create_all X A reqs s)) CF_SYSTEM) \<and>
    directory_unique (mem_directory X (au_storage (create_all X A reqs s)))"
proof -
  have "directory_inv X (au_storage t) \<Longrightarrow> directory_inv X (au_storage (create_all X A reqs t))" for t
    by (induction reqs arbitrary: t) (auto intro: create_user_inv [OF assms(1,2)])
  thus ?thesis using assms(3) directory_inv_new by (simp add: directory_inv_def)
qed

lemma create_user_Ok:
  assumes "json_laws X" "as_engine A = MemEngine" "directory_inv X (au_storage s)"
    and created: "create_user X A d req s = (Some (Ok uid), s1)"
  obtains t u where "s1 = s\<lparr>au_storage := t\<rparr>" "directory_inv X t" "mem_directory X t uid = Some (u, uc_roles req)"
    "su_username u = uc_username req" "hash_password X d (uc_password req) = Ok (su_password_hash u)"
    "su_tenant u = (if is_server_admin (uc_roles req) then None else uc_tenant req)"
proof -
  obtain t u where run: "s1 = s\<lparr>au_storage := t\<rparr>" "mem_directory X t = (mem_directory X (au_storage s))(uid \<mapsto> (u, uc_roles req))"
    "directory_create X d req (mem_directory X (au_storage s)) = Ok u"
    using mem.create_user_run [OF assms(2) _ assms(1), of s d req] assms(3) created
    by (fastforce simp: directory_inv_def split: sum.splits)
  obtain tenant h where u: "u = request_user d req tenant h" "check_request req = Ok tenant"
    "hash_password X d (uc_password req) = Ok h"
    using run(3) by (auto simp: directory_create_def Let_def split: sum.splits if_splits)
  have "tenant = (if is_server_admin (uc_roles req) then None else uc_tenant req)"
    using u(2) by (cases "uc_tenant req") (auto simp: check_request_def split: if_splits)
  thus thesis
    using that [OF run(1), of u] create_user_inv [OF assms(1-3), of d req] run u created
    by (simp add: request_user_def)
qed

text \<open>
  C26: A user that \<open>create_user\<close> has created logs in with the password of the request
  and no other password Argon2 rejects.  The access token then verifies, until it
  expires, to the id, the tenant and the roles of the request, with the lifetime
  the service is configured for; the refresh token is refused as an access token.
\<close>

theorem created_user_logs_in:
  assumes "json_laws X" "argon_law X" "signer_law X (as_signer A)" "as_engine A = MemEngine"
    and "directory_inv X (au_storage s)" "\<not> au_revoked_poisoned s"
    and "create_user X A d req s = (Some (Ok uid), s1)"
    and "as_tick A (au_clock s) = (Some (Ok h1), c1)" "as_tick A c1 = (Some (Ok h2), c2)" "as_tick A c2 = (Some (Ok h3), c3)"
    and "base = claims_new uid (if is_server_admin (uc_roles req) then None else uc_tenant req) (uc_roles req)
      (physical_ms h1 div 1000) (physical_ms h1 div 1000)"
    and "sign_encode X (as_signer A) (from_claims (token_claims base (physical_ms h2 div 1000) (as_access_ttl A)) Access) = Ok a"
    and "sign_encode X (as_signer A) (from_claims (token_claims base (physical_ms h2 div 1000) (as_refresh_ttl A)) Refresh) = Ok r"
    and "token_digest X a \<notin> au_revoked s" "token_digest X r \<notin> au_revoked s"
  shows "\<exists>s2 h. login X A \<lparr>cr_username = uc_username req, cr_password = uc_password req\<rparr> s1 =
        (Some (Ok \<lparr>access_token = a, refresh_token = r, tp_access_ttl = as_access_ttl A,
           tp_refresh_ttl = as_refresh_ttl A\<rparr>), s2) \<and>
      fst (verify X A a s2) =
        Some (if saturating_add (physical_ms h2 div 1000) (as_secs (as_access_ttl A)) \<le> physical_ms h3 div 1000
              then Err TokenExpired
              else Ok (token_claims base (physical_ms h2 div 1000) (as_access_ttl A))) \<and>
      fst (verify X A r s2) = Some (Err (InvalidToken ''unexpected token kind'')) \<and>
      hash_password X d (uc_password req) = Ok h \<and>
      (\<forall>p. \<not> argon_verify X (as_bytes p) h \<longrightarrow>
        fst (login X A \<lparr>cr_username = uc_username req, cr_password = p\<rparr> s1) = Some (Err InvalidCredentials))"
proof -
  obtain t u where u: "s1 = s\<lparr>au_storage := t\<rparr>" "directory_inv X t" "mem_directory X t uid = Some (u, uc_roles req)"
    "su_username u = uc_username req" "hash_password X d (uc_password req) = Ok (su_password_hash u)"
    "su_tenant u = (if is_server_admin (uc_roles req) then None else uc_tenant req)"
    by (rule create_user_Ok [OF assms(1,4,5,7)])
  let ?s2 = "s\<lparr>au_storage := t, au_clock := c2\<rparr>"
  have inv: "mem_inv (au_storage s1)" "directory_wf X (mem_view (au_storage s1) CF_SYSTEM)"
    "directory_unique (mem_directory X (au_storage s1))" "mem_directory X (au_storage s1) uid = Some (u, uc_roles req)"
    "as_tick A (au_clock s1) = (Some (Ok h1), c1)"
    using u assms(8) by (simp_all add: directory_inv_def)
  note log = mem.login_run [OF assms(4) inv, unfolded u(4)]
  have hash: "argon_parse X (su_password_hash u) \<and> argon_verify X (as_bytes (uc_password req)) (su_password_hash u)"
    using u(5) assms(2) by (auto simp: hash_password_def argon_law_def map_sum_def split: sum.splits)
  have "issue_token_pair X A base (s1\<lparr>au_clock := c1\<rparr>) = (Some (Ok \<lparr>access_token = a, refresh_token = r,
      tp_access_ttl = as_access_ttl A, tp_refresh_ttl = as_refresh_ttl A\<rparr>), ?s2)"
    using issue_run [of A "s1\<lparr>au_clock := c1\<rparr>" h2 c2 X base a r] assms(9,12,13) u(1) by simp
  moreover have "verify X A a ?s2 = (Some (if saturating_add (physical_ms h2 div 1000) (as_secs (as_access_ttl A))
        \<le> physical_ms h3 div 1000 then Err TokenExpired
      else Ok (token_claims base (physical_ms h2 div 1000) (as_access_ttl A))), ?s2\<lparr>au_clock := c3\<rparr>)"
    using assms(3,6,10,12,14) decode_token_run [where s = ?s2 and tok = a and k = Access and h = h3 and c = c3]
    by (simp add: verify_def signer_law_def from_claims_def into_claims_def token_claims_def claims_new_def)
  moreover have "fst (verify X A r ?s2) = Some (Err (InvalidToken ''unexpected token kind''))"
    using assms(3,6,10,13,15) decode_token_run [where s = ?s2 and tok = r and k = Access and h = h3 and c = c3]
    by (simp add: verify_def signer_law_def from_claims_def)
  ultimately show ?thesis
    using log hash u assms(11) by (intro exI [of _ ?s2] exI [of _ "su_password_hash u"]) simp
qed

text \<open>A concrete instance: one user of tenant \<open>acme\<close>, whose records and tokens are tabled.\<close>

definition eve :: stored_user where
  "eve = \<lparr>su_user_id = ''u1'', su_username = ''eve'', su_tenant = Some ''acme'', su_password_hash = ''#secret99''\<rparr>"

definition eve_request :: user_create_request where
  "eve_request = \<lparr>uc_user_id = None, uc_username = ''eve'', uc_tenant = Some ''acme'',
    uc_password = ''secret99'', uc_roles = [ReadWrite]\<rparr>"

definition eve_claims :: "u64 \<Rightarrow> token_kind \<Rightarrow> jwt_claims" where
  "eve_claims ttl k = \<lparr>jw_sub = ''u1'', jw_tenant = Some ''acme'', jw_roles = [ReadWrite],
    jw_iat = 0, jw_exp = ttl, jw_token_kind = k\<rparr>"

definition tabled :: "'a \<Rightarrow> 'b \<Rightarrow> 'a \<Rightarrow> (string, 'b) result" where
  "tabled a b x = (if x = a then Ok b else Err ''unknown'')"

definition eve_ext :: auth_ext where
  "eve_ext = \<lparr>ser_user = tabled eve [1], de_user = tabled [1] eve,
    ser_roles = tabled \<lparr>sr_roles = [ReadWrite]\<rparr> [2], de_roles = tabled [2] \<lparr>sr_roles = [ReadWrite]\<rparr>,
    argon_hash = (\<lambda>p salt. Ok (''#'' @ of_bytes p)), argon_parse = (\<lambda>h. True),
    argon_verify = (\<lambda>p h. h = ''#'' @ of_bytes p),
    jwt_encode = (\<lambda>_ _ _ c. if c = eve_claims 3600 Access then Ok ''A''
      else if c = eve_claims 172800 Refresh then Ok ''R'' else Err ''unknown''),
    jwt_decode = (\<lambda>_ _ _ t. if t = ''A'' then Ok (eve_claims 3600 Access)
      else if t = ''R'' then Ok (eve_claims 172800 Refresh) else Err ''unknown''),
    sha256 = id, base64_url = of_bytes, debug_str = id\<rparr>"

definition eve_service :: "(mem_engine, nat) auth_service" where
  "eve_service = \<lparr>as_engine = MemEngine, as_tick = (\<lambda>n. (Some (Ok (Hlc (of_nat n))), Suc n)),
    as_signer = SignHs256 [], as_access_ttl = DEFAULT_ACCESS_TTL, as_refresh_ttl = DEFAULT_REFRESH_TTL\<rparr>"

definition eve_draw :: auth_draw where
  "eve_draw = \<lparr>dr_uuid = ''u1'', dr_salt = []\<rparr>"

definition eve_state :: "(mem_engine, nat) auth_state" where
  "eve_state = \<lparr>au_storage = mem_new, au_clock = 0, au_revoked = {}, au_revoked_poisoned = False\<rparr>"

lemma eve_laws:
  "json_laws eve_ext" "argon_law eve_ext" "signer_law eve_ext (as_signer eve_service)"
  "as_engine eve_service = MemEngine" "directory_inv eve_ext (au_storage eve_state)"
  "au_storage eve_state = mem_new" "\<not> au_revoked_poisoned eve_state" "au_revoked eve_state = {}"
  using directory_inv_new
  by (auto simp: json_laws_def argon_law_def signer_law_def eve_ext_def tabled_def sign_encode_def sign_decode_def
    eve_service_def eve_state_def split: if_splits)

lemma eve_created:
  "\<exists>t. create_user eve_ext eve_service eve_draw eve_request eve_state = (Some (Ok ''u1''), eve_state\<lparr>au_storage := t\<rparr>)"
proof -
  have "mem_directory eve_ext (au_storage eve_state) = (\<lambda>_. None)"
    by (simp add: fun_eq_iff directory_def user_at_def mem_view_def eve_state_def mem_new_def init_cf_map_def cf_all_def)
  hence "directory_create eve_ext eve_draw eve_request (mem_directory eve_ext (au_storage eve_state)) = Ok eve"
    by (simp add: directory_create_def check_request_def eve_request_def is_server_admin_def has_tenant_user_def
      has_username_def hash_password_def eve_ext_def tabled_def request_user_def eve_draw_def eve_def)
  moreover have "su_user_id eve = ''u1''" by (simp add: eve_def)
  ultimately show ?thesis
    using mem.create_user_run [OF eve_laws(4) _ eve_laws(1), of eve_state eve_draw eve_request] eve_laws(5)
    by (auto simp: directory_inv_def)
qed

theorem create_users_unique_witness:
  "directory_unique (mem_directory eve_ext (au_storage (create_all eve_ext eve_service
     [(eve_draw, eve_request), (eve_draw, eve_request)] eve_state)))"
  using create_users_unique [OF eve_laws(1,4,6), of "[(eve_draw, eve_request), (eve_draw, eve_request)]"] by blast

lemma eve_evaluates:
  "as_tick eve_service (au_clock eve_state) = (Some (Ok (Hlc 0)), 1)"
  "as_tick eve_service 1 = (Some (Ok (Hlc 1)), 2)" "as_tick eve_service 2 = (Some (Ok (Hlc 2)), 3)"
  "physical_ms (Hlc 0) div 1000 = 0" "physical_ms (Hlc 1) div 1000 = 0" "physical_ms (Hlc 2) div 1000 = 0"
  "as_access_ttl eve_service = DEFAULT_ACCESS_TTL" "as_refresh_ttl eve_service = DEFAULT_REFRESH_TTL"
  "saturating_add 0 (as_secs DEFAULT_ACCESS_TTL) = 3600" "saturating_add 0 (as_secs DEFAULT_REFRESH_TTL) = 172800"
  by (simp_all add: eve_service_def eve_state_def physical_ms_def PHYSICAL_SHIFT_def as_secs_def DEFAULT_ACCESS_TTL_def
    DEFAULT_REFRESH_TTL_def saturating_add_def)

theorem created_user_logs_in_witness:
  "\<exists>s1 s2. login eve_ext eve_service \<lparr>cr_username = ''eve'', cr_password = ''secret99''\<rparr> s1 =
      (Some (Ok \<lparr>access_token = ''A'', refresh_token = ''R'', tp_access_ttl = DEFAULT_ACCESS_TTL,
        tp_refresh_ttl = DEFAULT_REFRESH_TTL\<rparr>), s2) \<and>
    fst (verify eve_ext eve_service ''A'' s2) = Some (Ok (claims_new ''u1'' (Some ''acme'') [ReadWrite] 0 3600))"
proof -
  obtain t where created: "create_user eve_ext eve_service eve_draw eve_request eve_state =
      (Some (Ok ''u1''), eve_state\<lparr>au_storage := t\<rparr>)"
    using eve_created by blast
  let ?base = "claims_new ''u1'' (Some ''acme'') [ReadWrite] 0 0"
  have fields: "is_server_admin [ReadWrite] = False" "uc_tenant eve_request = Some ''acme''"
    "uc_roles eve_request = [ReadWrite]" "uc_username eve_request = ''eve''" "uc_password eve_request = ''secret99''"
    by (simp_all add: eve_request_def is_server_admin_def)
  have signs: "sign_encode eve_ext (as_signer eve_service) (from_claims (token_claims ?base 0 DEFAULT_ACCESS_TTL) Access) = Ok ''A''"
    "sign_encode eve_ext (as_signer eve_service) (from_claims (token_claims ?base 0 DEFAULT_REFRESH_TTL) Refresh) = Ok ''R''"
    by (simp_all add: sign_encode_def eve_service_def eve_ext_def from_claims_def token_claims_def claims_new_def
      eve_claims_def eve_evaluates)
  show ?thesis
    using created_user_logs_in [OF eve_laws(1-5,7) created eve_evaluates(1-3), of ?base "''A''" "''R''",
      unfolded fields eve_evaluates(4-10)] signs eve_laws(8)
    by (fastforce simp: claims_new_def token_claims_def eve_evaluates)
qed

end
