(* ===== verification/Tokens.thy ===== *)
theory Tokens
  imports Directory
begin

text \<open>
  The life of a token across the operations of the authentication service: a token
  that was logged out or that \<open>verify\<close> found expired is never accepted again,
  whatever is called in between and whatever the system clock reads, and what a
  logout leaves alone.  The service reads a clock through the locale
  \<open>ticking_clock\<close>, met by \<open>WallClock\<close> over any sequence of system times.
\<close>

section \<open>Clocks that do not run backwards\<close>

text \<open>\<open>WallClock\<close> with the times the system clock reads, one for each call.\<close>

definition wall_ticks :: "(nat \<Rightarrow> u64) \<Rightarrow> wall_clock \<times> nat \<Rightarrow> hlc_outcome \<times> wall_clock \<times> nat" where
  "wall_ticks sys = (\<lambda>(c, i). case wall_tick (sys i) c of (r, c') \<Rightarrow> (r, c', Suc i))"

datatype auth_op =
    OpCreate auth_draw user_create_request
  | OpLogin credentials
  | OpRefresh string
  | OpVerify string
  | OpLogout string

fun auth_exec :: "auth_ext \<Rightarrow> ('s, 'c) auth_service \<Rightarrow> auth_op \<Rightarrow> ('s, 'c) auth_state \<Rightarrow> ('s, 'c) auth_state" where
  "auth_exec X A (OpCreate d req) s = snd (create_user X A d req s)"
| "auth_exec X A (OpLogin cr) s = snd (login X A cr s)"
| "auth_exec X A (OpRefresh t) s = snd (refresh X A t s)"
| "auth_exec X A (OpVerify t) s = snd (verify X A t s)"
| "auth_exec X A (OpLogout t) s = snd (logout X t s)"

definition auth_run ::
  "auth_ext \<Rightarrow> ('s, 'c) auth_service \<Rightarrow> auth_op list \<Rightarrow> ('s, 'c) auth_state \<Rightarrow> ('s, 'c) auth_state" where
  "auth_run X A ops s = fold (auth_exec X A) ops s"

lemma sign_decode_Err: "sign_decode X sg tok \<noteq> Err TokenExpired"
  by (auto simp: sign_decode_def map_sum_def split: sum.splits)

locale ticking_clock =
  fixes tick :: "'c \<Rightarrow> hlc_outcome \<times> 'c" and reading :: "'c \<Rightarrow> hlc"
  assumes tick_forward: "tick c = (r, c') \<Longrightarrow> reading c \<le> reading c'"
    and tick_reading: "tick c = (Some (Ok h), c') \<Longrightarrow> reading c' = h"
begin

definition later :: "('s, 'c) auth_state \<Rightarrow> ('s, 'c) auth_state \<Rightarrow> bool" where
  "later s t \<longleftrightarrow> au_revoked s \<subseteq> au_revoked t \<and> reading (au_clock s) \<le> reading (au_clock t)"

lemma later_order: "reflp later" "transp later"
  by (auto simp: later_def reflp_def transp_def)

lemma moves_store: "act_moves later (au_store X m)"
  by (auto simp: act_moves_def au_store_def later_def split: prod.splits)

lemma moves_now: "as_tick A = tick \<Longrightarrow> act_moves later (now_secs A)"
  by (auto simp: act_moves_def now_secs_def later_def intro: tick_forward [of _ _ _] split: prod.splits)

lemma moves_revocation:
  "act_moves later (check_revoked X t)" "act_moves later (revoke X t)"
  by (auto simp: act_moves_def check_revoked_def revoke_def later_def)

lemmas moves = act_moves_bind [OF later_order(2)] act_moves_simple [OF later_order(1)]
  moves_store moves_now moves_revocation

lemma moves_tenant_loop: "act_moves later (tenant_loop X A t iter)"
  by (induction iter) (auto intro!: moves simp: get_roles_def split: option.splits)

lemma moves_auth:
  fixes A :: "('s, 'c) auth_service"
  assumes "as_tick A = tick"
  shows "act_moves later (create_user X A d req)" "act_moves later (login X A cr)"
    "act_moves later (refresh X A tok)" "act_moves later (verify X A tok)" "act_moves later (logout X tok :: ('s, 'c, unit) auth_act)"
  using assms
  by (auto intro!: moves moves_tenant_loop simp: create_user_def login_def refresh_def verify_def logout_def
    decode_token_def issue_token_pair_def non_server_admin_exists_for_tenant_def scan_prefix_def
    find_user_by_username_def find_user_by_id_def get_roles_def persist_user_and_roles_def Let_def split: option.splits)

lemma run_later: "as_tick A = tick \<Longrightarrow> later s (auth_run X A ops s)"
proof (induction ops arbitrary: s)
  case Nil
  thus ?case by (simp add: auth_run_def later_def)
next
  case (Cons op ops)
  have "later s (auth_exec X A op s)"
    using moves_auth [OF Cons.prems] by (cases op) (simp_all add: act_moves_def)
  moreover have "later (auth_exec X A op s) (auth_run X A ops (auth_exec X A op s))"
    using Cons by blast
  ultimately show ?case by (auto simp: auth_run_def later_def)
qed

text \<open>
  An accepted token is not revoked, and expires after the clock's reading; a token is
  reported expired when the reading has reached its expiry.
\<close>

lemma verify_cases:
  assumes "as_tick A = tick" "verify X A tok s = (Some res, t)"
  shows "res = Ok c \<Longrightarrow> token_digest X tok \<notin> au_revoked s \<and> (\<exists>j. sign_decode X (as_signer A) tok = Ok j \<and>
      c = into_claims j \<and> (\<exists>h. reading (au_clock s) \<le> h \<and> physical_ms h div 1000 < cl_exp c))"
    "res = Err TokenExpired \<Longrightarrow> \<exists>j. sign_decode X (as_signer A) tok = Ok j \<and>
      cl_exp (into_claims j) \<le> physical_ms (reading (au_clock t)) div 1000"
proof -
  obtain r c' where tk: "tick (au_clock s) = (r, c')" by fastforce
  note up = tick_forward [OF tk] tick_reading [of "au_clock s" _ c']
  note run = assms [unfolded verify_def decode_token_def check_revoked_def act_bind_def act_of_result_def
    act_err_def act_ok_def now_secs_def is_expired_def]
  show "token_digest X tok \<notin> au_revoked s \<and> (\<exists>j. sign_decode X (as_signer A) tok = Ok j \<and>
      c = into_claims j \<and> (\<exists>h. reading (au_clock s) \<le> h \<and> physical_ms h div 1000 < cl_exp c))" if "res = Ok c"
  proof (cases r)
    case None
    thus ?thesis using run that tk by (auto split: if_splits sum.splits)
  next
    case (Some r')
    thus ?thesis using run that tk up by (cases r') (auto simp: not_le split: if_splits sum.splits)
  qed
  show "\<exists>j. sign_decode X (as_signer A) tok = Ok j \<and>
      cl_exp (into_claims j) \<le> physical_ms (reading (au_clock t)) div 1000" if "res = Err TokenExpired"
  proof (cases r)
    case None
    thus ?thesis using run that tk sign_decode_Err by (auto simp: revoked_poisoned_def split: if_splits sum.splits)
  next
    case (Some r')
    thus ?thesis using run that tk up sign_decode_Err
      by (cases r') (auto simp: revoked_poisoned_def split: if_splits sum.splits)
  qed
qed

text \<open>The two ways a token dies, and that it stays dead.\<close>

lemma dead_forever:
  assumes A: "as_tick A = tick"
    and "logout X tok s = (Some (Ok ()), t) \<or> verify X A tok s = (Some (Err TokenExpired), t)"
  shows "fst (verify X A tok (auth_run X A ops t)) \<noteq> Some (Ok c)"
proof
  assume "fst (verify X A tok (auth_run X A ops t)) = Some (Ok c)"
  then obtain u where acc: "verify X A tok (auth_run X A ops t) = (Some (Ok c), u)" by (metis prod.collapse)
  have up: "au_revoked t \<subseteq> au_revoked (auth_run X A ops t)"
    "reading (au_clock t) \<le> reading (au_clock (auth_run X A ops t))"
    using run_later [OF A, of t X ops] by (simp_all add: later_def)
  show False
    using assms(2)
  proof
    assume "logout X tok s = (Some (Ok ()), t)"
    hence "token_digest X tok \<in> au_revoked t" by (auto simp: logout_def revoke_def split: if_splits)
    thus False using up verify_cases(1) [OF A acc refl] by blast
  next
    assume "verify X A tok s = (Some (Err TokenExpired), t)"
    then obtain j where j: "sign_decode X (as_signer A) tok = Ok j"
      "cl_exp (into_claims j) \<le> physical_ms (reading (au_clock t)) div 1000"
      using verify_cases(2) [OF A] by blast
    obtain h where h: "reading (au_clock (auth_run X A ops t)) \<le> h" "physical_ms h div 1000 < cl_exp (into_claims j)"
      using verify_cases(1) [OF A acc refl] j(1) by auto
    have "physical_ms (reading (au_clock t)) \<le> physical_ms h"
      using order_trans [OF up(2) h(1)] by (auto simp: hlc_le_iff)
    hence "physical_ms (reading (au_clock t)) div 1000 \<le> physical_ms h div 1000"
      by (simp add: word_le_nat_alt unat_div div_le_mono)
    thus False using j(2) h(2) by (meson leD order_trans)
  qed
qed

end

lemma wall_ticks_cases:
  "wall_ticks sys (c, i) = (r, c') \<Longrightarrow> (\<exists>h. r = Some (Ok h) \<and> wc_state c < h \<and> wc_state (fst c') = h) \<or>
    ((\<nexists>h. r = Some (Ok h)) \<and> wc_state (fst c') = wc_state c)"
  by (auto simp: wall_ticks_def wall_tick_def wall_guarded_def hlc_tick_above hlc_tick_above [OF sym]
    split: prod.splits option.splits sum.splits if_splits)

interpretation wallsrc: ticking_clock "wall_ticks sys" "wc_state \<circ> fst" for sys
  by unfold_locales (auto dest!: wall_ticks_cases)

interpretation manualsrc: ticking_clock manual_tick mc_state
  by unfold_locales
    (auto simp: manual_tick_def manual_guarded_def intro: less_imp_le [OF hlc_tick_above [OF sym]] split: if_splits option.splits sum.splits)

section \<open>Properties\<close>

text \<open>
  C8: A token that was logged out, or that \<open>verify\<close> has rejected as expired, is never
  accepted again: not after any sequence of user creations, logins, refreshes,
  verifications and logouts, and not when the system clock is set back, since the
  service reads time through the hybrid clock, which never goes backwards.
\<close>

theorem dead_tokens_stay_dead:
  assumes "as_tick A = wall_ticks sys"
    and "logout X tok s = (Some (Ok ()), t) \<or> verify X A tok s = (Some (Err TokenExpired), t)"
  shows "fst (verify X A tok (auth_run X A ops t)) \<noteq> Some (Ok c)"
  using assms by (rule wallsrc.dead_forever)

definition walled_service :: "(mem_engine, wall_clock \<times> nat) auth_service" where
  "walled_service = \<lparr>as_engine = MemEngine, as_tick = wall_ticks (\<lambda>i. 1000 - of_nat i), as_signer = SignHs256 [],
    as_access_ttl = DEFAULT_ACCESS_TTL, as_refresh_ttl = DEFAULT_REFRESH_TTL\<rparr>"

definition walled_state :: "(mem_engine, wall_clock \<times> nat) auth_state" where
  "walled_state = \<lparr>au_storage = mem_new, au_clock = (\<lparr>wc_state = hlc_zero, wc_poisoned = False\<rparr>, 0),
    au_revoked = {}, au_revoked_poisoned = False\<rparr>"

theorem dead_tokens_stay_dead_witness:
  "(\<exists>c. fst (verify eve_ext walled_service ''A'' walled_state) = Some (Ok c)) \<and>
   (\<nexists>c. fst (verify eve_ext walled_service ''A'' (auth_run eve_ext walled_service
     [OpCreate eve_draw eve_request, OpVerify ''A'', OpLogout ''R''] (snd (logout eve_ext ''A'' walled_state)))) = Some (Ok c))"
proof -
  have "logout eve_ext ''A'' walled_state = (Some (Ok ()), snd (logout eve_ext ''A'' walled_state))"
    by (simp add: logout_def revoke_def walled_state_def)
  moreover have "fst (verify eve_ext walled_service ''A'' walled_state) = Some (Ok (into_claims (eve_claims 3600 Access)))"
    by (simp add: verify_def decode_token_def check_revoked_def act_bind_def act_of_result_def act_ok_def walled_state_def
      sign_decode_def walled_service_def eve_ext_def eve_claims_def now_secs_def wall_ticks_def wall_tick_def
      wall_guarded_def hlc_tick_def hlc_zero_def physical_ms_def PHYSICAL_SHIFT_def hlc_new_def try_new_def
      is_expired_def into_claims_def claims_new_def clock_eval word_le_nat_alt)
  ultimately show ?thesis
    using dead_tokens_stay_dead [of walled_service "\<lambda>i. 1000 - of_nat i" eve_ext "''A''" walled_state]
    by (auto simp: walled_service_def)
qed

end
