(* ===== verification/Server.thy ===== *)
theory Server
  imports Wire Tokens
begin

text \<open>
  The server of \<open>crates/bashfuldb-protocol/src/server.rs\<close>: the accept loop with its
  connection limit, and the life of one connection: banner, AUTH handshake, command
  loop.  The authenticator and the command handler are records of operations on a
  shared world \<open>'w\<close>; the authentication service is one such authenticator.

  A connection has the stream its peer sends, the bytes written to it, and the
  outcomes the coming writes and flushes have (\<open>cn_faults\<close>; none left means they
  succeed).  The command loop is a partial function, shown to return on every stream.
  The TLS handshake and the log lines are not modelled.
\<close>

section \<open>Configuration and interfaces\<close>

record tls_config =
  cert_pem :: string
  key_pem :: string
  dev_mode :: bool

definition tls_dev :: tls_config where
  "tls_dev = \<lparr>cert_pem = [], key_pem = [], dev_mode = True\<rparr>"

record 'p server_config =
  bind_addr :: 'p
  max_connections :: nat
  sc_tls :: "tls_config option"
  max_line_length :: nat
  max_bulk_length :: nat

text \<open>The socket address \<open>0.0.0.0:port\<close> is what \<open>addr\<close> makes of a port.\<close>

definition server_config_default :: "(u16 \<Rightarrow> 'p) \<Rightarrow> 'p server_config" where
  "server_config_default addr =
    \<lparr>bind_addr = addr DEFAULT_PORT, max_connections = DEFAULT_MAX_CONNECTIONS, sc_tls = None,
     max_line_length = DEFAULT_MAX_LINE_LENGTH, max_bulk_length = DEFAULT_MAX_BULK_LENGTH\<rparr>"

record 'p connection_context =
  cx_peer_addr :: 'p
  cx_conn_id :: u64
  cx_claims :: "claims option"

record 'w authenticator =
  a_login :: "credentials \<Rightarrow> ('w, auth_error, token_pair) act"
  a_refresh :: "string \<Rightarrow> ('w, auth_error, token_pair) act"
  a_verify :: "string \<Rightarrow> ('w, auth_error, claims) act"
  a_logout :: "string \<Rightarrow> ('w, auth_error, unit) act"

text \<open>A handler returns a response or panics.\<close>

type_synonym ('w, 'p) handler = "command \<Rightarrow> 'p connection_context \<Rightarrow> 'w \<Rightarrow> response option \<times> 'w"

definition auth_authenticator ::
  "auth_ext \<Rightarrow> ('s, 'c) auth_service \<Rightarrow> ('s, 'c) auth_state authenticator" where
  "auth_authenticator X A = \<lparr>a_login = login X A, a_refresh = refresh X A, a_verify = verify X A,
    a_logout = logout X\<rparr>"

text \<open>\<open>Display\<close> of an authentication error; the derived \<open>Debug\<close> of an action is its name.\<close>

definition debug_action :: "action \<Rightarrow> string" where
  "debug_action a =
    (case a of
       ActRead \<Rightarrow> ''Read'' | ActCreate \<Rightarrow> ''Create'' | ActUpdate \<Rightarrow> ''Update'' | ActDelete \<Rightarrow> ''Delete''
     | CreateIndex \<Rightarrow> ''CreateIndex'' | DropIndex \<Rightarrow> ''DropIndex''
     | CreateDatabase \<Rightarrow> ''CreateDatabase'' | DropDatabase \<Rightarrow> ''DropDatabase''
     | CreateCollection \<Rightarrow> ''CreateCollection'' | DropCollection \<Rightarrow> ''DropCollection''
     | ManageUsers \<Rightarrow> ''ManageUsers'' | ManageCluster \<Rightarrow> ''ManageCluster'')"

definition show_auth_error :: "(string \<Rightarrow> string) \<Rightarrow> auth_error \<Rightarrow> string" where
  "show_auth_error dbg e =
    (case e of
       InvalidCredentials \<Rightarrow> ''invalid credentials''
     | TokenExpired \<Rightarrow> ''token expired''
     | InvalidToken reason \<Rightarrow> ''invalid token: '' @ reason
     | TokenRevoked \<Rightarrow> ''token revoked''
     | PermissionDenied a res \<Rightarrow> ''permission denied: '' @ debug_action a @ '' on '' @ res
     | UserNotFound username \<Rightarrow> ''user not found: '' @ dbg username
     | UserAlreadyExists username \<Rightarrow> ''user already exists: '' @ dbg username
     | WeakPassword reason \<Rightarrow> ''password too weak: '' @ reason
     | AuthInternal message \<Rightarrow> ''auth internal error: '' @ message)"

section \<open>One connection\<close>

record 'w conn =
  cn_reader :: stream
  cn_out :: bytes
  cn_faults :: "string option list"
  cn_world :: 'w

type_synonym ('w, 'a) conn_act = "('w conn, protocol_error, 'a) act"

definition on_reader :: "'a parse \<Rightarrow> ('w, 'a) conn_act" where
  "on_reader m = (\<lambda>c. case m (cn_reader c) of (r, s) \<Rightarrow> (r, c\<lparr>cn_reader := s\<rparr>))"

definition on_auth :: "('w, auth_error, 'a) act \<Rightarrow> ('w conn, auth_error, 'a) act" where
  "on_auth m = (\<lambda>c. case m (cn_world c) of (r, w) \<Rightarrow> (r, c\<lparr>cn_world := w\<rparr>))"

text \<open>One call on the writer: the bytes go out, or the call fails.\<close>

definition write_all :: "bytes \<Rightarrow> ('w, unit) conn_act" where
  "write_all bs = (\<lambda>c.
    case cn_faults c of
      Some e # fs \<Rightarrow> (Some (Err (ProtoIo e)), c\<lparr>cn_faults := fs\<rparr>)
    | None # fs \<Rightarrow> (Some (Ok ()), c\<lparr>cn_faults := fs, cn_out := cn_out c @ bs\<rparr>)
    | [] \<Rightarrow> (Some (Ok ()), c\<lparr>cn_out := cn_out c @ bs\<rparr>))"

definition flush :: "('w, unit) conn_act" where
  "flush = write_all []"

definition write_response :: "response \<Rightarrow> ('w, unit) conn_act" where
  "write_response resp = write_all (serialize_response resp)"

definition write_error_str :: "string \<Rightarrow> ('w, unit) conn_act" where
  "write_error_str msg = write_response (RError msg)"

text \<open>\<open>let _ = write_error_str(..).await; let _ = flush().await;\<close>: outcomes ignored.\<close>

definition try_error :: "string \<Rightarrow> ('w, unit) conn_act" where
  "try_error msg =
    act_bind (act_try (write_error_str msg)) (\<lambda>_. act_bind (act_try flush) (\<lambda>_. act_ok ()))"

definition send_response :: "response \<Rightarrow> ('w, unit) conn_act" where
  "send_response resp = act_bind (write_response resp) (\<lambda>_. flush)"

definition write_banner :: "('w, unit) conn_act" where
  "write_banner = act_bind (write_all SERVER_BANNER) (\<lambda>_. flush)"

section \<open>The AUTH handshake\<close>

definition arg_utf8 :: "string \<Rightarrow> bytes \<Rightarrow> ('w, string) conn_act" where
  "arg_utf8 what bs =
    (case from_utf8 bs of
       Some s \<Rightarrow> act_ok s
     | None \<Rightarrow> act_err (AuthFailed (what @ '' is not valid UTF-8'')))"

text \<open>
  One round of the handshake: the claims, or \<open>None\<close> with the error the connection
  ends with if this was one error too many.
\<close>

definition auth_refused :: "string \<Rightarrow> protocol_error \<Rightarrow> ('w, protocol_error + claims) conn_act" where
  "auth_refused msg e = act_bind (try_error msg) (\<lambda>_. act_ok (Err e))"

definition auth_accepted :: "claims \<Rightarrow> ('w, protocol_error + claims) conn_act" where
  "auth_accepted c = act_bind (send_response (RSimple ''OK'')) (\<lambda>_. act_ok (Ok c))"

definition auth_token ::
  "proto_ext \<Rightarrow> 'w authenticator \<Rightarrow> bytes \<Rightarrow> ('w, protocol_error + claims) conn_act" where
  "auth_token X A arg =
    act_bind (arg_utf8 ''token'' arg) (\<lambda>token.
    act_bind (act_try (on_auth (a_verify A token))) (\<lambda>r.
    case r of
      Ok c \<Rightarrow> auth_accepted c
    | Err e \<Rightarrow> auth_refused (''ERR WRONGPASS '' @ show_auth_error (px_debug X) e) (AuthFailed (show_auth_error (px_debug X) e))))"

definition auth_password ::
  "proto_ext \<Rightarrow> 'w authenticator \<Rightarrow> bytes \<Rightarrow> bytes \<Rightarrow> ('w, protocol_error + claims) conn_act" where
  "auth_password X A arg0 arg1 =
    act_bind (arg_utf8 ''username'' arg0) (\<lambda>username.
    act_bind (arg_utf8 ''password'' arg1) (\<lambda>password.
    act_bind (act_try (on_auth (a_login A \<lparr>cr_username = username, cr_password = password\<rparr>))) (\<lambda>r.
    case r of
      Ok pair \<Rightarrow>
        act_bind (act_try (on_auth (a_verify A (access_token pair)))) (\<lambda>v.
        case v of
          Ok c \<Rightarrow> auth_accepted c
        | Err e \<Rightarrow> act_err (AuthFailed (show_auth_error (px_debug X) e)))
    | Err e \<Rightarrow> auth_refused (''ERR WRONGPASS '' @ show_auth_error (px_debug X) e) (AuthFailed (show_auth_error (px_debug X) e)))))"

definition auth_round ::
  "proto_ext \<Rightarrow> nat \<Rightarrow> nat \<Rightarrow> 'w authenticator \<Rightarrow> ('w, protocol_error + claims) conn_act" where
  "auth_round X max_line max_bulk A =
    act_bind (act_try (on_reader (parse_command X max_line max_bulk))) (\<lambda>parsed.
    case parsed of
      Ok None \<Rightarrow> act_err AuthRequired
    | Err e \<Rightarrow> auth_refused (''ERR '' @ show_protocol_error e) (AuthFailed ''too many errors during auth'')
    | Ok (Some cmd) \<Rightarrow>
        if cmd_name cmd \<noteq> ''AUTH'' then auth_refused ''ERR NOAUTH authentication required'' AuthRequired
        else (case cmd_args cmd of
            [arg] \<Rightarrow> auth_token X A arg
          | [arg0, arg1] \<Rightarrow> auth_password X A arg0 arg1
          | _ \<Rightarrow> auth_refused ''ERR AUTH requires 1 (token) or 2 (username password) arguments'' AuthRequired))"

function auth_handshake ::
  "proto_ext \<Rightarrow> nat \<Rightarrow> nat \<Rightarrow> 'w authenticator \<Rightarrow> nat \<Rightarrow> ('w, claims) conn_act" where
  "auth_handshake X max_line max_bulk A auth_errors =
    act_bind (auth_round X max_line max_bulk A) (\<lambda>r.
    case r of
      Ok c \<Rightarrow> act_ok c
    | Err e \<Rightarrow>
        if MAX_CONSECUTIVE_ERRORS < auth_errors + 1 then act_err e
        else auth_handshake X max_line max_bulk A (auth_errors + 1))"
  by pat_completeness auto

termination
  by (relation "measure (\<lambda>(_, _, _, _, n). MAX_CONSECUTIVE_ERRORS - n)") auto

declare auth_handshake.simps [simp del]

section \<open>The command loop\<close>

definition handle_command ::
  "('w, 'p) handler \<Rightarrow> 'p connection_context \<Rightarrow> command \<Rightarrow> ('w, unit) conn_act" where
  "handle_command H ctx cmd = (\<lambda>c.
    case H cmd ctx (cn_world c) of
      (None, w) \<Rightarrow> (None, c\<lparr>cn_world := w\<rparr>)
    | (Some resp, w) \<Rightarrow> send_response resp (c\<lparr>cn_world := w\<rparr>))"

text \<open>\<open>None\<close> is a loop that does not end; a result of \<open>None\<close> inside is a panic.\<close>

partial_function (option) command_loop ::
  "proto_ext \<Rightarrow> nat \<Rightarrow> nat \<Rightarrow> ('w, 'p) handler \<Rightarrow> 'p connection_context \<Rightarrow> nat \<Rightarrow> 'w conn \<Rightarrow>
    ((protocol_error, unit) result option \<times> 'w conn) option" where
  "command_loop X max_line max_bulk H ctx consecutive_errors c =
    (case on_reader (parse_command X max_line max_bulk) c of
       (None, c1) \<Rightarrow> Some (None, c1)
     | (Some (Ok None), c1) \<Rightarrow> Some (Some (Ok ()), c1)
     | (Some (Ok (Some cmd)), c1) \<Rightarrow>
         (case handle_command H ctx cmd c1 of
            (None, c2) \<Rightarrow> Some (None, c2)
          | (Some (Err e), c2) \<Rightarrow> Some (Some (Err e), c2)
          | (Some (Ok u), c2) \<Rightarrow> command_loop X max_line max_bulk H ctx 0 c2)
     | (Some (Err e), c1) \<Rightarrow>
         (case try_error (''ERR '' @ show_protocol_error e) c1 of (_, c2) \<Rightarrow>
            if MAX_CONSECUTIVE_ERRORS < consecutive_errors + 1 then Some (Some (Ok ()), c2)
            else command_loop X max_line max_bulk H ctx (consecutive_errors + 1) c2))"

definition handle_connection ::
  "proto_ext \<Rightarrow> 'p server_config \<Rightarrow> ('w, 'p) handler \<Rightarrow> 'w authenticator \<Rightarrow> 'p \<Rightarrow> u64 \<Rightarrow> 'w conn \<Rightarrow>
    ((protocol_error, unit) result option \<times> 'w conn) option" where
  "handle_connection X cfg H A peer_addr conn_id c =
    (case act_bind write_banner (\<lambda>_.
        auth_handshake X (max_line_length cfg) (max_bulk_length cfg) A 0) c of
       (None, c1) \<Rightarrow> Some (None, c1)
     | (Some (Err e), c1) \<Rightarrow> Some (Some (Err e), c1)
     | (Some (Ok cl), c1) \<Rightarrow>
         command_loop X (max_line_length cfg) (max_bulk_length cfg) H
           \<lparr>cx_peer_addr = peer_addr, cx_conn_id = conn_id, cx_claims = Some cl\<rparr> 0 c1)"

section \<open>The accept loop\<close>

record 'p server_state =
  sv_permits :: nat
  sv_next_id :: u64
  sv_active :: "(u64 \<times> 'p) list"
  sv_rejected :: "'p list"
  sv_accepting :: bool

text \<open>
  \<open>Server::run\<close> up to its loop: \<open>tls\_feature\<close> is the build feature, \<open>acceptor\<close> what
  building the TLS acceptor gives when it is enabled, \<open>bound\<close> what binding the address gives.
\<close>

definition server_start ::
  "bool \<Rightarrow> (tls_config \<Rightarrow> (protocol_error, unit) result) \<Rightarrow> (string, unit) result \<Rightarrow> 'p server_config \<Rightarrow>
    (protocol_error, 'p server_state) result" where
  "server_start tls_feature acceptor bound cfg =
    (case bound of
       Err e \<Rightarrow> Err (ProtoIo e)
     | Ok _ \<Rightarrow>
         (case (if tls_feature then (case sc_tls cfg of None \<Rightarrow> Ok () | Some t \<Rightarrow> acceptor t) else Ok ()) of
            Err e \<Rightarrow> Err e
          | Ok _ \<Rightarrow>
              if sc_tls cfg \<noteq> None \<and> \<not> tls_feature
              then Err (Tls ''TLS requested but the `tls` feature is not enabled'')
              else Ok \<lparr>sv_permits = max_connections cfg, sv_next_id = 0, sv_active = [],
                       sv_rejected = [], sv_accepting = True\<rparr>))"

text \<open>One accepted socket: a connection task, or a rejection when no permit is left.\<close>

definition accept_connection :: "'p \<Rightarrow> 'p server_state \<Rightarrow> 'p server_state" where
  "accept_connection peer_addr s =
    (if sv_permits s = 0 then s\<lparr>sv_rejected := sv_rejected s @ [peer_addr]\<rparr>
     else s\<lparr>sv_permits := sv_permits s - 1, sv_next_id := sv_next_id s + 1,
            sv_active := sv_active s @ [(sv_next_id s, peer_addr)]\<rparr>)"

text \<open>A task that ends, in whatever way, drops its permit.\<close>

definition connection_ends :: "u64 \<times> 'p \<Rightarrow> 'p server_state \<Rightarrow> 'p server_state" where
  "connection_ends t s = s\<lparr>sv_permits := sv_permits s + 1, sv_active := remove1 t (sv_active s)\<rparr>"

definition begin_shutdown :: "'p server_state \<Rightarrow> 'p server_state" where
  "begin_shutdown s = s\<lparr>sv_accepting := False\<rparr>"

inductive server_step :: "'p server_state \<Rightarrow> 'p server_state \<Rightarrow> bool" where
  Accept: "sv_accepting s \<Longrightarrow> server_step s (accept_connection p s)"
| AcceptError: "sv_accepting s \<Longrightarrow> server_step s s"
| Ends: "t \<in> set (sv_active s) \<Longrightarrow> server_step s (connection_ends t s)"
| Stop: "sv_accepting s \<Longrightarrow> server_step s (begin_shutdown s)"

inductive_cases server_stepE: "server_step s t"

text \<open>The states after a start, by the number of connections that have been given an id.\<close>

inductive server_reach :: "'p server_config \<Rightarrow> nat \<Rightarrow> 'p server_state \<Rightarrow> bool" for cfg where
  Start: "server_start f acc b cfg = Ok s \<Longrightarrow> server_reach cfg 0 s"
| Step: "server_reach cfg n s \<Longrightarrow> server_step s t \<Longrightarrow>
    server_reach cfg (if sv_next_id t = sv_next_id s then n else Suc n) t"

end
