(* ===== verification/Connections.thy ===== *)
theory Connections
  imports Server
begin

text \<open>
  What holds of the server's connections: every connection ends when its peer's stream
  does, the command handler is reached only with claims the authenticator has verified,
  and the accept loop never runs more connections than it is configured for.
\<close>

section \<open>Writing does not read\<close>

lemma reader_write [simp]: "cn_reader (snd (write_all bs c)) = cn_reader c"
  by (auto simp: write_all_def split: list.splits option.splits)

lemma reader_bind [simp]:
  "(\<And>d. cn_reader (snd (m d)) = cn_reader d) \<Longrightarrow> (\<And>a d. cn_reader (snd (f a d)) = cn_reader d) \<Longrightarrow>
    cn_reader (snd (act_bind m f c)) = cn_reader c"
  by (auto simp: act_bind_def split: prod.splits option.splits sum.splits) (metis snd_conv)+

lemma reader_try [simp]: "(\<And>d. cn_reader (snd (m d)) = cn_reader d) \<Longrightarrow> cn_reader (snd (act_try m c)) = cn_reader c"
  by (auto simp: act_try_def split: prod.splits) (metis snd_conv)

lemma reader_sends [simp]:
  "cn_reader (snd (send_response r c)) = cn_reader c" "cn_reader (snd (try_error msg c)) = cn_reader c"
  by (auto simp: send_response_def try_error_def write_response_def write_error_str_def flush_def act_ok_def)

lemma reader_handle [simp]: "cn_reader (snd (handle_command H ctx cmd c)) = cn_reader c"
  by (auto simp: handle_command_def split: prod.splits option.splits)

section \<open>The command loop returns\<close>

lemma loop_step_smaller:
  assumes "on_reader (parse_command X ml mb) c = (r, c1)" "r \<noteq> Some (Ok None)"
  shows "weight (cn_reader c1) < weight (cn_reader c)"
  using assms command_progress [of X ml mb "cn_reader c"]
  by (auto simp: on_reader_def split: prod.splits)

lemma command_loop_returns: "\<exists>r. command_loop X ml mb H ctx n c = Some r"
proof (induction "weight (cn_reader c)" arbitrary: n c rule: less_induct)
  case less
  obtain r c1 where p: "on_reader (parse_command X ml mb) c = (r, c1)" by fastforce
  note small = loop_step_smaller [OF p]
  have next_cmd: "\<exists>q. command_loop X ml mb H ctx 0 (snd (handle_command H ctx cmd c1)) = Some q"
    if "r = Some (Ok (Some cmd))" for cmd
    using less [of "snd (handle_command H ctx cmd c1)" 0] small that by simp
  have next_err: "\<exists>q. command_loop X ml mb H ctx (n + 1) (snd (try_error msg c1)) = Some q"
    if "r = Some (Err e)" for e msg
    using less [of "snd (try_error msg c1)" "n + 1"] small that by simp
  show ?case
    using p next_cmd next_err
    by (subst command_loop.simps) (auto split: prod.splits option.splits sum.splits; metis snd_conv)
qed

text \<open>The loop uses its handler at its own context only.\<close>

lemma command_loop_cong:
  assumes "\<And>cmd w. H cmd ctx w = H' cmd ctx w"
  shows "command_loop X ml mb H ctx n c = command_loop X ml mb H' ctx n c"
proof (induction "weight (cn_reader c)" arbitrary: n c rule: less_induct)
  case less
  have h: "handle_command H ctx cmd = handle_command H' ctx cmd" for cmd
    using assms by (simp add: handle_command_def fun_eq_iff)
  obtain r c1 where p: "on_reader (parse_command X ml mb) c = (r, c1)" by fastforce
  note small = loop_step_smaller [OF p]
  have next_cmd: "command_loop X ml mb H ctx 0 (snd (handle_command H' ctx cmd c1)) =
      command_loop X ml mb H' ctx 0 (snd (handle_command H' ctx cmd c1))" if "r = Some (Ok (Some cmd))" for cmd
    using less [of "snd (handle_command H' ctx cmd c1)" 0] small that by simp
  have next_err: "command_loop X ml mb H ctx (n + 1) (snd (try_error msg c1)) =
      command_loop X ml mb H' ctx (n + 1) (snd (try_error msg c1))" if "r = Some (Err e)" for e msg
    using less [of "snd (try_error msg c1)" "n + 1"] small that by simp
  show ?case
    using p next_cmd next_err
    by (subst (1 2) command_loop.simps) (auto simp: h split: prod.splits option.splits sum.splits; metis snd_conv)
qed

section \<open>What the handshake accepts\<close>

definition verified :: "'w authenticator \<Rightarrow> claims \<Rightarrow> bool" where
  "verified A cl \<longleftrightarrow> (\<exists>tok w. fst (a_verify A tok w) = Some (Ok cl))"

text \<open>Every value an operation can return satisfies \<open>P\<close>.\<close>

definition yields :: "('a \<Rightarrow> bool) \<Rightarrow> ('s, 'e, 'a) act \<Rightarrow> bool" where
  "yields P m \<longleftrightarrow> (\<forall>s b. fst (m s) = Some (Ok b) \<longrightarrow> P b)"

lemma yields_bind: "(\<And>a s t. m s = (Some (Ok a), t) \<Longrightarrow> yields P (f a)) \<Longrightarrow> yields P (act_bind m f)"
  unfolding yields_def act_bind_def by (auto split: prod.splits option.splits sum.splits)

lemma yields_simple: "P a \<Longrightarrow> yields P (act_ok a)" "yields P (act_err e)"
  by (auto simp: yields_def act_ok_def act_err_def)

lemma try_auth_verified:
  "act_try (on_auth (a_verify A tok)) c = (Some (Ok (Ok cl)), d) \<Longrightarrow> verified A cl"
  by (auto simp: act_try_def on_auth_def verified_def split: prod.splits) (metis fst_conv)

abbreviation round_verified :: "'w authenticator \<Rightarrow> protocol_error + claims \<Rightarrow> bool" where
  "round_verified A r \<equiv> (\<forall>cl. r = Ok cl \<longrightarrow> verified A cl)"

lemma yields_round: "yields (round_verified A) (auth_round X ml mb A)"
proof -
  have ok: "verified A cl \<Longrightarrow> yields (round_verified A) (auth_accepted cl)" for cl
    by (auto simp: auth_accepted_def intro!: yields_bind yields_simple)
  have no: "yields (round_verified A) (auth_refused msg e)" for msg e
    by (auto simp: auth_refused_def intro!: yields_bind yields_simple)
  have tok: "yields (round_verified A) (auth_token X A arg)" for arg
    by (auto simp: auth_token_def intro!: yields_bind ok no dest: try_auth_verified split: sum.splits)
  have pw: "yields (round_verified A) (auth_password X A arg0 arg1)" for arg0 arg1
    by (auto simp: auth_password_def intro!: yields_bind ok no yields_simple(2) split: sum.splits)
      (metis try_auth_verified)
  show ?thesis
    by (auto simp: auth_round_def intro!: yields_bind tok pw no yields_simple(2)
      split: sum.splits option.splits list.splits)
qed

lemma yields_handshake: "yields (verified A) (auth_handshake X ml mb A n)"
proof (induction X ml mb A n rule: auth_handshake.induct)
  case (1 X ml mb A n)
  have "round_verified A r" if "auth_round X ml mb A s = (Some (Ok r), t)" for r s t
    using yields_round [of A X ml mb, unfolded yields_def, rule_format, of s r] that by simp
  thus ?case
    using 1 by (subst auth_handshake.simps) (auto intro!: yields_bind yields_simple split: sum.splits)
qed

lemma verify_signed:
  assumes "fst (verify Y S tok s) = Some (Ok cl)"
  shows "\<exists>j. sign_decode Y (as_signer S) tok = Ok j \<and> jw_token_kind j = Access \<and> cl = into_claims j"
  using assms
  by (auto simp: verify_def decode_token_def act_bind_def act_of_result_def act_err_def act_ok_def
    split: prod.splits option.splits sum.splits if_splits)

section \<open>The accept loop\<close>

lemma server_step_permits: "server_step s t \<Longrightarrow> sv_permits t + length (sv_active t) = sv_permits s + length (sv_active s)"
  by (erule server_stepE)
    (auto simp: accept_connection_def connection_ends_def begin_shutdown_def length_remove1
      dest: length_pos_if_in_set)

text \<open>The ids in use are distinct as long as the counter has not wrapped.\<close>

definition ids_below :: "nat \<Rightarrow> 'p server_state \<Rightarrow> bool" where
  "ids_below n s \<longleftrightarrow> sv_next_id s = of_nat n \<and>
    (n \<le> 2 ^ 64 \<longrightarrow> distinct (map fst (sv_active s)) \<and> (\<forall>i \<in> fst ` set (sv_active s). unat i < n))"

lemma ids_below_accept:
  assumes "ids_below n s" "0 < sv_permits s"
  shows "ids_below (Suc n) (accept_connection p s)"
proof -
  have "unat (of_nat n :: u64) = n" if "Suc n \<le> 2 ^ 64"
    using that by (simp add: unat_of_nat)
  thus ?thesis
    using assms by (fastforce simp: ids_below_def accept_connection_def)
qed

lemma distinct_fst_remove1: "distinct (map fst xs) \<Longrightarrow> distinct (map fst (remove1 t xs))"
  by (induction xs) (auto dest: set_remove1_subset [THEN subsetD])

lemma ids_below_ends: "ids_below n s \<Longrightarrow> ids_below n (connection_ends t s)"
  using set_remove1_subset [of t "sv_active s"]
  by (auto simp: ids_below_def connection_ends_def intro!: distinct_fst_remove1)

lemma server_reach_inv:
  assumes "server_reach cfg n s"
  shows "ids_below n s" "sv_permits s + length (sv_active s) = max_connections cfg"
  using assms
proof (induction rule: server_reach.induct)
  case (Start f acc b s)
  {
    case 1
    show ?case using Start by (auto simp: server_start_def ids_below_def split: sum.splits if_splits)
  next
    case 2
    show ?case using Start by (auto simp: server_start_def split: sum.splits if_splits)
  }
next
  case (Step n s t)
  {
    case 1
    from Step.hyps(2) show ?case
    proof cases
      case (Accept p)
      show ?thesis
      proof (cases "sv_permits s = 0")
        case True
        thus ?thesis using Accept Step.IH(1) by (simp add: accept_connection_def ids_below_def)
      next
        case False
        thus ?thesis using Accept ids_below_accept [OF Step.IH(1)] by (simp add: accept_connection_def)
      qed
    next
      case (Ends t)
      thus ?thesis using ids_below_ends [OF Step.IH(1)] by (simp add: connection_ends_def)
    qed (use Step.IH(1) in \<open>simp_all add: ids_below_def begin_shutdown_def\<close>)
  next
    case 2
    show ?case using Step server_step_permits by metis
  }
qed

section \<open>Properties\<close>

text \<open>
  C28: A connection always ends: whatever the peer sends, however it is cut into reads
  and whichever reads and writes fail, handling it returns (or panics) once the
  peer's stream is used up, because every round of the command loop consumes input.
\<close>

theorem connection_returns: "\<exists>r. handle_connection X cfg H A peer i c = Some r"
  unfolding handle_connection_def
  using command_loop_returns by (auto split: prod.splits option.splits sum.splits)

text \<open>
  C3: The command handler is reached only after authentication: on a server that uses
  the authentication service, two handlers that agree whenever the context carries the
  claims of an access token this service's signer accepts give every connection the
  same course.  So nothing a handler does for a context without such claims can happen.
\<close>

theorem handler_only_after_auth:
  assumes "\<And>cmd ctx w cl tok j. cx_claims ctx = Some cl \<Longrightarrow> sign_decode Y (as_signer S) tok = Ok j \<Longrightarrow>
      jw_token_kind j = Access \<Longrightarrow> cl = into_claims j \<Longrightarrow> H cmd ctx w = H' cmd ctx w"
  shows "handle_connection X cfg H (auth_authenticator Y S) peer i c =
    handle_connection X cfg H' (auth_authenticator Y S) peer i c"
proof -
  let ?h = "act_bind write_banner (\<lambda>_.
    auth_handshake X (max_line_length cfg) (max_bulk_length cfg) (auth_authenticator Y S) 0)"
  have "yields (verified (auth_authenticator Y S)) ?h"
    by (intro yields_bind yields_handshake)
  hence same: "H cmd \<lparr>cx_peer_addr = peer, cx_conn_id = i, cx_claims = Some cl\<rparr> w =
      H' cmd \<lparr>cx_peer_addr = peer, cx_conn_id = i, cx_claims = Some cl\<rparr> w"
    if "fst (?h c) = Some (Ok cl)" for cl cmd w
  proof -
    have "verified (auth_authenticator Y S) cl" using \<open>yields _ _\<close> that by (auto simp: yields_def)
    then obtain tok v where "fst (verify Y S tok v) = Some (Ok cl)"
      by (auto simp: verified_def auth_authenticator_def)
    then obtain j where "sign_decode Y (as_signer S) tok = Ok j" "jw_token_kind j = Access" "cl = into_claims j"
      using verify_signed by blast
    thus ?thesis by (intro assms) simp_all
  qed
  have "command_loop X ml mb H \<lparr>cx_peer_addr = peer, cx_conn_id = i, cx_claims = Some cl\<rparr> n d =
      command_loop X ml mb H' \<lparr>cx_peer_addr = peer, cx_conn_id = i, cx_claims = Some cl\<rparr> n d"
    if "fst (?h c) = Some (Ok cl)" for ml mb cl n d
    by (rule command_loop_cong) (rule same [OF that])
  thus ?thesis
    unfolding handle_connection_def
    by (auto split: prod.splits option.splits sum.splits)
qed

theorem handler_only_after_auth_witness:
  "handle_connection \<lparr>px_debug = id, px_uppercase = id\<rparr> (server_config_default (\<lambda>_. ()))
      (\<lambda>cmd ctx w. (Some (RSimple ''YES''), w)) (auth_authenticator eve_ext eve_service) () 0
      \<lparr>cn_reader = [Ok (as_bytes ''PING'')], cn_out = [], cn_faults = [], cn_world = eve_state\<rparr> =
   handle_connection \<lparr>px_debug = id, px_uppercase = id\<rparr> (server_config_default (\<lambda>_. ()))
      (\<lambda>cmd ctx w. (if map_option cl_sub (cx_claims ctx) = Some ''u1'' then Some (RSimple ''YES'') else None, w))
      (auth_authenticator eve_ext eve_service) () 0
      \<lparr>cn_reader = [Ok (as_bytes ''PING'')], cn_out = [], cn_faults = [], cn_world = eve_state\<rparr>"
  by (rule handler_only_after_auth)
    (auto simp: sign_decode_def eve_service_def eve_ext_def into_claims_def claims_new_def eve_claims_def split: if_splits)

text \<open>
  C29: In every state the accept loop can reach, the connections being served and the free
  permits add up to the configured maximum, so there are never more connections than
  that; and no two of them have the same id until \<open>2^64\<close> ids have been given out.
\<close>

theorem connection_limit:
  assumes "server_reach cfg n s"
  shows "length (sv_active s) \<le> max_connections cfg \<and>
    sv_permits s + length (sv_active s) = max_connections cfg \<and>
    (n \<le> 2 ^ 64 \<longrightarrow> distinct (map fst (sv_active s)))"
  using server_reach_inv [OF assms] by (auto simp: ids_below_def)

theorem connection_limit_witness:
  "\<exists>s :: nat server_state. sv_rejected s = [3] \<and> map snd (sv_active s) = [1, 2] \<and> distinct (map fst (sv_active s))"
proof -
  let ?cfg = "\<lparr>bind_addr = 0 :: nat, max_connections = 2, sc_tls = None, max_line_length = 0, max_bulk_length = 0\<rparr>"
  let ?s = "\<lparr>sv_permits = 2, sv_next_id = 0, sv_active = [], sv_rejected = [], sv_accepting = True\<rparr>"
  let ?t = "accept_connection 3 (accept_connection 2 (accept_connection (1 :: nat) ?s))"
  have "server_reach ?cfg 0 ?s"
    by (rule Start [of False "\<lambda>_. Ok ()" "Ok ()"]) (simp add: server_start_def)
  hence "server_reach ?cfg (Suc 0) (accept_connection 1 ?s)"
    using Step [OF _ Accept, of ?cfg 0 ?s 1] by (simp add: accept_connection_def)
  hence "server_reach ?cfg (Suc (Suc 0)) (accept_connection 2 (accept_connection 1 ?s))"
    using Step [OF _ Accept, of ?cfg "Suc 0" "accept_connection 1 ?s" 2] by (simp add: accept_connection_def)
  hence "server_reach ?cfg (Suc (Suc 0)) ?t"
    using Step [OF _ Accept, of ?cfg "Suc (Suc 0)" "accept_connection 2 (accept_connection 1 ?s)" 3]
    by (simp add: accept_connection_def)
  from connection_limit [OF this] show ?thesis
    by (intro exI [of _ ?t]) (simp add: accept_connection_def)
qed

end
