(* ===== verification/Tls_Setup.thy ===== *)
theory Tls_Setup
  imports Server
begin

text \<open>
  \<open>crates/bashfuldb-protocol/src/tls.rs\<close>: the TLS acceptor a server starts with.  The crates \<open>rcgen\<close>, \<open>rustls\<close> and
  \<open>rustls_pemfile\<close> are the fields of \<open>tls_ext\<close>; an acceptor is the configuration it wraps.  Installing the process-wide
  crypto provider has no other effect and its result is discarded.
\<close>

record ('cert, 'key, 'conf) tls_ext =
  tx_self_signed :: "string list \<Rightarrow> (string, 'cert \<times> 'key) result"
  tx_certs :: "bytes \<Rightarrow> (string, 'cert) result list"
  tx_private_key :: "bytes \<Rightarrow> (string, 'key option) result"
  tx_with_single_cert :: "'cert list \<Rightarrow> 'key \<Rightarrow> (string, 'conf) result"

definition build_dev_config :: "('cert, 'key, 'conf) tls_ext \<Rightarrow> (protocol_error, 'conf) result" where
  "build_dev_config X =
    (case tx_self_signed X [''localhost''] of
       Err e \<Rightarrow> Err (Tls (''failed to generate self-signed cert: '' @ e))
     | Ok (cert_der, private_key) \<Rightarrow> map_sum Tls id (tx_with_single_cert X [cert_der] private_key))"

text \<open>\<open>collect\<close> into a \<open>Result\<close>: the first error wins.\<close>

primrec collect_certs :: "(string, 'cert) result list \<Rightarrow> (string, 'cert list) result" where
  "collect_certs [] = Ok []"
| "collect_certs (item # items) =
    (case item of
       Err e \<Rightarrow> Err e
     | Ok c \<Rightarrow> (case collect_certs items of Err e \<Rightarrow> Err e | Ok cs \<Rightarrow> Ok (c # cs)))"

definition build_config_from_pem ::
  "('cert, 'key, 'conf) tls_ext \<Rightarrow> string \<Rightarrow> string \<Rightarrow> (protocol_error, 'conf) result" where
  "build_config_from_pem X cert key =
    (case collect_certs (tx_certs X (as_bytes cert)) of
       Err e \<Rightarrow> Err (Tls (''invalid certificate PEM: '' @ e))
     | Ok cert_chain \<Rightarrow>
         (case tx_private_key X (as_bytes key) of
            Err e \<Rightarrow> Err (Tls (''invalid private-key PEM: '' @ e))
          | Ok None \<Rightarrow> Err (Tls ''no private key found in PEM'')
          | Ok (Some private_key) \<Rightarrow> map_sum Tls id (tx_with_single_cert X cert_chain private_key)))"

definition build_tls_acceptor :: "('cert, 'key, 'conf) tls_ext \<Rightarrow> tls_config \<Rightarrow> (protocol_error, 'conf) result" where
  "build_tls_acceptor X tls_cfg =
    (if dev_mode tls_cfg then build_dev_config X else build_config_from_pem X (cert_pem tls_cfg) (key_pem tls_cfg))"

lemma collect_certs_Ok: "collect_certs items = Ok cs \<Longrightarrow> items = map Ok cs"
  by (induction items arbitrary: cs) (auto split: sum.splits)

lemma map_sum_Ok: "map_sum f g r = Ok y \<longleftrightarrow> (\<exists>x. r = Ok x \<and> y = g x)"
  by (cases r) auto

lemma config_from_pem_Ok:
  assumes "build_config_from_pem X cert key = Ok conf"
  shows "\<exists>chain k. tx_certs X (as_bytes cert) = map Ok chain \<and> tx_private_key X (as_bytes key) = Ok (Some k) \<and>
    tx_with_single_cert X chain k = Ok conf"
  using assms collect_certs_Ok [of "tx_certs X (as_bytes cert)"]
  by (auto simp: build_config_from_pem_def map_sum_Ok split: sum.splits option.splits)

text \<open>
  A server that was asked for TLS never serves plain connections: it starts only with the feature compiled in and a configuration
  \<open>rustls\<close> accepted, for the whole certificate chain and the private key of the PEM texts outside the development mode.
\<close>

theorem tls_never_plain:
  assumes "sc_tls cfg = Some t"
    and "server_start feature (\<lambda>t. map_sum id (\<lambda>_. ()) (build_tls_acceptor X t)) bound cfg = Ok s"
  shows "feature \<and> (\<exists>conf. build_tls_acceptor X t = Ok conf \<and>
    (\<not> dev_mode t \<longrightarrow> (\<exists>chain k. tx_certs X (as_bytes (cert_pem t)) = map Ok chain \<and>
      tx_private_key X (as_bytes (key_pem t)) = Ok (Some k) \<and> tx_with_single_cert X chain k = Ok conf)))"
proof -
  have "feature" "\<exists>conf. build_tls_acceptor X t = Ok conf"
    using assms by (auto simp: server_start_def map_sum_Ok split: sum.splits if_splits)
  thus ?thesis using config_from_pem_Ok [of X] by (auto simp: build_tls_acceptor_def)
qed

end
