(* ===== verification/Schema.thy ===== *)
theory Schema
  imports Storage Doc_Value Text
begin

text \<open>
  Schema management of \<open>crates/bashfuldb-schema/src/lib.rs\<close>: the schema log and its
  replay, index creation and removal, convergence from gossip, and the index
  materialiser.  \<open>serde_json\<close> and base64 are the fields of \<open>schema_ext\<close>; the UUID and
  the timestamp of an operation are arguments.

  The log file is its content; each call on the file system may fail with the next
  entry of \<open>sw_faults\<close> (none left means calls succeed).  A failing write may have written a part of its bytes.  A \<open>HashMap\<close> whose size the
  code reads is an ordered association list.  The background task a call spawns is put
  into \<open>sw_tasks\<close> and run by \<open>run_schema_task\<close>.
\<close>

section \<open>Types\<close>

definition METADATA_STATE_KEY :: bytes where
  "METADATA_STATE_KEY = as_bytes ''schema/state''"

record index_definition =
  ix_id :: string
  ix_collection :: string
  ix_field :: string
  ix_created_at :: u64

record collection_schema =
  cs_id :: string
  cs_indexes :: "index_definition list"
  cs_version :: u64

datatype schema_op = CreateIndexOp | DropIndexOp

record log_entry =
  le_version :: u64
  le_op :: schema_op
  le_collection :: string
  le_field :: string
  le_index_id :: string
  le_timestamp :: string

datatype schema_error =
    SchemaStorage storage_error
  | SchemaSerde string
  | SchemaIo string
  | IndexQuotaExceeded string nat
  | IndexNotFound string string
  | InvalidIdentifier string string

record schema_state =
  ss_version :: u64
  ss_collections :: "(string, collection_schema) btree"
  ss_active :: "(string, (string, string) btree) btree"

definition schema_default :: schema_state where
  "schema_default = \<lparr>ss_version = 0, ss_collections = [], ss_active = []\<rparr>"

record 'n schema_ext =
  ser_state :: "schema_state \<Rightarrow> (string, bytes) result"
  de_state :: "bytes \<Rightarrow> (string, schema_state) result"
  ser_entry :: "log_entry \<Rightarrow> (string, string) result"
  de_entry :: "string \<Rightarrow> (string, log_entry) result"
  de_json :: "bytes \<Rightarrow> 'n json option"
  show_number :: "'n \<Rightarrow> string"
  b64_url :: "bytes \<Rightarrow> string"

record schema_config =
  max_secondary_indexes_per_collection :: nat

text \<open>The root path of the configuration only locates the log file.\<close>

definition schema_config_default :: schema_config where
  "schema_config_default = \<lparr>max_secondary_indexes_per_collection = 16\<rparr>"

section \<open>State transitions\<close>

definition validate_identifier :: "string \<Rightarrow> string \<Rightarrow> (schema_error, unit) result" where
  "validate_identifier v what =
    (if v = [] \<or> CHR ''/'' \<in> set v \<or> CHR 0x00 \<in> set v then Err (InvalidIdentifier what v) else Ok ())"

definition entry_collection :: "schema_state \<Rightarrow> string \<Rightarrow> collection_schema" where
  "entry_collection st coll =
    (case bt_get (ss_collections st) coll of
       Some c \<Rightarrow> c
     | None \<Rightarrow> \<lparr>cs_id = coll, cs_indexes = [], cs_version = 0\<rparr>)"

definition active_of :: "schema_state \<Rightarrow> string \<Rightarrow> (string, string) btree" where
  "active_of st coll = (case bt_get (ss_active st) coll of Some a \<Rightarrow> a | None \<Rightarrow> [])"

definition apply_entry_mut :: "log_entry \<Rightarrow> schema_state \<Rightarrow> schema_state" where
  "apply_entry_mut e st =
    (let coll = le_collection e; c = entry_collection st coll
     in (case le_op e of
           CreateIndexOp \<Rightarrow>
             st\<lparr>ss_collections := bt_insert coll
                   (c\<lparr>cs_indexes := cs_indexes c @ [\<lparr>ix_id = le_index_id e, ix_collection = coll,
                        ix_field = le_field e, ix_created_at = le_version e\<rparr>],
                      cs_version := le_version e\<rparr>) (ss_collections st),
                ss_active := bt_insert coll (bt_insert (le_field e) (le_index_id e) (active_of st coll)) (ss_active st)\<rparr>
         | DropIndexOp \<Rightarrow>
             st\<lparr>ss_collections := bt_insert coll
                   (c\<lparr>cs_indexes := filter (\<lambda>idx. ix_id idx \<noteq> le_index_id e) (cs_indexes c),
                      cs_version := le_version e\<rparr>) (ss_collections st),
                ss_active :=
                  (case bt_get (ss_active st) coll of
                     None \<Rightarrow> ss_active st
                   | Some active \<Rightarrow>
                       if bt_get active (le_field e) = Some (le_index_id e)
                       then bt_insert coll (bt_remove (le_field e) active) (ss_active st)
                       else ss_active st)\<rparr>)\<lparr>ss_version := le_version e\<rparr>)"

section \<open>The manager\<close>

text \<open>A failing call: the error, and how many bytes it wrote before when it is a write.\<close>

type_synonym fs_fault = "string \<times> nat"

datatype schema_task = Materialize index_definition "index_definition option" | DropRows string

record 's schema_world =
  sw_storage :: 's
  sw_log :: "bytes option"
  sw_faults :: "fs_fault option list"
  sw_state :: schema_state
  sw_version :: u64
  sw_ready :: "string set"
  sw_tasks :: "schema_task list"

type_synonym ('s, 'a) schema_act = "('s schema_world, schema_error, 'a) act"

definition sw_store :: "('s, storage_error, 'a) act \<Rightarrow> ('s, 'a) schema_act" where
  "sw_store m = (\<lambda>w. case m (sw_storage w) of
    (r, s) \<Rightarrow> (map_option (map_sum SchemaStorage id) r, w\<lparr>sw_storage := s\<rparr>))"

text \<open>A call on the file system.\<close>

definition fs_call :: "('s schema_world \<Rightarrow> 's schema_world) \<Rightarrow> ('s, unit) schema_act" where
  "fs_call f = (\<lambda>w.
    case sw_faults w of
      Some (e, _) # fs \<Rightarrow> (Some (Err (SchemaIo e)), w\<lparr>sw_faults := fs\<rparr>)
    | None # fs \<Rightarrow> (Some (Ok ()), f (w\<lparr>sw_faults := fs\<rparr>))
    | [] \<Rightarrow> (Some (Ok ()), f w))"

definition log_append :: "bytes \<Rightarrow> 's schema_world \<Rightarrow> 's schema_world" where
  "log_append bs w = w\<lparr>sw_log := Some ((case sw_log w of None \<Rightarrow> [] | Some c \<Rightarrow> c) @ bs)\<rparr>"

text \<open>\<open>write_all\<close> on the log: when it fails, a proper prefix of the bytes may be in the file.\<close>

definition log_write :: "bytes \<Rightarrow> ('s, unit) schema_act" where
  "log_write bs = (\<lambda>w.
    case sw_faults w of
      Some (e, n) # fs \<Rightarrow> (Some (Err (SchemaIo e)), log_append (take n (butlast bs)) (w\<lparr>sw_faults := fs\<rparr>))
    | None # fs \<Rightarrow> (Some (Ok ()), log_append bs (w\<lparr>sw_faults := fs\<rparr>))
    | [] \<Rightarrow> (Some (Ok ()), log_append bs w))"

text \<open>Whether \<open>str::trim\<close> leaves nothing: only Unicode white space, in UTF-8.\<close>

fun blank :: "nat list \<Rightarrow> bool" where
  "blank [] = True"
| "blank (a # r) =
    (if 9 \<le> a \<and> a \<le> 13 \<or> a = 32 then blank r
     else case r of
         [] \<Rightarrow> False
       | b # r' \<Rightarrow>
           if a = 0xC2 \<and> (b = 0x85 \<or> b = 0xA0) then blank r'
           else case r' of
               [] \<Rightarrow> False
             | c # r'' \<Rightarrow>
                 (a = 0xE1 \<and> b = 0x9A \<and> c = 0x80 \<or>
                  a = 0xE2 \<and> b = 0x80 \<and> (0x80 \<le> c \<and> c \<le> 0x8A \<or> c = 0xA8 \<or> c = 0xA9 \<or> c = 0xAF) \<or>
                  a = 0xE2 \<and> b = 0x81 \<and> c = 0x9F \<or>
                  a = 0xE3 \<and> b = 0x80 \<and> c = 0x80) \<and> blank r'')"

text \<open>\<open>BufRead::lines\<close>: the lines without their line feed and a carriage return before it.\<close>

definition strip_cr :: "bytes \<Rightarrow> bytes" where
  "strip_cr l = (if l \<noteq> [] \<and> last l = 13 then butlast l else l)"

fun lines_loop :: "bytes \<Rightarrow> bytes \<Rightarrow> bytes list" where
  "lines_loop acc [] = (if acc = [] then [] else [acc])"
| "lines_loop acc (b # bs) = (if b = 10 then strip_cr acc # lines_loop [] bs else lines_loop (acc @ [b]) bs)"

primrec parse_lines :: "'n schema_ext \<Rightarrow> bytes list \<Rightarrow> (schema_error, log_entry list) result" where
  "parse_lines X [] = Ok []"
| "parse_lines X (l # ls) =
    (case from_utf8 l of
       None \<Rightarrow> Err (SchemaIo ''stream did not contain valid UTF-8'')
     | Some line \<Rightarrow>
         if blank (map of_char line) then parse_lines X ls
         else (case de_entry X line of
             Err e \<Rightarrow> Err (SchemaSerde e)
           | Ok entry \<Rightarrow> (case parse_lines X ls of Err e \<Rightarrow> Err e | Ok es \<Rightarrow> Ok (entry # es))))"

definition read_log_entries :: "'n schema_ext \<Rightarrow> ('s, log_entry list) schema_act" where
  "read_log_entries X = (\<lambda>w.
    case sw_log w of
      None \<Rightarrow> (Some (Ok []), w)
    | Some content \<Rightarrow>
        act_bind (fs_call id) (\<lambda>_.
          act_of_result (map_sum id (sort_key le_version) (parse_lines X (lines_loop [] content)))) w)"

primrec apply_loop :: "log_entry list \<Rightarrow> ('s, unit) schema_act" where
  "apply_loop [] = act_ok ()"
| "apply_loop (e # es) = (\<lambda>w.
    if le_version e \<le> ss_version (sw_state w) then apply_loop es w
    else
      act_bind (act_of_result (validate_identifier (le_collection e) ''collection'')) (\<lambda>_.
      act_bind (act_of_result (validate_identifier (le_field e) ''field'')) (\<lambda>_.
      act_bind (act_of_result (validate_identifier (le_index_id e) ''index'')) (\<lambda>_ w.
      apply_loop es (w\<lparr>sw_state := apply_entry_mut e (sw_state w)\<rparr>)))) w)"

text \<open>The version is published only when every entry was applied.\<close>

definition apply_entries :: "log_entry list \<Rightarrow> ('s, unit) schema_act" where
  "apply_entries es = act_bind (apply_loop es) (\<lambda>_ w.
    (Some (Ok ()), w\<lparr>sw_version := ss_version (sw_state w)\<rparr>))"

definition append_log_entry :: "'n schema_ext \<Rightarrow> log_entry \<Rightarrow> ('s, unit) schema_act" where
  "append_log_entry X e =
    act_bind (fs_call id) (\<lambda>_.
    act_bind (fs_call (log_append [])) (\<lambda>_.
    act_bind (fs_call id) (\<lambda>_.
    act_bind (fs_call id) (\<lambda>_.
    act_bind (act_of_result (map_sum SchemaSerde id (ser_entry X e))) (\<lambda>line.
    act_bind (log_write (as_bytes line)) (\<lambda>_.
    act_bind (log_write [10]) (\<lambda>_.
    fs_call id)))))))"

definition persist_state_snapshot :: "'n schema_ext \<Rightarrow> 's engine \<Rightarrow> ('s, unit) schema_act" where
  "persist_state_snapshot X E = (\<lambda>w.
    act_bind (act_of_result (map_sum SchemaSerde id (ser_state X (sw_state w)))) (\<lambda>serialized.
    sw_store (e_put E CF_METADATA METADATA_STATE_KEY serialized)) w)"

definition replay_from_log :: "'n schema_ext \<Rightarrow> 's engine \<Rightarrow> ('s, unit) schema_act" where
  "replay_from_log X E = act_bind (read_log_entries X) (\<lambda>entries.
    if entries = [] then act_ok ()
    else act_bind (apply_entries entries) (\<lambda>_. persist_state_snapshot X E))"

definition restore_state :: "'n schema_ext \<Rightarrow> 's engine \<Rightarrow> ('s, unit) schema_act" where
  "restore_state X E =
    act_bind (sw_store (e_get E CF_METADATA METADATA_STATE_KEY)) (\<lambda>found.
    case found of
      Some serialized \<Rightarrow>
        act_bind (act_of_result (map_sum SchemaSerde id (de_state X serialized))) (\<lambda>restored w.
        (Some (Ok ()), w\<lparr>sw_version := ss_version restored, sw_state := restored\<rparr>))
    | None \<Rightarrow> replay_from_log X E)"

text \<open>\<open>DefaultSchemaManager::new\<close> on a storage and a log file, and on an empty one.\<close>

definition schema_new :: "'n schema_ext \<Rightarrow> 's engine \<Rightarrow> 's \<Rightarrow> bytes option \<Rightarrow>
    (schema_error, unit) result option \<times> 's schema_world" where
  "schema_new X E storage log = restore_state X E
    \<lparr>sw_storage = storage, sw_log = log, sw_faults = [], sw_state = schema_default, sw_version = 0,
     sw_ready = {}, sw_tasks = []\<rparr>"

definition schema_fresh :: "'s \<Rightarrow> 's schema_world" where
  "schema_fresh s = \<lparr>sw_storage = s, sw_log = None, sw_faults = [], sw_state = schema_default, sw_version = 0,
     sw_ready = {}, sw_tasks = []\<rparr>"

definition next_version :: "('s, u64) schema_act" where
  "next_version = (\<lambda>w. (Some (Ok (sw_version w + 1)), w\<lparr>sw_version := sw_version w + 1\<rparr>))"

definition find_index :: "schema_state \<Rightarrow> string \<Rightarrow> string \<Rightarrow> index_definition option" where
  "find_index st coll index =
    (case bt_get (ss_collections st) coll of
       None \<Rightarrow> None
     | Some c \<Rightarrow> find (\<lambda>idx. ix_id idx = index) (cs_indexes c))"

definition replacement_for :: "schema_state \<Rightarrow> string \<Rightarrow> string \<Rightarrow> index_definition option" where
  "replacement_for st coll field =
    (case bt_get (ss_active st) coll of
       None \<Rightarrow> None
     | Some active \<Rightarrow>
         (case bt_get active field of None \<Rightarrow> None | Some current_id \<Rightarrow> find_index st coll current_id))"

definition create_index ::
  "'n schema_ext \<Rightarrow> 's engine \<Rightarrow> schema_config \<Rightarrow> string \<Rightarrow> string \<Rightarrow> string \<Rightarrow> string \<Rightarrow> ('s, u64) schema_act" where
  "create_index X E cfg uuid timestamp coll field = (\<lambda>w.
    act_bind (act_of_result (validate_identifier coll ''collection'')) (\<lambda>_.
    act_bind (act_of_result (validate_identifier field ''field'')) (\<lambda>_.
    let replacement = replacement_for (sw_state w) coll field
    in if max_secondary_indexes_per_collection cfg \<le> length (active_of (sw_state w) coll) \<and> replacement = None
       then act_err (IndexQuotaExceeded coll (max_secondary_indexes_per_collection cfg))
       else
         act_bind next_version (\<lambda>version.
         act_bind (act_of_result (validate_identifier uuid ''index'')) (\<lambda>_.
         let entry = \<lparr>le_version = version, le_op = CreateIndexOp, le_collection = coll, le_field = field,
               le_index_id = uuid, le_timestamp = timestamp\<rparr>
         in act_bind (append_log_entry X entry) (\<lambda>_.
            act_bind (\<lambda>w.
              let st = apply_entry_mut entry (sw_state w);
                  st' = (if replacement = None
                         then st\<lparr>ss_active := bt_insert coll (bt_insert field uuid (active_of st coll)) (ss_active st)\<rparr>
                         else st)
              in (Some (Ok ()), w\<lparr>sw_state := st'\<rparr>)) (\<lambda>_.
            act_bind (persist_state_snapshot X E) (\<lambda>_ w.
            (Some (Ok version), w\<lparr>sw_tasks := sw_tasks w @
               [Materialize \<lparr>ix_id = uuid, ix_collection = coll, ix_field = field, ix_created_at = version\<rparr> replacement]\<rparr>)))))))) w)"

definition drop_index ::
  "'n schema_ext \<Rightarrow> 's engine \<Rightarrow> string \<Rightarrow> string \<Rightarrow> string \<Rightarrow> ('s, u64) schema_act" where
  "drop_index X E timestamp coll index = (\<lambda>w.
    act_bind (act_of_result (validate_identifier coll ''collection'')) (\<lambda>_.
    act_bind (act_of_result (validate_identifier index ''index'')) (\<lambda>_.
    case find_index (sw_state w) coll index of
      None \<Rightarrow> act_err (IndexNotFound coll index)
    | Some idx \<Rightarrow>
        act_bind next_version (\<lambda>version.
        let entry = \<lparr>le_version = version, le_op = DropIndexOp, le_collection = coll, le_field = ix_field idx,
              le_index_id = index, le_timestamp = timestamp\<rparr>
        in act_bind (append_log_entry X entry) (\<lambda>_.
           act_bind (\<lambda>w. (Some (Ok ()), w\<lparr>sw_state := apply_entry_mut entry (sw_state w)\<rparr>)) (\<lambda>_.
           act_bind (persist_state_snapshot X E) (\<lambda>_ w.
           (Some (Ok version), w\<lparr>sw_tasks := sw_tasks w @ [DropRows index]\<rparr>))))))) w)"

definition has_index :: "'s schema_world \<Rightarrow> string \<Rightarrow> string \<Rightarrow> bool" where
  "has_index w coll index =
    (case bt_get (ss_collections (sw_state w)) coll of
       None \<Rightarrow> False
     | Some c \<Rightarrow> list_ex (\<lambda>idx. ix_id idx = index) (cs_indexes c))"

definition current_version :: "'s schema_world \<Rightarrow> u64" where
  "current_version w = sw_version w"

definition collection_schema_of :: "'s schema_world \<Rightarrow> string \<Rightarrow> collection_schema option" where
  "collection_schema_of w coll = bt_get (ss_collections (sw_state w)) coll"

definition log_entries_since :: "'n schema_ext \<Rightarrow> u64 \<Rightarrow> ('s, log_entry list) schema_act" where
  "log_entries_since X version = act_bind (read_log_entries X) (\<lambda>entries.
    act_ok (filter (\<lambda>e. version < le_version e) entries))"

text \<open>
  The three attempts of \<open>converge_from_gossip\<close>; \<open>fetch\<close> is the provider, asked by
  attempt number since its answers may differ.  The delay between them is not modelled.
\<close>

primrec converge_attempts ::
  "'n schema_ext \<Rightarrow> 's engine \<Rightarrow> (nat \<Rightarrow> u64 \<Rightarrow> (schema_error, log_entry list) result) \<Rightarrow> u64 \<Rightarrow> nat \<Rightarrow>
    ('s, unit) schema_act" where
  "converge_attempts X E fetch remote_version 0 = act_ok ()"
| "converge_attempts X E fetch remote_version (Suc k) = (\<lambda>w.
    act_bind (act_of_result (fetch (2 - k) (sw_version w))) (\<lambda>missing.
    if missing \<noteq> [] then
      act_bind (apply_entries missing) (\<lambda>_.
      act_bind (persist_state_snapshot X E) (\<lambda>_ w.
      if remote_version \<le> sw_version w then (Some (Ok ()), w)
      else converge_attempts X E fetch remote_version k w))
    else converge_attempts X E fetch remote_version k) w)"

definition converge_from_gossip ::
  "'n schema_ext \<Rightarrow> 's engine \<Rightarrow> (nat \<Rightarrow> u64 \<Rightarrow> (schema_error, log_entry list) result) \<Rightarrow> u64 \<Rightarrow>
    ('s, unit) schema_act" where
  "converge_from_gossip X E fetch remote_version = (\<lambda>w.
    if remote_version \<le> sw_version w then (Some (Ok ()), w)
    else converge_attempts X E fetch remote_version 3 w)"

section \<open>The materialiser\<close>

definition schema_prefix_end :: "bytes \<Rightarrow> bytes" where
  "schema_prefix_end p = p @ [0xFF]"

definition split_object_id :: "bytes \<Rightarrow> string option" where
  "split_object_id object_key =
    (case splitn 2 (CHR ''/'') (from_utf8_lossy object_key) of
       _ # rest # _ \<Rightarrow> Some rest
     | _ \<Rightarrow> None)"

definition extract_field_value :: "'n schema_ext \<Rightarrow> bytes \<Rightarrow> string \<Rightarrow> string option" where
  "extract_field_value X v field =
    (case de_json X v of
       Some (JObject m) \<Rightarrow>
         (case bt_get m field of
            Some (JString s) \<Rightarrow> Some s
          | Some (JNumber n) \<Rightarrow> Some (show_number X n)
          | Some (JBool b) \<Rightarrow> Some (if b then ''true'' else ''false'')
          | Some JNull \<Rightarrow> Some ''null''
          | _ \<Rightarrow> None)
     | _ \<Rightarrow> None)"

definition encode_field_value_for_key :: "'n schema_ext \<Rightarrow> string \<Rightarrow> string" where
  "encode_field_value_for_key X v = b64_url X (as_bytes v)"

definition index_row :: "'n schema_ext \<Rightarrow> index_definition \<Rightarrow> scan_item \<Rightarrow> bytes option" where
  "index_row X def kv =
    (case split_object_id (fst kv) of
       None \<Rightarrow> None
     | Some object_id \<Rightarrow>
         (case extract_field_value X (snd kv) (ix_field def) of
            None \<Rightarrow> None
          | Some v \<Rightarrow> Some (as_bytes (ix_id def @ ''/'' @ encode_field_value_for_key X v @ ''/'' @ object_id))))"

text \<open>The loop over the scan, with the batch under construction; it is written at 1024 rows.\<close>

fun materialize_loop ::
  "'n schema_ext \<Rightarrow> 's engine \<Rightarrow> index_definition \<Rightarrow> write_batch \<Rightarrow> nat \<Rightarrow> scan_iter \<Rightarrow>
    ('s, storage_error, write_batch) act" where
  "materialize_loop X E def batch pending [] = act_ok batch"
| "materialize_loop X E def batch pending (Err e # items) = act_err e"
| "materialize_loop X E def batch pending (Ok kv # items) =
    (case index_row X def kv of
       None \<Rightarrow> materialize_loop X E def batch pending items
     | Some k \<Rightarrow>
         let batch = batch_put CF_INDEXES k [] batch
         in if 1024 \<le> pending + 1
            then act_bind (e_write_batch E batch) (\<lambda>_. materialize_loop X E def batch_new 0 items)
            else materialize_loop X E def batch (pending + 1) items)"

definition materialize :: "'n schema_ext \<Rightarrow> 's engine \<Rightarrow> index_definition \<Rightarrow> ('s, unit) schema_act" where
  "materialize X E def =
    act_bind (act_of_result (validate_identifier (ix_collection def) ''collection'')) (\<lambda>_.
    act_bind (act_of_result (validate_identifier (ix_id def) ''index'')) (\<lambda>_.
    act_bind (act_of_result (validate_identifier (ix_field def) ''field'')) (\<lambda>_.
    let p = as_bytes (ix_collection def @ ''/'')
    in act_bind (sw_store (e_scan E CF_DEFAULT p (schema_prefix_end p))) (\<lambda>iter.
       act_bind (sw_store (materialize_loop X E def batch_new 0 iter)) (\<lambda>batch.
       act_bind (if batch_is_empty batch then act_ok () else sw_store (e_write_batch E batch)) (\<lambda>_ w.
       (Some (Ok ()), w\<lparr>sw_ready := insert (ix_id def) (sw_ready w)\<rparr>)))))))"

primrec drop_batch :: "scan_iter \<Rightarrow> write_batch \<Rightarrow> (storage_error, write_batch) result" where
  "drop_batch [] b = Ok b"
| "drop_batch (item # items) b =
    (case item of Err e \<Rightarrow> Err e | Ok kv \<Rightarrow> drop_batch items (batch_delete CF_INDEXES (fst kv) b))"

definition drop_materialized :: "'s engine \<Rightarrow> string \<Rightarrow> ('s, unit) schema_act" where
  "drop_materialized E index =
    act_bind (act_of_result (validate_identifier index ''index'')) (\<lambda>_.
    let p = as_bytes (index @ ''/'')
    in act_bind (sw_store (e_scan E CF_INDEXES p (schema_prefix_end p))) (\<lambda>iter.
       act_bind (act_of_result (map_sum SchemaStorage id (drop_batch iter batch_new))) (\<lambda>batch.
       act_bind (sw_store (e_write_batch E batch)) (\<lambda>_ w.
       (Some (Ok ()), w\<lparr>sw_ready := sw_ready w - {index}\<rparr>)))))"

definition is_ready :: "'s schema_world \<Rightarrow> string \<Rightarrow> bool" where
  "is_ready w index \<longleftrightarrow> index \<in> sw_ready w"

definition query_index_for_field :: "'s schema_world \<Rightarrow> string \<Rightarrow> string \<Rightarrow> string option" where
  "query_index_for_field w coll field =
    (case bt_get (active_of (sw_state w) coll) field of
       None \<Rightarrow> None
     | Some index \<Rightarrow> if is_ready w index then Some index else None)"

text \<open>The background tasks of \<open>create\_index\<close> and \<open>drop\_index\<close>; their errors are only logged.\<close>

definition swap_replacement :: "index_definition \<Rightarrow> index_definition \<Rightarrow> schema_state \<Rightarrow> schema_state" where
  "swap_replacement def old st =
    (let st1 = (case bt_get (ss_active st) (ix_collection def) of
           None \<Rightarrow> st
         | Some active \<Rightarrow>
             st\<lparr>ss_active := bt_insert (ix_collection def) (bt_insert (ix_field def) (ix_id def) active) (ss_active st)\<rparr>)
     in case bt_get (ss_collections st1) (ix_collection def) of
          None \<Rightarrow> st1
        | Some c \<Rightarrow>
            st1\<lparr>ss_collections := bt_insert (ix_collection def)
              (c\<lparr>cs_indexes := filter (\<lambda>idx. ix_id idx \<noteq> ix_id old) (cs_indexes c)\<rparr>) (ss_collections st1)\<rparr>)"

definition run_schema_task :: "'n schema_ext \<Rightarrow> 's engine \<Rightarrow> schema_task \<Rightarrow> ('s, unit) schema_act" where
  "run_schema_task X E task =
    (case task of
       DropRows index \<Rightarrow> act_bind (act_try (drop_materialized E index)) (\<lambda>_. act_ok ())
     | Materialize def replacement \<Rightarrow>
         act_bind (act_try (materialize X E def)) (\<lambda>r.
         case (r, replacement) of
           (Ok _, Some old) \<Rightarrow>
             act_bind (\<lambda>w. (Some (Ok ()), w\<lparr>sw_state := swap_replacement def old (sw_state w)\<rparr>)) (\<lambda>_.
             act_bind (act_try (drop_materialized E (ix_id old))) (\<lambda>_.
             act_bind (act_try (persist_state_snapshot X E)) (\<lambda>_. act_ok ())))
         | _ \<Rightarrow> act_ok ()))"

end
