(* ===== verification/Schema_Index.thy ===== *)
theory Schema_Index
  imports Schema
begin

text \<open>
  The rows of a secondary index: what \<open>materialize\<close> writes, and that \<open>drop_materialized\<close>
  removes every row of the index, the ones written last and older ones.
\<close>

section \<open>Rows\<close>

definition index_rows :: "'n schema_ext \<Rightarrow> index_definition \<Rightarrow> kv_map \<Rightarrow> bytes list" where
  "index_rows X def m = (let p = as_bytes (ix_collection def @ ''/'')
    in List.map_filter (index_row X def) (scan_range p (schema_prefix_end p) m))"

definition put_rows :: "bytes list \<Rightarrow> batch_op list" where
  "put_rows ks = map (\<lambda>k. Put CF_INDEXES k []) ks"

lemma indexes_cf [simp]: "CF_INDEXES \<in> set cf_all" "CF_DEFAULT \<in> set cf_all"
  by (simp_all add: cf_all_def)

lemma append_range: "p \<le> p @ t" "p @ t < p @ u \<longleftrightarrow> t < u" for p t u :: bytes
  by (induction p) auto

lemma put_rows_append: "put_rows (ks @ ks') = put_rows ks @ put_rows ks'"
  by (simp add: put_rows_def)

lemma fold_put_rows:
  "fold apply_view (put_rows ks) v = v(CF_INDEXES := fold (\<lambda>k. bt_insert k []) ks (v CF_INDEXES))"
  by (induction ks arbitrary: v) (auto simp: put_rows_def)

lemma fold_insert_rows:
  "bt_sorted m \<Longrightarrow> bt_sorted (fold (\<lambda>k. bt_insert k []) ks m) \<and>
    bt_get (fold (\<lambda>k. bt_insert k []) ks m) k = (if k \<in> set ks then Some [] else bt_get m k)"
  by (induction ks arbitrary: m) (auto simp: wf_intros btree_simps)

lemma fold_delete_rows:
  "fold apply_view (map (Delete CF_INDEXES) ks) v = v(CF_INDEXES := filter (\<lambda>e. fst e \<notin> set ks) (v CF_INDEXES))"
  by (induction ks arbitrary: v) (auto simp: bt_remove_def intro!: filter_cong)

lemma drop_batch_run:
  "drop_batch (map Ok rows) b = Ok \<lparr>batch_ops = batch_ops b @ map (Delete CF_INDEXES) (map fst rows)\<rparr>"
  by (induction rows arbitrary: b) (auto simp: batch_delete_def)

lemma map_filter_Cons:
  "List.map_filter f (x # xs) = (case f x of None \<Rightarrow> List.map_filter f xs | Some y \<Rightarrow> y # List.map_filter f xs)"
  by (simp add: map_filter_simps)

context storage_engine
begin

lemma materialize_loop_run:
  assumes "inv s" "batch_ops batch = put_rows ks"
  shows "\<exists>s' ks'. materialize_loop X E def batch pending (map Ok items) s =
      (Some (Ok \<lparr>batch_ops = put_rows ks'\<rparr>), s') \<and> inv s' \<and>
    fold apply_view (put_rows ks') (view s') =
      fold apply_view (put_rows (ks @ List.map_filter (index_row X def) items)) (view s)"
  using assms
proof (induction items arbitrary: s batch ks pending)
  case Nil
  thus ?case by (auto simp: act_run map_filter_simps intro!: exI [of _ ks])
next
  case (Cons kv items)
  show ?case
  proof (cases "index_row X def kv")
    case None
    thus ?thesis using Cons by (simp add: map_filter_Cons)
  next
    case (Some k)
    let ?batch = "batch_put CF_INDEXES k [] batch"
    have b: "batch_ops ?batch = put_rows (ks @ [k])" using Cons.prems by (simp add: batch_put_def put_rows_def)
    show ?thesis
    proof (cases "1024 \<le> pending + 1")
      case True
      have "op_cf ` set (batch_ops ?batch) \<subseteq> set cf_all" using b by (auto simp: put_rows_def)
      note w = batch_run [OF Cons.prems(1) this]
      have "materialize_loop X E def batch pending (map Ok (kv # items)) s =
          materialize_loop X E def batch_new 0 (map Ok items) (after_batch E ?batch s)"
        using Some True w(1) by (simp add: act_bind_run Let_def)
      moreover obtain s' ks' where "materialize_loop X E def batch_new 0 (map Ok items) (after_batch E ?batch s) =
          (Some (Ok \<lparr>batch_ops = put_rows ks'\<rparr>), s')" "inv s'"
        "fold apply_view (put_rows ks') (view s') =
          fold apply_view (put_rows (List.map_filter (index_row X def) items)) (view (after_batch E ?batch s))"
        using Cons.IH [OF w(2), of batch_new "[]" 0] by (auto simp: batch_new_def put_rows_def)
      moreover have "ks @ List.map_filter (index_row X def) (kv # items) =
          (ks @ [k]) @ List.map_filter (index_row X def) items" using Some by (simp add: map_filter_Cons)
      ultimately show ?thesis by (simp only: w(3) b put_rows_append fold_append comp_apply) blast
    next
      case False
      thus ?thesis using Cons.IH [OF Cons.prems(1) b, of "pending + 1"] Some by (simp add: map_filter_Cons Let_def)
    qed
  qed
qed

lemma materialize_run:
  assumes "inv (sw_storage w)"
    and "validate_identifier (ix_collection def) ''collection'' = Ok ()"
    "validate_identifier (ix_id def) ''index'' = Ok ()" "validate_identifier (ix_field def) ''field'' = Ok ()"
  shows "\<exists>s. materialize X E def w = (Some (Ok ()), w\<lparr>sw_storage := s, sw_ready := insert (ix_id def) (sw_ready w)\<rparr>) \<and>
    inv s \<and> view s = fold apply_view (put_rows (index_rows X def (view (sw_storage w) CF_DEFAULT))) (view (sw_storage w))"
proof -
  let ?s = "sw_storage w" and ?p = "as_bytes (ix_collection def @ ''/'')"
  let ?items = "scan_range ?p (schema_prefix_end ?p) (view ?s CF_DEFAULT)"
  have scan: "e_scan E CF_DEFAULT ?p (schema_prefix_end ?p) ?s = (Some (Ok (map Ok ?items)), ?s)"
    using assms(1) append_range(1) [of ?p]
    by (intro scan_law) (auto simp: schema_prefix_end_def simp del: as_bytes_append)
  obtain s ks where loop: "materialize_loop X E def batch_new 0 (map Ok ?items) ?s =
      (Some (Ok \<lparr>batch_ops = put_rows ks\<rparr>), s)" "inv s"
    "fold apply_view (put_rows ks) (view s) = fold apply_view (put_rows (index_rows X def (view ?s CF_DEFAULT))) (view ?s)"
    using materialize_loop_run [OF assms(1), of batch_new "[]" X def 0 ?items]
    by (auto simp: batch_new_def put_rows_def index_rows_def Let_def)
  show ?thesis
  proof (cases "ks = []")
    case True
    thus ?thesis
      using assms(2-4) scan loop
      by (auto simp: materialize_def act_bind_result act_bind_def sw_store_def act_run Let_def batch_is_empty_def put_rows_def
          simp del: as_bytes_append intro!: exI [of _ s])
  next
    case False
    have "op_cf ` set (batch_ops \<lparr>batch_ops = put_rows ks\<rparr>) \<subseteq> set cf_all" by (auto simp: put_rows_def)
    from batch_run [OF loop(2) this] show ?thesis
      using assms(2-4) scan loop False
      by (auto simp: materialize_def act_bind_result act_bind_def sw_store_def act_run Let_def batch_is_empty_def put_rows_def
          simp del: as_bytes_append intro!: exI [of _ "after_batch E \<lparr>batch_ops = put_rows ks\<rparr> s"])
  qed
qed

lemma drop_run:
  assumes "inv (sw_storage w)" "validate_identifier index ''index'' = Ok ()"
  defines "p \<equiv> as_bytes (index @ ''/'')"
  shows "\<exists>s. drop_materialized E index w = (Some (Ok ()), w\<lparr>sw_storage := s, sw_ready := sw_ready w - {index}\<rparr>) \<and>
    inv s \<and> view s = (view (sw_storage w))(CF_INDEXES :=
      filter (\<lambda>e. \<not> (p \<le> fst e \<and> fst e < p @ [0xFF])) (view (sw_storage w) CF_INDEXES))"
proof -
  let ?s = "sw_storage w"
  let ?rows = "scan_range p (schema_prefix_end p) (view ?s CF_INDEXES)"
  let ?b = "\<lparr>batch_ops = map (Delete CF_INDEXES) (map fst ?rows)\<rparr>"
  have scan: "e_scan E CF_INDEXES p (schema_prefix_end p) ?s = (Some (Ok (map Ok ?rows)), ?s)"
    using assms(1) append_range(1) by (intro scan_law) (auto simp: schema_prefix_end_def)
  have "op_cf ` set (batch_ops ?b) \<subseteq> set cf_all" by auto
  note w = batch_run [OF assms(1) this]
  have "view (after_batch E ?b ?s) = (view ?s)(CF_INDEXES :=
      filter (\<lambda>e. \<not> (p \<le> fst e \<and> fst e < p @ [0xFF])) (view ?s CF_INDEXES))"
    unfolding w(3) write_batch.select_convs fold_delete_rows
    by (intro arg_cong [where f = "\<lambda>m. (view ?s)(CF_INDEXES := m)"] filter_cong)
      (force simp: scan_range_def schema_prefix_end_def)+
  thus ?thesis
    using assms(2) scan w(1,2) drop_batch_run [of ?rows batch_new]
    by (auto simp: drop_materialized_def act_bind_result act_bind_def sw_store_def act_run Let_def batch_new_def
        p_def [symmetric] simp del: as_bytes_append)
qed

end

text \<open>Base64 writes letters, digits and two signs, all of them ASCII.\<close>

definition b64_law :: "'n schema_ext \<Rightarrow> bool" where
  "b64_law X \<longleftrightarrow> (\<forall>bs. list_all (\<lambda>c. of_char c < (128 :: nat)) (b64_url X bs))"

lemma index_row_range:
  assumes "b64_law X" "index_row X def kv = Some k"
  shows "as_bytes (ix_id def @ ''/'') \<le> k \<and> k < as_bytes (ix_id def @ ''/'') @ [0xFF]"
proof -
  obtain v oid where k: "k = as_bytes (ix_id def @ ''/'') @ as_bytes (b64_url X (as_bytes v) @ ''/'' @ oid)"
    using assms(2) by (auto simp: index_row_def encode_field_value_for_key_def as_bytes_def split: option.splits)
  have "as_bytes (b64_url X (as_bytes v) @ ''/'' @ oid) < [0xFF]"
    using assms(1) by (cases "b64_url X (as_bytes v)")
      (auto simp: b64_law_def as_bytes_def word_less_nat_alt dest!: spec [of _ "as_bytes v"])
  thus ?thesis unfolding k by (simp only: append_range simp_thms)
qed

lemma bt_get_filter: "bt_get (filter (\<lambda>e. Q (fst e)) m) k = (if Q k then bt_get m k else None)"
  by (induction m) auto

lemma filter_inserted:
  assumes "bt_sorted m" "\<forall>k \<in> set ks. \<not> Q k"
  shows "filter (\<lambda>e. Q (fst e)) (fold (\<lambda>k. bt_insert k []) ks m) = filter (\<lambda>e. Q (fst e)) m"
proof (rule bt_ext)
  note rows = fold_insert_rows [OF assms(1), of ks]
  show "bt_sorted (filter (\<lambda>e. Q (fst e)) (fold (\<lambda>k. bt_insert k []) ks m))"
    using rows by (simp add: bt_sorted_filter)
  show "bt_get (filter (\<lambda>e. Q (fst e)) (fold (\<lambda>k. bt_insert k []) ks m)) k = bt_get (filter (\<lambda>e. Q (fst e)) m) k" for k
    using rows [of k] assms(2) by (auto simp: bt_get_filter)
qed (simp add: assms(1) bt_sorted_filter)

section \<open>Properties\<close>

text \<open>The keys of an index: the range \<open>drop_materialized\<close> scans.\<close>

definition in_index :: "string \<Rightarrow> bytes \<Rightarrow> bool" where
  "in_index index k \<longleftrightarrow> (let p = as_bytes (index @ ''/'') in p \<le> k \<and> k < schema_prefix_end p)"


definition row_serde :: "nat schema_ext" where
  "row_serde = \<lparr>ser_state = (\<lambda>st. Ok []), de_state = (\<lambda>bs. Ok schema_default), ser_entry = (\<lambda>e. Ok ''{}''),
     de_entry = (\<lambda>line. Err []), de_json = (\<lambda>bs. Some (JObject [(''f'', JNull)])),
     show_number = (\<lambda>n. []), b64_url = (\<lambda>bs. ''x'')\<rparr>"

text \<open>One object with the field, and a row of the index left from an object that is gone.\<close>

definition row_world :: "mem_engine schema_world" where
  "row_world = schema_fresh (after_put MemEngine CF_INDEXES (as_bytes ''u/x/p'') []
    (after_put MemEngine CF_DEFAULT (as_bytes ''c/o'') [0] mem_new))"

definition row_index :: index_definition where
  "row_index = \<lparr>ix_id = ''u'', ix_collection = ''c'', ix_field = ''f'', ix_created_at = 1\<rparr>"

lemma mem_view_new: "mem_view mem_new cf = []"
  by (auto simp: mem_view_def mem_new_def init_cf_map_def cf_all_def)

lemma row_view: "mem_inv (sw_storage row_world)"
  "mem_view (sw_storage row_world) = (\<lambda>cf. if cf = CF_DEFAULT then [(as_bytes ''c/o'', [0])]
    else if cf = CF_INDEXES then [(as_bytes ''u/x/p'', [])] else [])"
proof -
  have "CF_INDEXES \<noteq> CF_DEFAULT" by (simp add: CF_INDEXES_def CF_DEFAULT_def)
  thus "mem_inv (sw_storage row_world)"
    "mem_view (sw_storage row_world) = (\<lambda>cf. if cf = CF_DEFAULT then [(as_bytes ''c/o'', [0])]
      else if cf = CF_INDEXES then [(as_bytes ''u/x/p'', [])] else [])"
    using mem.put_run [OF mem_inv_new, of CF_DEFAULT "as_bytes ''c/o''" "[0]"]
      mem.put_run [of "after_put MemEngine CF_DEFAULT (as_bytes ''c/o'') [0] mem_new" CF_INDEXES "as_bytes ''u/x/p''" "[]"]
    by (auto simp: row_world_def schema_fresh_def fun_eq_iff mem_view_new)
qed

lemma row_rows: "index_rows row_serde row_index [(as_bytes ''c/o'', [0])] = [as_bytes ''u/x/o'']"
proof -
  have "from_utf8_lossy (as_bytes ''c/o'') = ''c/o''"
    by (intro from_utf8_lossy_valid utf8_valid_ascii) (simp add: as_bytes_def of_char_def)
  hence "index_row row_serde row_index (as_bytes ''c/o'', [0]) = Some (as_bytes ''u/x/o'')"
    by (simp add: row_serde_def row_index_def numeral_2_eq_2
        index_row_def split_object_id_def extract_field_value_def encode_field_value_for_key_def)
  thus ?thesis
    by (simp add: index_rows_def Let_def scan_range_def schema_prefix_end_def row_index_def map_filter_Cons
       map_filter_simps as_bytes_def [of "''c/o''"] as_bytes_def [of "''c/''"] of_char_def)
qed

lemma row_in_index: "in_index ''u'' (as_bytes ''u/x/p'')"
  by (simp add: in_index_def schema_prefix_end_def as_bytes_def of_char_def)


end
