(* ===== verification/Schema_Log.thy ===== *)
theory Schema_Log
  imports Schema_Index "HOL-Library.Sublist"
begin

text \<open>
  The schema log as the source of truth: the state a manager keeps in memory is the
  replay of its log but for the indexes its background tasks have removed, a restart from the log alone gives the
  replay, a node that is behind catches up with a peer's log, the quota on indexes holds as long as no
  background task runs, and a background swap can break it.
\<close>

section \<open>Reading the log back\<close>

text \<open>\<open>serde_json\<close> writes an entry as one line of JSON, an object, that it reads back.\<close>

definition entry_laws :: "'n schema_ext \<Rightarrow> bool" where
  "entry_laws X \<longleftrightarrow> (\<forall>e line. ser_entry X e = Ok line \<longrightarrow> de_entry X line = Ok e \<and>
    utf8_valid (as_bytes line) \<and> 10 \<notin> set (as_bytes line) \<and>
    line \<noteq> [] \<and> hd line = CHR ''{'' \<and> last line = CHR ''}'')"

definition entry_line :: "'n schema_ext \<Rightarrow> log_entry \<Rightarrow> bytes" where
  "entry_line X e = (case ser_entry X e of Ok line \<Rightarrow> as_bytes line @ [10] | Err _ \<Rightarrow> [])"

definition encode_log :: "'n schema_ext \<Rightarrow> log_entry list \<Rightarrow> bytes" where
  "encode_log X es = concat (map (entry_line X) es)"

definition writable :: "'n schema_ext \<Rightarrow> log_entry \<Rightarrow> bool" where
  "writable X e \<longleftrightarrow> (\<exists>line. ser_entry X e = Ok line)"

lemma lines_loop_line: "10 \<notin> set l \<Longrightarrow> lines_loop acc (l @ 10 # bs) = strip_cr (acc @ l) # lines_loop [] bs"
  by (induction l arbitrary: acc) auto

lemma parse_encode:
  assumes "entry_laws X" "list_all (writable X) es"
  shows "parse_lines X (lines_loop [] (encode_log X es)) = Ok es"
  using assms(2)
proof (induction es)
  case (Cons e es)
  obtain line where l: "ser_entry X e = Ok line" using Cons.prems by (auto simp: writable_def)
  have laws: "de_entry X line = Ok e" "utf8_valid (as_bytes line)" "10 \<notin> set (as_bytes line)"
    "line \<noteq> []" "hd line = CHR ''{''" "last line = CHR ''}''"
    using assms(1) l by (auto simp: entry_laws_def)
  have "strip_cr (as_bytes line) = as_bytes line"
    using laws(4,6) by (simp add: strip_cr_def as_bytes_def last_map)
  moreover have "\<not> blank (map of_char line)"
    using laws(4,5) by (cases line) (auto split: list.splits)
  ultimately show ?case
    using Cons laws l lines_loop_line [of "as_bytes line" "[]"]
    by (simp add: encode_log_def entry_line_def from_utf8_as_bytes)
qed (simp add: encode_log_def)

section \<open>Replay\<close>

definition replay :: "log_entry list \<Rightarrow> schema_state" where
  "replay es = fold apply_entry_mut es schema_default"

lemma replay_snoc: "replay (es @ [e]) = apply_entry_mut e (replay es)"
  by (simp add: replay_def)

lemma apply_version [simp]: "ss_version (apply_entry_mut e st) = le_version e"
  by (simp add: apply_entry_mut_def Let_def)

definition entry_ok :: "log_entry \<Rightarrow> bool" where
  "entry_ok e \<longleftrightarrow> validate_identifier (le_collection e) ''collection'' = Ok () \<and>
    validate_identifier (le_field e) ''field'' = Ok () \<and> validate_identifier (le_index_id e) ''index'' = Ok ()"

lemma apply_loop_run:
  assumes "sorted_wrt (<) (ss_version (sw_state w) # map le_version es)" "list_all entry_ok es"
  shows "apply_loop es w = (Some (Ok ()), w\<lparr>sw_state := fold apply_entry_mut es (sw_state w)\<rparr>)"
  using assms
proof (induction es arbitrary: w)
  case (Cons e es)
  have "\<not> le_version e \<le> ss_version (sw_state w)" using Cons.prems by auto
  thus ?case
    using Cons by (simp add: entry_ok_def act_simps act_bind_def act_of_result_def)
qed (simp add: act_ok_def)

lemma apply_entries_run:
  assumes "sorted_wrt (<) (ss_version (sw_state w) # map le_version es)" "list_all entry_ok es"
  shows "apply_entries es w = (Some (Ok ()), w\<lparr>sw_state := fold apply_entry_mut es (sw_state w),
    sw_version := ss_version (fold apply_entry_mut es (sw_state w))\<rparr>)"
  using apply_loop_run [OF assms] by (simp add: apply_entries_def act_bind_def)

lemma fold_version:
  "es \<noteq> [] \<Longrightarrow> ss_version (fold apply_entry_mut es st) = le_version (last es)"
  by (induction es rule: rev_induct) auto

section \<open>The live state is the replay of the log\<close>

text \<open>What both operations do once they have an entry: log, apply, persist, spawn.\<close>

definition record_entry ::
  "'n schema_ext \<Rightarrow> 's engine \<Rightarrow> log_entry \<Rightarrow> schema_task \<Rightarrow> ('s, u64) schema_act" where
  "record_entry X E e task =
    act_bind (append_log_entry X e) (\<lambda>_.
    act_bind (\<lambda>w. (Some (Ok ()), w\<lparr>sw_state := apply_entry_mut e (sw_state w)\<rparr>)) (\<lambda>_.
    act_bind (persist_state_snapshot X E) (\<lambda>_ w.
    (Some (Ok (le_version e)), w\<lparr>sw_tasks := sw_tasks w @ [task]\<rparr>))))"

lemma bt_insert_idem: "bt_insert k v (bt_insert k v m) = bt_insert k v m"
  by (induction m) auto

lemma bt_get_insert_same: "bt_get (bt_insert k v m) k = Some v"
  by (induction m) auto

text \<open>The activation \<open>create_index\<close> does itself repeats the one of \<open>apply_entry_mut\<close>.\<close>

lemma activation_redundant:
  assumes "le_op e = CreateIndexOp" "st' = apply_entry_mut e st"
  shows "st'\<lparr>ss_active := bt_insert (le_collection e)
      (bt_insert (le_field e) (le_index_id e) (active_of st' (le_collection e))) (ss_active st')\<rparr> = st'"
  using assms by (simp add: apply_entry_mut_def Let_def active_of_def bt_get_insert_same bt_insert_idem)

lemma create_index_eq:
  "create_index X E cfg uuid timestamp coll field w =
    act_bind (act_of_result (validate_identifier coll ''collection'')) (\<lambda>_.
    act_bind (act_of_result (validate_identifier field ''field'')) (\<lambda>_.
    let replacement = replacement_for (sw_state w) coll field
    in if max_secondary_indexes_per_collection cfg \<le> length (active_of (sw_state w) coll) \<and> replacement = None
       then act_err (IndexQuotaExceeded coll (max_secondary_indexes_per_collection cfg))
       else act_bind next_version (\<lambda>version.
         act_bind (act_of_result (validate_identifier uuid ''index'')) (\<lambda>_.
         record_entry X E \<lparr>le_version = version, le_op = CreateIndexOp, le_collection = coll, le_field = field,
             le_index_id = uuid, le_timestamp = timestamp\<rparr>
           (Materialize \<lparr>ix_id = uuid, ix_collection = coll, ix_field = field, ix_created_at = version\<rparr>
             replacement))))) w"
proof -
  have "(if replacement_for st coll field = None
         then (apply_entry_mut e s)\<lparr>ss_active := bt_insert coll (bt_insert field uuid
             (active_of (apply_entry_mut e s) coll)) (ss_active (apply_entry_mut e s))\<rparr>
         else apply_entry_mut e s) = apply_entry_mut e s"
    if "le_op e = CreateIndexOp" "le_collection e = coll" "le_field e = field" "le_index_id e = uuid"
    for e s st
    using that activation_redundant [of e "apply_entry_mut e s" s] by simp
  thus ?thesis by (simp add: create_index_def record_entry_def Let_def)
qed

lemma drop_index_eq:
  "drop_index X E timestamp coll index w =
    act_bind (act_of_result (validate_identifier coll ''collection'')) (\<lambda>_.
    act_bind (act_of_result (validate_identifier index ''index'')) (\<lambda>_.
    case find_index (sw_state w) coll index of
      None \<Rightarrow> act_err (IndexNotFound coll index)
    | Some idx \<Rightarrow> act_bind next_version (\<lambda>version.
        record_entry X E \<lparr>le_version = version, le_op = DropIndexOp, le_collection = coll,
          le_field = ix_field idx, le_index_id = index, le_timestamp = timestamp\<rparr> (DropRows index)))) w"
  unfolding drop_index_def record_entry_def Let_def log_entry.select_convs by (rule refl)

text \<open>
  The background swap that follows the replacement of an index removes the replaced definition from the state in
  memory, and the log has no entry for that.  \<open>trimmed D st r\<close>: the state \<open>st\<close> is \<open>r\<close> but for definitions whose ids are
  in \<open>D\<close>: it has the version of \<open>r\<close> and its collections, each with the indexes of \<open>r\<close> in their order, of which only
  such with an id in \<open>D\<close> are missing.  Which index of a field is active may differ too, unless \<open>D\<close> is empty.
\<close>

definition trimmed_collection :: "string set \<Rightarrow> collection_schema \<Rightarrow> collection_schema \<Rightarrow> bool" where
  "trimmed_collection D c c' \<longleftrightarrow> cs_id c = cs_id c' \<and> cs_version c = cs_version c' \<and>
    subseq (cs_indexes c) (cs_indexes c') \<and> (\<forall>idx \<in> set (cs_indexes c') - set (cs_indexes c). ix_id idx \<in> D)"

definition trimmed :: "string set \<Rightarrow> schema_state \<Rightarrow> schema_state \<Rightarrow> bool" where
  "trimmed D st r \<longleftrightarrow> (D = {} \<longrightarrow> st = r) \<and> ss_version st = ss_version r \<and>
    (\<forall>coll. rel_option (trimmed_collection D) (bt_get (ss_collections st) coll) (bt_get (ss_collections r) coll))"

lemma apply_collections:
  assumes "bt_sorted (ss_collections st)"
  shows "bt_sorted (ss_collections (apply_entry_mut e st))"
    "bt_get (ss_collections (apply_entry_mut e st)) coll =
      (if coll \<noteq> le_collection e then bt_get (ss_collections st) coll
       else let c = entry_collection st coll in Some (c\<lparr>cs_indexes :=
         (case le_op e of
            CreateIndexOp \<Rightarrow> cs_indexes c @ [\<lparr>ix_id = le_index_id e, ix_collection = coll, ix_field = le_field e,
              ix_created_at = le_version e\<rparr>]
          | DropIndexOp \<Rightarrow> filter (\<lambda>idx. ix_id idx \<noteq> le_index_id e) (cs_indexes c)),
         cs_version := le_version e\<rparr>))"
  using assms by (cases "le_op e"; auto simp: apply_entry_mut_def Let_def wf_intros btree_simps)+

lemma replay_sorted: "bt_sorted (ss_collections (replay es))"
  by (induction es rule: rev_induct)
    (simp_all add: replay_snoc apply_collections, simp add: replay_def schema_default_def)

lemma swap_collections:
  assumes "bt_sorted (ss_collections st)"
  shows "bt_sorted (ss_collections (swap_replacement def old st))"
    "bt_get (ss_collections (swap_replacement def old st)) coll =
      (if coll \<noteq> ix_collection def then bt_get (ss_collections st) coll
       else map_option (\<lambda>c. c\<lparr>cs_indexes := filter (\<lambda>idx. ix_id idx \<noteq> ix_id old) (cs_indexes c)\<rparr>)
         (bt_get (ss_collections st) coll))"
    "ss_version (swap_replacement def old st) = ss_version st"
  using assms by (auto simp: swap_replacement_def Let_def wf_intros btree_simps split: option.splits)

lemma trimmed_refl: "trimmed D st st"
  by (auto simp: trimmed_def trimmed_collection_def intro!: option.rel_refl)

lemma trimmed_mono:
  assumes "trimmed D st r" "st = r \<or> D' \<noteq> {}" "D \<subseteq> D'"
  shows "trimmed D' st r"
proof -
  have "trimmed_collection D c c' \<Longrightarrow> trimmed_collection D' c c'" for c c'
    using assms(3) by (auto simp: trimmed_collection_def)
  thus ?thesis using assms(1,2) option.rel_mono_strong unfolding trimmed_def by metis
qed

lemma trimmed_apply:
  assumes "trimmed D st r" "bt_sorted (ss_collections st)" "bt_sorted (ss_collections r)"
  shows "trimmed D (apply_entry_mut e st) (apply_entry_mut e r)"
proof -
  have rel: "rel_option (trimmed_collection D) (bt_get (ss_collections st) coll) (bt_get (ss_collections r) coll)" for coll
    using assms(1) by (simp add: trimmed_def)
  have "trimmed_collection D (entry_collection st coll) (entry_collection r coll)" for coll
    using rel [of coll] by (cases "bt_get (ss_collections st) coll")
      (auto simp: entry_collection_def option_rel_Some1 trimmed_collection_def)
  hence "rel_option (trimmed_collection D) (bt_get (ss_collections (apply_entry_mut e st)) coll)
      (bt_get (ss_collections (apply_entry_mut e r)) coll)" for coll
    using rel [of coll] assms(2,3)
    by (cases "le_op e") (auto simp: apply_collections Let_def trimmed_collection_def list_emb_append_mono subseq_filter)
  thus ?thesis using assms(1) by (auto simp: trimmed_def)
qed

lemma trimmed_swap:
  assumes "trimmed D st r" "bt_sorted (ss_collections st)"
  shows "trimmed (insert (ix_id old) D) (swap_replacement def old st) r"
proof -
  have "subseq (filter P xs) ys" if "subseq xs ys" for P and xs ys :: "index_definition list"
    using that subseq_filter_left [of P xs] subseq_order.order_trans by blast
  hence "trimmed_collection (insert (ix_id old) D) c c'"
    "trimmed_collection (insert (ix_id old) D) (c\<lparr>cs_indexes := filter (\<lambda>idx. ix_id idx \<noteq> ix_id old) (cs_indexes c)\<rparr>) c'"
    if "trimmed_collection D c c'" for c c'
    using that by (auto simp: trimmed_collection_def)
  hence "rel_option (trimmed_collection (insert (ix_id old) D))
      (bt_get (ss_collections (swap_replacement def old st)) coll) (bt_get (ss_collections r) coll)" for coll
    using assms unfolding trimmed_def
    by (cases "bt_get (ss_collections st) coll") (auto simp: swap_collections option_rel_Some1 dest!: spec [of _ coll])
  thus ?thesis using assms by (simp add: trimmed_def swap_collections)
qed

text \<open>The entries in the log, the state they explain, and the ids of the definitions background tasks have replaced.\<close>

definition log_is :: "'n schema_ext \<Rightarrow> string set \<Rightarrow> 's schema_world \<Rightarrow> log_entry list \<Rightarrow> bool" where
  "log_is X D w es \<longleftrightarrow> sw_faults w = [] \<and> list_all (writable X) es \<and> list_all entry_ok es \<and>
    (case sw_log w of None \<Rightarrow> es = [] | Some c \<Rightarrow> c = encode_log X es) \<and>
    trimmed D (sw_state w) (replay es) \<and> bt_sorted (ss_collections (sw_state w)) \<and> sorted_wrt (<) (0 # map le_version es @ [sw_version w + 1])"

lemma append_run:
  "sw_faults w = [] \<Longrightarrow> append_log_entry X e w =
    (case ser_entry X e of
       Err m \<Rightarrow> (Some (Err (SchemaSerde m)), log_append [] w)
     | Ok line \<Rightarrow> (Some (Ok ()), log_append (as_bytes line @ [10]) w))"
  by (auto simp: append_log_entry_def act_bind_def fs_call_def log_write_def act_simps log_append_def split: sum.splits)

lemma persist_frame: "\<exists>r s. persist_state_snapshot X E w = (r, w\<lparr>sw_storage := s\<rparr>)"
proof (cases "ser_state X (sw_state w)")
  case (Inl e)
  thus ?thesis
    by (intro exI [of _ "Some (Err (SchemaSerde e))"] exI [of _ "sw_storage w"])
      (simp add: persist_state_snapshot_def act_simps)
next
  case (Inr bs)
  thus ?thesis
    by (auto simp: persist_state_snapshot_def act_simps sw_store_def split: prod.splits)
qed

lemma record_entry_frame:
  assumes "sw_faults w = []"
  shows "\<exists>s ts. snd (record_entry X E e task w) =
    (case ser_entry X e of
       Err m \<Rightarrow> log_append [] w
     | Ok line \<Rightarrow> (log_append (as_bytes line @ [10]) w)\<lparr>sw_state := apply_entry_mut e (sw_state w),
         sw_storage := s, sw_tasks := ts\<rparr>)"
proof (cases "ser_entry X e")
  case (Inr line)
  let ?w = "(log_append (as_bytes line @ [10]) w)\<lparr>sw_state := apply_entry_mut e (sw_state w)\<rparr>"
  obtain r s where p: "persist_state_snapshot X E ?w = (r, ?w\<lparr>sw_storage := s\<rparr>)"
    using persist_frame [of X E ?w] by blast
  have "snd (record_entry X E e task w) = ?w\<lparr>sw_storage := s, sw_tasks :=
      (case r of Some (Ok _) \<Rightarrow> sw_tasks w @ [task] | _ \<Rightarrow> sw_tasks w)\<rparr>"
    using assms Inr p
    by (auto simp: record_entry_def append_run act_bind_def log_append_def split: option.splits sum.splits)
  thus ?thesis using Inr by auto
qed (use assms in \<open>simp add: record_entry_def append_run act_bind_def\<close>)

lemma encode_log_snoc: "ser_entry X e = Ok line \<Longrightarrow>
    encode_log X (es @ [e]) = encode_log X es @ as_bytes line @ [10]"
  by (simp add: encode_log_def entry_line_def)

lemma word_succ_less:
  fixes a b :: "'a::len word"
  assumes "unat b < 2 ^ LENGTH('a) - 1"
  shows "b < b + 1" "a < b \<Longrightarrow> a < b + 1"
  using assms by (auto simp: word_less_nat_alt unat_word_ariths less_diff_conv)

text \<open>A step of the manager: the log explains the new state, and grew by one entry or none.\<close>

definition advances ::
  "'n schema_ext \<Rightarrow> string set \<Rightarrow> 's schema_world \<Rightarrow> log_entry list \<Rightarrow> 's schema_world \<Rightarrow> bool" where
  "advances X D w es w' \<longleftrightarrow> (sw_version w' = sw_version w \<or> sw_version w' = sw_version w + 1) \<and>
    (\<exists>es'. log_is X D w' es' \<and> (es' = es \<or> (\<exists>e. es' = es @ [e] \<and> le_version e = sw_version w + 1)))"

lemma record_entry_logged:
  assumes "log_is X D w es" "entry_ok e" "le_version e = sw_version w + 1" "unat (sw_version w) < 2 ^ 64 - 2"
  shows "advances X D w es (snd (record_entry X E e task (w\<lparr>sw_version := sw_version w + 1\<rparr>)))"
proof -
  let ?v = "sw_version w + 1"
  have "unat ?v < 2 ^ LENGTH(64) - 1" using assms(4) by (simp add: unat_word_ariths)
  then have after: "?v < ?v + 1" "v < ?v \<Longrightarrow> v < ?v + 1" for v
    using word_succ_less by blast+
  have sorted: "sorted_wrt (<) (0 # map le_version es @ [?v + 1])"
    "sorted_wrt (<) (0 # map le_version (es @ [e]) @ [?v + 1])"
    using assms(1,3) after by (auto simp: log_is_def sorted_wrt_append)
  obtain s ts where w': "snd (record_entry X E e task (w\<lparr>sw_version := ?v\<rparr>)) =
    (case ser_entry X e of
       Err m \<Rightarrow> log_append [] (w\<lparr>sw_version := ?v\<rparr>)
     | Ok line \<Rightarrow> (log_append (as_bytes line @ [10]) (w\<lparr>sw_version := ?v\<rparr>))
         \<lparr>sw_state := apply_entry_mut e (sw_state w), sw_storage := s, sw_tasks := ts\<rparr>)"
    using record_entry_frame [of "w\<lparr>sw_version := ?v\<rparr>" X E e task] assms(1)
    by (auto simp: log_is_def cong: sum.case_cong)
  show ?thesis
  proof (cases "ser_entry X e")
    case (Inl m)
    thus ?thesis using assms(1) sorted(1) w' unfolding advances_def
      by (intro conjI exI [of _ es]) (auto simp: log_is_def log_append_def encode_log_def split: option.splits)
  next
    case (Inr line)
    thus ?thesis using assms(1-3) sorted(2) w' unfolding advances_def
      by (intro conjI exI [of _ "es @ [e]"])
        (auto simp: log_is_def log_append_def encode_log_snoc replay_snoc writable_def trimmed_apply replay_sorted
          apply_collections encode_log_def [of X "[]"] split: option.splits)
  qed
qed

text \<open>
  Runs of a manager: calls, whose UUID and timestamp are arguments, and the background tasks they have spawned,
  which run at any later moment and in any order, each call and each task as one step.
\<close>

datatype schema_call =
    CreateCall string string string string
  | DropCall string string string
  | RunTask nat

fun schema_exec :: "'n schema_ext \<Rightarrow> 's engine \<Rightarrow> schema_config \<Rightarrow> schema_call \<Rightarrow> 's schema_world \<Rightarrow> 's schema_world" where
  "schema_exec X E cfg (CreateCall uuid ts coll field) w = snd (create_index X E cfg uuid ts coll field w)"
| "schema_exec X E cfg (DropCall ts coll index) w = snd (drop_index X E ts coll index w)"
| "schema_exec X E cfg (RunTask i) w =
    (if i < length (sw_tasks w)
     then snd (run_schema_task X E (sw_tasks w ! i) (w\<lparr>sw_tasks := take i (sw_tasks w) @ drop (Suc i) (sw_tasks w)\<rparr>))
     else w)"

text \<open>The ids of the definitions that the tasks of a run replace.\<close>

fun replaced_by :: "schema_call \<Rightarrow> 's schema_world \<Rightarrow> string set" where
  "replaced_by (RunTask i) w =
    (if i < length (sw_tasks w)
     then (case sw_tasks w ! i of Materialize _ (Some old) \<Rightarrow> {ix_id old} | _ \<Rightarrow> {}) else {})"
| "replaced_by _ w = {}"

primrec replaced :: "'n schema_ext \<Rightarrow> 's engine \<Rightarrow> schema_config \<Rightarrow> schema_call list \<Rightarrow> 's schema_world \<Rightarrow> string set" where
  "replaced X E cfg [] w = {}"
| "replaced X E cfg (c # cs) w = replaced_by c w \<union> replaced X E cfg cs (schema_exec X E cfg c w)"

lemma replaced_append:
  "replaced X E cfg (cs @ cs') w = replaced X E cfg cs w \<union> replaced X E cfg cs' (fold (schema_exec X E cfg) cs w)"
  by (induction cs arbitrary: w) auto

text \<open>Every indexed field of a replayed state is a valid identifier.\<close>

definition fields_ok :: "schema_state \<Rightarrow> bool" where
  "fields_ok st \<longleftrightarrow> bt_sorted (ss_collections st) \<and> (\<forall>coll c idx. bt_get (ss_collections st) coll = Some c \<longrightarrow>
    idx \<in> set (cs_indexes c) \<longrightarrow> validate_identifier (ix_field idx) ''field'' = Ok ())"

lemma fields_ok_apply: "fields_ok st \<Longrightarrow> entry_ok e \<Longrightarrow> fields_ok (apply_entry_mut e st)"
  unfolding fields_ok_def apply_entry_mut_def Let_def entry_collection_def entry_ok_def
  by (cases "le_op e") (auto simp: wf_intros btree_simps split: option.splits if_splits)

lemma fields_ok_replay: "list_all entry_ok es \<Longrightarrow> fields_ok (replay es)"
  by (induction es rule: rev_induct)
    (simp_all add: replay_snoc fields_ok_apply, simp add: replay_def fields_ok_def schema_default_def)

lemma subseq_set: "subseq xs ys \<Longrightarrow> set xs \<subseteq> set ys"
  by (induction rule: list_emb.induct) auto

lemma fields_ok_trimmed:
  assumes "trimmed D st r" "fields_ok r" "bt_sorted (ss_collections st)"
  shows "fields_ok st"
proof -
  have "\<exists>c'. bt_get (ss_collections r) coll = Some c' \<and> set (cs_indexes c) \<subseteq> set (cs_indexes c')"
    if "bt_get (ss_collections st) coll = Some c" for coll c
    using assms(1) that subseq_set unfolding trimmed_def trimmed_collection_def
    by (metis (no_types, lifting) option_rel_Some1)
  thus ?thesis using assms(2,3) unfolding fields_ok_def by blast
qed

lemma find_index_field:
  "fields_ok st \<Longrightarrow> find_index st coll index = Some idx \<Longrightarrow> validate_identifier (ix_field idx) ''field'' = Ok ()"
  by (auto simp: fields_ok_def find_index_def find_Some_iff split: option.splits)

lemma next_version_run:
  "act_bind next_version f w = f (sw_version w + 1) (w\<lparr>sw_version := sw_version w + 1\<rparr>)"
  by (simp add: act_bind_def next_version_def)

lemma log_is_bump:
  assumes "log_is X D w es" "unat (sw_version w) < 2 ^ 64 - 2"
  shows "advances X D w es (w\<lparr>sw_version := sw_version w + 1\<rparr>)"
proof -
  have "unat (sw_version w + 1) < 2 ^ LENGTH(64) - 1" using assms(2) by (simp add: unat_word_ariths)
  hence "log_is X D (w\<lparr>sw_version := sw_version w + 1\<rparr>) es"
    using assms(1) word_succ_less [of "sw_version w + 1"]
    by (auto simp: log_is_def sorted_wrt_append)
  thus ?thesis by (auto simp: advances_def)
qed

lemma advances_refl: "log_is X D w es \<Longrightarrow> advances X D w es w"
  by (auto simp: advances_def)

text \<open>A task touches the storage and the ready indexes, and its swap the state; nothing else.\<close>

definition same_but_rows :: "'s schema_world \<Rightarrow> 's schema_world \<Rightarrow> bool" where
  "same_but_rows v w \<longleftrightarrow> sw_log w = sw_log v \<and> sw_faults w = sw_faults v \<and> sw_state w = sw_state v \<and>
    sw_version w = sw_version v \<and> sw_tasks w = sw_tasks v"

lemma same_but_rows_refl [simp]: "same_but_rows w w"
  by (simp add: same_but_rows_def)

lemma rows_keep:
  "act_keeps (same_but_rows v) (sw_store m)"
  "act_keeps (same_but_rows v) (\<lambda>w. (r, w\<lparr>sw_ready := f w\<rparr>))"
  by (auto simp: act_keeps_def sw_store_def same_but_rows_def split: prod.splits)

lemma task_keeps:
  "act_keeps (same_but_rows v) (materialize X E def)" "act_keeps (same_but_rows v) (drop_materialized E index)"
  "act_keeps (same_but_rows v) (persist_state_snapshot X E)"
proof -
  show "act_keeps (same_but_rows v) (materialize X E def)" "act_keeps (same_but_rows v) (drop_materialized E index)"
    unfolding materialize_def drop_materialized_def Let_def by (auto intro!: act_keeps_bind rows_keep)
  have "same_but_rows v (snd (persist_state_snapshot X E w))" if "same_but_rows v w" for w
    using that persist_frame [of X E w] by (auto simp: same_but_rows_def)
  thus "act_keeps (same_but_rows v) (persist_state_snapshot X E)" by (simp add: act_keeps_def)
qed

lemma run_task_state:
  fixes w :: "'s schema_world"
  shows "same_but_rows w (snd (run_schema_task X E task w)) \<or>
    (\<exists>def old. task = Materialize def (Some old) \<and>
      same_but_rows (w\<lparr>sw_state := swap_replacement def old (sw_state w)\<rparr>) (snd (run_schema_task X E task w)))"
proof (cases "\<exists>def old. task = Materialize def (Some old)")
  case False
  hence "act_keeps (same_but_rows w) (run_schema_task X E task)"
    unfolding run_schema_task_def
    by (cases task) (auto intro!: act_keeps_bind simp: task_keeps split: sum.splits option.splits)
  thus ?thesis by (simp add: act_keeps_def same_but_rows_def)
next
  case True
  then obtain def old where task: "task = Materialize def (Some old)" by blast
  obtain r w1 where m: "materialize X E def w = (r, w1)" by fastforce
  have w1: "same_but_rows w w1"
    using task_keeps(1) [of w X E def] m by (force simp: act_keeps_def same_but_rows_def)
  let ?w2 = "w1\<lparr>sw_state := swap_replacement def old (sw_state w1)\<rparr>"
  let ?rest = "act_bind (act_try (drop_materialized E (ix_id old))) (\<lambda>_.
    act_bind (act_try (persist_state_snapshot X E)) (\<lambda>_. act_ok ())) :: ('s, unit) schema_act"
  have "act_keeps (same_but_rows ?w2) ?rest"
    by (intro act_keeps_bind) (simp_all add: task_keeps)
  hence "same_but_rows ?w2 (snd (?rest ?w2))" using same_but_rows_refl unfolding act_keeps_def by blast
  moreover have "snd (run_schema_task X E task w) = (if r = Some (Ok ()) then snd (?rest ?w2) else w1)"
    by (cases r; cases "the r") (simp_all add: run_schema_task_def task act_bind_def [of "act_try (materialize X E def)"]
        act_try_def [of "materialize X E def"] m act_bind_run act_run)
  ultimately show ?thesis using task w1 by (auto simp: same_but_rows_def)
qed

lemma schema_exec_advances:
  assumes "log_is X D w es" "unat (sw_version w) < 2 ^ 64 - 2"
  shows "advances X (D \<union> replaced_by c w) w es (schema_exec X E cfg c w)"
proof (cases c)
  case (CreateCall uuid ts coll field)
  show ?thesis
    using CreateCall advances_refl [OF assms(1)] log_is_bump [OF assms]
      record_entry_logged [OF assms(1) _ _ assms(2)]
    by (auto simp: create_index_eq act_bind_result next_version_run entry_ok_def Let_def act_run split: sum.splits)
next
  case (DropCall ts coll index)
  have "fields_ok (sw_state w)"
    using assms(1) fields_ok_replay fields_ok_trimmed by (auto simp: log_is_def)
  thus ?thesis
    using DropCall advances_refl [OF assms(1)] record_entry_logged [OF assms(1) _ _ assms(2)]
    by (auto simp: drop_index_eq act_bind_result next_version_run entry_ok_def act_run find_index_field
        split: sum.splits option.splits)
next
  case (RunTask i)
  show ?thesis
  proof (cases "i < length (sw_tasks w)")
    case True
    let ?w = "w\<lparr>sw_tasks := take i (sw_tasks w) @ drop (Suc i) (sw_tasks w)\<rparr>" and ?t = "sw_tasks w ! i"
    have w': "schema_exec X E cfg c w = snd (run_schema_task X E ?t ?w)" using RunTask True by simp
    from run_task_state [of ?w X E ?t] show ?thesis
    proof (elim disjE exE conjE)
      assume "same_but_rows ?w (snd (run_schema_task X E ?t ?w))"
      thus ?thesis
        using assms(1) w' trimmed_mono [of D "sw_state w" "replay es" "D \<union> replaced_by c w"]
        by (auto simp: log_is_def advances_def same_but_rows_def trimmed_def [of D])
    next
      fix def old
      assume t: "?t = Materialize def (Some old)"
        and "same_but_rows (?w\<lparr>sw_state := swap_replacement def old (sw_state ?w)\<rparr>) (snd (run_schema_task X E ?t ?w))"
      moreover have "D \<union> replaced_by c w = insert (ix_id old) D" using RunTask True t by simp
      ultimately show ?thesis
        using assms(1) w' by (auto simp: log_is_def advances_def same_but_rows_def trimmed_swap swap_collections)
    qed
  qed (use RunTask advances_refl [OF assms(1)] in simp)
qed

lemma schema_run_logged:
  assumes "log_is X D w es" "unat (sw_version w) + length calls < 2 ^ 64 - 1"
  shows "\<exists>es. log_is X (D \<union> replaced X E cfg calls w) (fold (schema_exec X E cfg) calls w) es"
  using assms
proof (induction calls arbitrary: D w es)
  case (Cons c calls)
  let ?w = "schema_exec X E cfg c w"
  have "advances X (D \<union> replaced_by c w) w es ?w" using Cons.prems by (intro schema_exec_advances) auto
  then obtain es' where es': "log_is X (D \<union> replaced_by c w) ?w es'"
    and v: "sw_version ?w = sw_version w \<or> sw_version ?w = sw_version w + 1"
    by (auto simp: advances_def)
  from v have "unat (sw_version ?w) \<le> Suc (unat (sw_version w))"
    using Cons.prems(2) by (auto simp: unat_word_ariths)
  thus ?case using Cons.IH [OF es'] Cons.prems(2) by (simp add: Un_assoc)
qed auto

lemma log_is_read:
  assumes "entry_laws X" "log_is X D w es"
  shows "read_log_entries X w = (Some (Ok es), w)"
proof -
  have "sorted (map le_version es)"
    using assms(2) by (auto simp: log_is_def sorted_wrt_append intro: strict_sorted_imp_sorted)
  hence "sort_key le_version es = es" by (rule sort_key_id_if_sorted)
  thus ?thesis
    using assms parse_encode [OF assms(1), of es]
    by (auto simp: read_log_entries_def log_is_def act_bind_def fs_call_def act_run split: option.splits)
qed

lemma log_is_fresh: "log_is X {} (schema_fresh s) []"
  by (simp add: log_is_def schema_fresh_def replay_def trimmed_refl schema_default_def)

text \<open>\<open>serde_json\<close> reads a serialised state back.\<close>

definition state_law :: "'n schema_ext \<Rightarrow> bool" where
  "state_law X \<longleftrightarrow> (\<forall>st bs. ser_state X st = Ok bs \<longrightarrow> de_state X bs = Ok st)"

lemma metadata_cf [simp]: "CF_METADATA \<in> set cf_all"
  by (simp add: cf_all_def)

lemma append_storage: "act_keeps (\<lambda>w. sw_storage w = s) (append_log_entry X e)"
  unfolding append_log_entry_def
  by (intro act_keeps_bind) (auto simp: act_keeps_def fs_call_def log_write_def log_append_def act_run split: list.splits option.splits)

context storage_engine
begin

lemma persist_run:
  assumes "inv (sw_storage w)" "ser_state X (sw_state w) = Ok bs"
  shows "persist_state_snapshot X E w =
    (Some (Ok ()), w\<lparr>sw_storage := after_put E CF_METADATA METADATA_STATE_KEY bs (sw_storage w)\<rparr>)"
  using assms by (simp add: persist_state_snapshot_def act_simps sw_store_def put_run)

lemma persist_Ok:
  assumes "persist_state_snapshot X E w = (Some (Ok ()), w')" "inv (sw_storage w)"
  shows "inv (sw_storage w') \<and> sw_state w' = sw_state w \<and>
    (\<exists>bs. ser_state X (sw_state w) = Ok bs \<and> bt_get (view (sw_storage w') CF_METADATA) METADATA_STATE_KEY = Some bs)"
proof -
  obtain bs where bs: "ser_state X (sw_state w) = Ok bs"
    using assms(1) by (cases "ser_state X (sw_state w)") (auto simp: persist_state_snapshot_def act_simps)
  thus ?thesis
    using assms persist_run [OF assms(2) bs] view_sorted [OF assms(2)] by (auto simp: put_run btree_simps)
qed

lemma restart_snapshot:
  assumes "state_law X" "inv t" "ser_state X st = Ok bs"
    and "bt_get (view t CF_METADATA) METADATA_STATE_KEY = Some bs"
  shows "\<exists>w. schema_new X E t log = (Some (Ok ()), w) \<and> sw_state w = st \<and> sw_version w = ss_version st"
  using assms
  by (auto simp: schema_new_def restore_state_def sw_store_def get_law act_bind_def act_run state_law_def)

lemma restart_replays:
  assumes "entry_laws X" "log_is X D (w :: 's schema_world) es"
    and "inv t" "bt_get (view t CF_METADATA) METADATA_STATE_KEY = None"
  shows "sw_state (snd (schema_new X E t (sw_log w))) = replay es"
proof -
  let ?w = "\<lparr>sw_storage = t, sw_log = sw_log w, sw_faults = [], sw_state = schema_default,
    sw_version = 0, sw_ready = {}, sw_tasks = []\<rparr>"
  let ?w' = "?w\<lparr>sw_state := replay es, sw_version := ss_version (replay es)\<rparr>"
  have read: "read_log_entries X ?w = (Some (Ok es), ?w)"
    using log_is_read [OF assms(1,2)] assms(2)
    by (auto simp: read_log_entries_def log_is_def act_bind_def fs_call_def act_run split: option.splits)
  have applied: "apply_entries es ?w = (Some (Ok ()), ?w')"
    using assms(2) by (subst apply_entries_run) (auto simp: log_is_def replay_def schema_default_def sorted_wrt_append)
  obtain r s where p: "persist_state_snapshot X E ?w' = (r, ?w'\<lparr>sw_storage := s\<rparr>)"
    using persist_frame [of X E ?w'] by blast
  have "sw_store (e_get E CF_METADATA METADATA_STATE_KEY) ?w = (Some (Ok None), ?w)"
    using assms(3,4) by (simp add: sw_store_def get_law)
  hence "schema_new X E t (sw_log w) = replay_from_log X E ?w"
    by (simp add: schema_new_def restore_state_def act_bind_run)
  also have "sw_state (snd \<dots>) = replay es"
    using read applied p
    by (cases "es = []") (auto simp: replay_from_log_def act_bind_run act_run replay_def)
  finally show ?thesis .
qed

lemma record_entry_restarts:
  assumes "state_law X" "inv (sw_storage w)" "record_entry X E e task w = (Some (Ok v), w')"
  shows "\<exists>w''. schema_new X E (sw_storage w') log = (Some (Ok ()), w'') \<and>
    sw_state w'' = sw_state w' \<and> sw_version w'' = v"
proof -
  obtain w1 w2 where 1: "append_log_entry X e w = (Some (Ok ()), w1)"
    and 2: "persist_state_snapshot X E (w1\<lparr>sw_state := apply_entry_mut e (sw_state w1)\<rparr>) = (Some (Ok ()), w2)"
    and 3: "v = le_version e" "w' = w2\<lparr>sw_tasks := sw_tasks w2 @ [task]\<rparr>"
    using assms(3) by (auto simp: record_entry_def act_bind_Ok_iff)
  have "sw_storage w1 = sw_storage w"
    using append_storage [of "sw_storage w" X e, unfolded act_keeps_def, rule_format, of w] 1 by simp
  hence "inv (sw_storage w2)" "sw_state w2 = apply_entry_mut e (sw_state w1)"
    "\<exists>bs. ser_state X (sw_state w2) = Ok bs \<and>
      bt_get (view (sw_storage w2) CF_METADATA) METADATA_STATE_KEY = Some bs"
    using persist_Ok [OF 2] assms(2) by auto
  thus ?thesis using restart_snapshot [OF assms(1)] 3 by fastforce
qed

lemma create_restarts:
  assumes "state_law X" "inv (sw_storage w)" "create_index X E cfg uuid ts coll field w = (Some (Ok v), w')"
  shows "\<exists>w''. schema_new X E (sw_storage w') log = (Some (Ok ()), w'') \<and> sw_state w'' = sw_state w' \<and> sw_version w'' = v"
proof -
  let ?v = "sw_version w + 1"
  have "\<exists>e task. record_entry X E e task (w\<lparr>sw_version := ?v\<rparr>) = (Some (Ok v), w')"
    using assms(3)
    by (auto simp: create_index_eq act_bind_result next_version_run act_run Let_def split: sum.splits if_splits)
  thus ?thesis using record_entry_restarts [OF assms(1), of "w\<lparr>sw_version := ?v\<rparr>"] assms(2) by fastforce
qed

lemma drop_restarts:
  assumes "state_law X" "inv (sw_storage w)" "drop_index X E ts coll index w = (Some (Ok v), w')"
  shows "\<exists>w''. schema_new X E (sw_storage w') log = (Some (Ok ()), w'') \<and> sw_state w'' = sw_state w' \<and> sw_version w'' = v"
proof -
  let ?v = "sw_version w + 1"
  have "\<exists>e task. record_entry X E e task (w\<lparr>sw_version := ?v\<rparr>) = (Some (Ok v), w')"
    using assms(3)
    by (auto simp: drop_index_eq act_bind_result next_version_run act_run split: sum.splits option.splits)
  thus ?thesis using record_entry_restarts [OF assms(1), of "w\<lparr>sw_version := ?v\<rparr>"] assms(2) by fastforce
qed

end

section \<open>Followers\<close>

text \<open>
  A follower that has seen a prefix of the leader's log.  The provider answers with the
  leader's \<open>log_entries_since\<close>.
\<close>

definition provider :: "'n schema_ext \<Rightarrow> 's schema_world \<Rightarrow> nat \<Rightarrow> u64 \<Rightarrow> (schema_error, log_entry list) result" where
  "provider X leader = (\<lambda>_ since. case fst (log_entries_since X since leader) of
     Some r \<Rightarrow> r
   | None \<Rightarrow> Err (SchemaIo ''panic''))"

definition follows :: "log_entry list \<Rightarrow> 's schema_world \<Rightarrow> bool" where
  "follows es w \<longleftrightarrow> sw_state w = replay (filter (\<lambda>e. le_version e \<le> sw_version w) es) \<and>
    ss_version (sw_state w) = sw_version w"

lemma provider_run:
  "entry_laws X \<Longrightarrow> log_is X D leader es \<Longrightarrow> provider X leader k since = Ok (filter (\<lambda>e. since < le_version e) es)"
  by (simp add: provider_def log_entries_since_def act_bind_run log_is_read act_run)

lemma split_at_version:
  fixes v :: u64
  assumes "sorted_wrt (<) (map le_version es)"
  shows "filter (\<lambda>e. le_version e \<le> v) es @ filter (\<lambda>e. v < le_version e) es = es"
  using assms
proof (induction es)
  case (Cons e es)
  show ?case
  proof (cases "le_version e \<le> v")
    case False
    hence "\<forall>x \<in> set es. v < le_version x" using Cons.prems by fastforce
    hence "filter (\<lambda>e. le_version e \<le> v) es = []" "filter (\<lambda>e. v < le_version e) es = es"
      by (auto simp: filter_empty_conv)
    thus ?thesis using False by simp
  qed (use Cons in auto)
qed simp

lemma sorted_last_le:
  fixes f :: "'a \<Rightarrow> 'b::linorder"
  assumes "sorted_wrt (<) (map f xs)" "xs \<noteq> []"
  shows "\<forall>x \<in> set xs. f x \<le> f (last xs)"
  using assms by (induction xs) (auto intro: order.strict_implies_order)

lemma word_less_succ: "a < b + 1 \<Longrightarrow> a \<le> b" for a b :: "'a::len word"
  by (simp add: word_less_nat_alt word_le_nat_alt unat_word_ariths)
    (meson Suc_leI le_trans mod_less_eq_dividend not_less_eq_eq)

lemma replay_version: "ss_version (replay es) = (if es = [] then 0 else le_version (last es))"
  by (simp add: replay_def fold_version schema_default_def)

lemma converge_idle:
  "(\<And>k. fetch k (sw_version w) = Ok []) \<Longrightarrow> converge_attempts X E fetch v n w = (Some (Ok ()), w)"
  by (induction n) (simp_all add: act_run act_bind_result)

lemma follows_caught_up:
  assumes "follows es w" "log_is X D leader es" "filter (\<lambda>e. sw_version w < le_version e) es = []"
  shows "sw_state w = replay es"
  using assms split_at_version [of es "sw_version w"]
  by (simp add: follows_def log_is_def sorted_wrt_append)

lemma follows_extend:
  assumes "follows es w" "log_is X D leader es" "le_version e = sw_version leader + 1"
  shows "follows (es @ [e]) w"
proof -
  let ?seen = "filter (\<lambda>e. le_version e \<le> sw_version w) es"
  have "sw_version w < sw_version leader + 1"
  proof (cases "?seen = []")
    case True
    thus ?thesis using assms(1,2) by (auto simp: follows_def log_is_def replay_version)
  next
    case False
    hence "last ?seen \<in> set es" using last_in_set by fastforce
    thus ?thesis using assms(1,2) False
      by (auto simp: follows_def log_is_def replay_version sorted_wrt_append)
  qed
  hence "\<not> sw_version leader + 1 \<le> sw_version w" by simp
  thus ?thesis using assms by (auto simp: follows_def)
qed

context storage_engine
begin

lemma converge_run:
  assumes "entry_laws X" "log_is X D (leader :: 'l schema_world) es" "follows es w" "inv (sw_storage w)"
    and ser: "\<And>st. \<exists>bs. ser_state X st = Ok bs"
  shows "\<exists>w'. converge_from_gossip X E (provider X leader) (sw_version leader) w = (Some (Ok ()), w') \<and>
    follows es w' \<and> sw_state w' = replay es \<and> inv (sw_storage w')"
proof -
  let ?new = "filter (\<lambda>e. sw_version w < le_version e) es" and ?P = "provider X leader"
  note fetch = provider_run [OF assms(1,2)]
  have es: "sorted_wrt (<) (map le_version es)" "\<forall>e \<in> set es. le_version e < sw_version leader + 1"
    using assms(2) by (auto simp: log_is_def sorted_wrt_append)
  show ?thesis
  proof (cases "?new = []")
    case True
    thus ?thesis
      using converge_idle [of ?P w X E "sw_version leader" 3] assms(3,4) follows_caught_up [OF assms(3,2)]
      by (auto simp: converge_from_gossip_def fetch)
  next
    case False
    obtain bs where bs: "ser_state X (replay es) = Ok bs" using ser by blast
    let ?w = "w\<lparr>sw_state := replay es, sw_version := le_version (last es)\<rparr>"
    let ?w' = "?w\<lparr>sw_storage := after_put E CF_METADATA METADATA_STATE_KEY bs (sw_storage w)\<rparr>"
    have "fold apply_entry_mut ?new (sw_state w) = replay es"
      using arg_cong [OF split_at_version [OF es(1), of "sw_version w"], of replay] assms(3)
      by (simp add: follows_def replay_def)
    moreover have "sorted_wrt (<) (ss_version (sw_state w) # map le_version ?new)"
      using assms(3) es(1) by (auto simp: follows_def sorted_wrt_map intro: sorted_wrt_filter)
    moreover have "list_all entry_ok ?new" using assms(2) by (auto simp: log_is_def list_all_iff)
    moreover have ne: "es \<noteq> []" using False by auto
    ultimately have 1: "apply_entries ?new w = (Some (Ok ()), ?w)"
      using apply_entries_run [of w ?new] by (simp add: replay_version)
    have 2: "persist_state_snapshot X E ?w = (Some (Ok ()), ?w')"
      using persist_run [of ?w X bs] assms(4) bs by simp
    have le: "\<forall>e \<in> set es. le_version e \<le> le_version (last es)"
      using es(1) False by (intro sorted_last_le) auto
    hence new: "filter (\<lambda>e. le_version (last es) < le_version e) es = []"
      "filter (\<lambda>e. le_version e \<le> le_version (last es)) es = es"
      by (auto simp: filter_empty_conv)
    have behind: "\<not> sw_version leader \<le> sw_version w"
      using False es(2) word_less_succ by (fastforce simp: filter_empty_conv)
    have "converge_attempts X E ?P (sw_version leader) 2 ?w' = (Some (Ok ()), ?w')"
      using new by (intro converge_idle) (simp add: fetch)
    hence "converge_from_gossip X E ?P (sw_version leader) w = (Some (Ok ()), ?w')"
      using behind 1 2 False
      by (simp add: converge_from_gossip_def fetch act_bind_result act_bind_run numeral_3_eq_3 numeral_2_eq_2)
    thus ?thesis
      using new ne assms(2,4) by (auto simp: follows_def replay_version put_run log_is_def)
  qed
qed

end

text \<open>
  A leader that changes its schema and runs its background tasks, and a follower that converges from time to time.
\<close>

datatype schedule = Lead schema_call | Sync

fun sched_step :: "'n schema_ext \<Rightarrow> schema_config \<Rightarrow> schedule \<Rightarrow>
    mem_engine schema_world \<times> mem_engine schema_world \<Rightarrow> mem_engine schema_world \<times> mem_engine schema_world" where
  "sched_step X cfg (Lead c) (leader, w) = (schema_exec X MemEngine cfg c leader, w)"
| "sched_step X cfg Sync (leader, w) =
    (leader, snd (converge_from_gossip X MemEngine (provider X leader) (sw_version leader) w))"

fun leads :: "schedule list \<Rightarrow> schema_call list" where
  "leads [] = []"
| "leads (Lead c # ops) = c # leads ops"
| "leads (Sync # ops) = leads ops"

definition in_step ::
  "'n schema_ext \<Rightarrow> string set \<Rightarrow> nat \<Rightarrow> mem_engine schema_world \<times> mem_engine schema_world \<Rightarrow> bool" where
  "in_step X D n p \<longleftrightarrow> (\<exists>es. log_is X D (fst p) es \<and> follows es (snd p)) \<and> mem_inv (sw_storage (snd p)) \<and>
    unat (sw_version (fst p)) \<le> n"

lemma in_step_lead:
  assumes "in_step X D n (leader, w)" "n < 2 ^ 64 - 2"
  shows "in_step X (D \<union> replaced_by c leader) (Suc n) (schema_exec X MemEngine cfg c leader, w)"
proof -
  obtain es where es: "log_is X D leader es" "follows es w" "mem_inv (sw_storage w)" "unat (sw_version leader) \<le> n"
    using assms(1) by (auto simp: in_step_def)
  have "advances X (D \<union> replaced_by c leader) leader es (schema_exec X MemEngine cfg c leader)"
    using es(1,4) assms(2) by (intro schema_exec_advances) auto
  thus ?thesis
    using es assms(2) follows_extend [OF es(2,1)]
    by (fastforce simp: in_step_def advances_def unat_word_ariths)
qed

lemma in_step_sync:
  assumes "in_step X D n (leader, w)" "entry_laws X" "\<And>st. \<exists>bs. ser_state X st = Ok bs"
  shows "in_step X D n (sched_step X cfg Sync (leader, w))"
    "\<exists>es. log_is X D leader es \<and> sw_state (snd (sched_step X cfg Sync (leader, w))) = replay es"
  using assms(1) mem.converge_run [OF assms(2) _ _ _ assms(3), of _ leader _ w]
  by (fastforce simp: in_step_def)+

lemma in_step_run:
  assumes "entry_laws X" "\<And>st. \<exists>bs. ser_state X st = Ok bs" "in_step X D n p" "n + length ops < 2 ^ 64 - 1"
  shows "in_step X (D \<union> replaced X MemEngine cfg (leads ops) (fst p)) (n + length ops) (fold (sched_step X cfg) ops p)"
  using assms(3,4)
proof (induction ops arbitrary: D n p)
  case (Cons op ops)
  obtain l f where p: "p = (l, f)" by fastforce
  show ?case
  proof (cases op)
    case (Lead c)
    have "in_step X (D \<union> replaced_by c l) (Suc n) (sched_step X cfg op p)"
      using Lead in_step_lead [of X D n l f c cfg] Cons.prems p by auto
    from Cons.IH [OF this] show ?thesis using Lead Cons.prems p by (simp add: Un_assoc)
  next
    case Sync
    have "in_step X D (Suc n) (sched_step X cfg op p)"
      using Sync in_step_sync(1) [of X D n l f cfg] assms(1,2) Cons.prems p by (auto simp: in_step_def)
    from Cons.IH [OF this] show ?thesis using Sync Cons.prems p by simp
  qed
qed simp

section \<open>The quota\<close>

definition quota_ok :: "nat \<Rightarrow> schema_state \<Rightarrow> bool" where
  "quota_ok m st \<longleftrightarrow> bt_sorted (ss_active st) \<and>
    (\<forall>coll. bt_sorted (active_of st coll) \<and> length (active_of st coll) \<le> m)"

lemma active_apply:
  assumes "bt_sorted (ss_active st)"
  shows "active_of (apply_entry_mut e st) coll =
    (if coll \<noteq> le_collection e then active_of st coll
     else if le_op e = CreateIndexOp then bt_insert (le_field e) (le_index_id e) (active_of st coll)
     else if bt_get (active_of st coll) (le_field e) = Some (le_index_id e)
     then bt_remove (le_field e) (active_of st coll) else active_of st coll)"
    "bt_sorted (ss_active (apply_entry_mut e st))"
  using assms
  by (cases "le_op e"; auto simp: apply_entry_mut_def Let_def active_of_def btree_simps wf_intros split: option.splits)+

text \<open>The guard of \<open>create_index\<close>.\<close>

definition room_for :: "nat \<Rightarrow> schema_state \<Rightarrow> log_entry \<Rightarrow> bool" where
  "room_for m st e \<longleftrightarrow> le_op e = CreateIndexOp \<longrightarrow>
    length (active_of st (le_collection e)) < m \<or> replacement_for st (le_collection e) (le_field e) \<noteq> None"

lemma quota_apply:
  assumes "quota_ok m st" "room_for m st e"
  shows "quota_ok m (apply_entry_mut e st)"
proof -
  have sorted: "bt_sorted (active_of st coll)" "length (active_of st coll) \<le> m" for coll
    using assms(1) by (auto simp: quota_ok_def)
  have "length (bt_insert (le_field e) (le_index_id e) (active_of st (le_collection e))) \<le> m"
    if "le_op e = CreateIndexOp"
  proof (cases "le_field e \<in> fst ` set (active_of st (le_collection e))")
    case True
    thus ?thesis using sorted by (simp add: length_bt_insert)
  next
    case False
    hence "replacement_for st (le_collection e) (le_field e) = None"
      by (auto simp: replacement_for_def active_of_def bt_get_None_iff [symmetric] split: option.splits)
    hence "length (active_of st (le_collection e)) < m"
      using assms(2) that by (auto simp: room_for_def)
    thus ?thesis using length_bt_insert_le [of "le_field e" "le_index_id e" "active_of st (le_collection e)"] by linarith
  qed
  moreover have "length (bt_remove (le_field e) (active_of st coll)) \<le> m" for coll
    using sorted(2) [of coll] length_filter_le order_trans unfolding bt_remove_def by blast
  ultimately show ?thesis
    using assms(1) sorted by (auto simp: quota_ok_def active_apply wf_intros)
qed

lemma append_state: "act_keeps (\<lambda>w. sw_state w = st) (append_log_entry X e)"
  unfolding append_log_entry_def
  by (intro act_keeps_bind) (auto simp: act_keeps_def fs_call_def log_write_def log_append_def act_run split: list.splits option.splits)

lemma record_entry_state:
  "sw_state (snd (record_entry X E e task w)) \<in> {sw_state w, apply_entry_mut e (sw_state w)}"
proof -
  obtain r w1 where a: "append_log_entry X e w = (r, w1)" by fastforce
  have w1: "sw_state w1 = sw_state w"
    using append_state [of "sw_state w" X e, unfolded act_keeps_def, rule_format, of w] a by simp
  obtain r' s where p: "persist_state_snapshot X E (w1\<lparr>sw_state := apply_entry_mut e (sw_state w1)\<rparr>) =
      (r', w1\<lparr>sw_state := apply_entry_mut e (sw_state w1), sw_storage := s\<rparr>)"
    using persist_frame [of X E "w1\<lparr>sw_state := apply_entry_mut e (sw_state w1)\<rparr>"] by blast
  show ?thesis
    using a p w1 by (auto simp: record_entry_def act_bind_def split: option.splits sum.splits)
qed

lemma schema_exec_quota:
  assumes "quota_ok (max_secondary_indexes_per_collection cfg) (sw_state w)" "\<forall>i. RunTask i \<noteq> c"
  shows "quota_ok (max_secondary_indexes_per_collection cfg) (sw_state (schema_exec X E cfg c w))"
proof -
  let ?w = "w\<lparr>sw_version := sw_version w + 1\<rparr>" and ?m = "max_secondary_indexes_per_collection cfg"
  have rec: "quota_ok ?m (sw_state (snd (record_entry X E e task ?w)))" if "room_for ?m (sw_state w) e" for e task
    using record_entry_state [of X E e task ?w] quota_apply [OF assms(1) that] assms(1) by auto
  show ?thesis
  proof (cases c)
    case (CreateCall uuid ts coll field)
    thus ?thesis using assms rec
      by (auto simp: create_index_eq act_bind_result next_version_run Let_def act_run room_for_def split: sum.splits)
  next
    case (DropCall ts coll index)
    thus ?thesis using assms rec
      by (auto simp: drop_index_eq act_bind_result next_version_run act_run room_for_def split: sum.splits option.splits)
  qed (use assms(2) in simp)
qed

lemma quota_run:
  "quota_ok (max_secondary_indexes_per_collection cfg) (sw_state w) \<Longrightarrow> \<forall>i. RunTask i \<notin> set calls \<Longrightarrow>
    quota_ok (max_secondary_indexes_per_collection cfg) (sw_state (fold (schema_exec X E cfg) calls w))"
  by (induction calls arbitrary: w) (auto simp: schema_exec_quota)

section \<open>Concrete runs\<close>

text \<open>A manager that nothing has failed on: its entries, its state, its version and its pending tasks.\<close>

definition calm :: "'n schema_ext \<Rightarrow> log_entry list \<Rightarrow> schema_state \<Rightarrow> u64 \<Rightarrow> schema_task list \<Rightarrow> mem_engine schema_world \<Rightarrow> bool" where
  "calm X es st v tasks w \<longleftrightarrow> (case sw_log w of None \<Rightarrow> es = [] | Some c \<Rightarrow> c = encode_log X es) \<and> sw_state w = st \<and>
    sw_version w = v \<and> sw_tasks w = tasks \<and> sw_faults w = [] \<and> mem_inv (sw_storage w)"

definition total_serde :: "'n schema_ext \<Rightarrow> log_entry list \<Rightarrow> bool" where
  "total_serde X es \<longleftrightarrow> list_all (writable X) es \<and> (\<forall>st. \<exists>bs. ser_state X st = Ok bs)"

lemma calm_fresh: "calm X [] schema_default 0 [] (schema_fresh mem_new)"
  by (simp add: calm_def schema_fresh_def mem_inv_new)

lemma record_calm:
  assumes "calm X es st v tasks w" "total_serde X [e]"
  shows "calm X (es @ [e]) (apply_entry_mut e st) (v + 1) (tasks @ [task])
    (snd (record_entry X MemEngine e task (w\<lparr>sw_version := v + 1\<rparr>)))"
proof -
  obtain line where line: "ser_entry X e = Ok line" using assms(2) by (auto simp: total_serde_def writable_def)
  let ?w = "(log_append (as_bytes line @ [10]) (w\<lparr>sw_version := v + 1\<rparr>))\<lparr>sw_state := apply_entry_mut e st\<rparr>"
  obtain bs where bs: "ser_state X (apply_entry_mut e st) = Ok bs" using assms(2) by (auto simp: total_serde_def)
  have "append_log_entry X e (w\<lparr>sw_version := v + 1\<rparr>) = (Some (Ok ()), log_append (as_bytes line @ [10]) (w\<lparr>sw_version := v + 1\<rparr>))"
    using assms(1) line by (simp add: append_run calm_def)
  moreover have "persist_state_snapshot X MemEngine ?w =
      (Some (Ok ()), ?w\<lparr>sw_storage := after_put MemEngine CF_METADATA METADATA_STATE_KEY bs (sw_storage ?w)\<rparr>)"
    using assms(1) bs by (intro mem.persist_run) (simp_all add: log_append_def calm_def)
  ultimately show ?thesis
    using assms(1) line
    by (auto simp: calm_def record_entry_def act_bind_run log_append_def mem.put_run encode_log_snoc
        encode_log_def [of X "[]"] split: option.splits)
qed

lemma create_calm:
  assumes "calm X es st v tasks w" "validate_identifier coll ''collection'' = Ok ()"
    "validate_identifier field ''field'' = Ok ()" "validate_identifier uuid ''index'' = Ok ()"
    and "length (active_of st coll) < max_secondary_indexes_per_collection cfg \<or> replacement_for st coll field \<noteq> None"
    and "e = \<lparr>le_version = v + 1, le_op = CreateIndexOp, le_collection = coll, le_field = field,
      le_index_id = uuid, le_timestamp = ts\<rparr>" "total_serde X [e]"
  shows "calm X (es @ [e]) (apply_entry_mut e st) (v + 1)
    (tasks @ [Materialize \<lparr>ix_id = uuid, ix_collection = coll, ix_field = field, ix_created_at = v + 1\<rparr>
      (replacement_for st coll field)])
    (schema_exec X MemEngine cfg (CreateCall uuid ts coll field) w)"
proof -
  have room: "\<not> (max_secondary_indexes_per_collection cfg \<le> length (active_of (sw_state w) coll) \<and>
      replacement_for (sw_state w) coll field = None)"
    using assms(1,5) by (auto simp: calm_def)
  have "sw_state w = st" "sw_version w = v" using assms(1) by (simp_all add: calm_def)
  thus ?thesis
    using record_calm [OF assms(1,7)] assms(2-4,6)
    unfolding schema_exec.simps create_index_eq Let_def if_not_P [OF room]
    by (simp add: act_bind_result next_version_run)
qed

lemma drop_calm:
  assumes "calm X es st v tasks w" "find_index st coll index = Some idx"
    "validate_identifier coll ''collection'' = Ok ()" "validate_identifier index ''index'' = Ok ()"
    and "e = \<lparr>le_version = v + 1, le_op = DropIndexOp, le_collection = coll, le_field = ix_field idx,
      le_index_id = index, le_timestamp = ts\<rparr>" "total_serde X [e]"
  shows "calm X (es @ [e]) (apply_entry_mut e st) (v + 1) (tasks @ [DropRows index])
    (schema_exec X MemEngine cfg (DropCall ts coll index) w)"
  using record_calm [OF assms(1,6)] assms(1-5)
  by (simp add: drop_index_eq act_bind_result next_version_run calm_def)

lemma swap_calm:
  assumes "calm X es st v tasks w" "i < length tasks" "tasks ! i = Materialize def (Some old)" "total_serde X []"
    and "validate_identifier (ix_collection def) ''collection'' = Ok ()" "validate_identifier (ix_id def) ''index'' = Ok ()"
    "validate_identifier (ix_field def) ''field'' = Ok ()" "validate_identifier (ix_id old) ''index'' = Ok ()"
  shows "calm X es (swap_replacement def old st) v (take i tasks @ drop (Suc i) tasks)
      (schema_exec X MemEngine cfg (RunTask i) w) \<and>
    sw_ready (schema_exec X MemEngine cfg (RunTask i) w) = insert (ix_id def) (sw_ready w) - {ix_id old}"
proof -
  let ?w = "w\<lparr>sw_tasks := take i tasks @ drop (Suc i) tasks\<rparr>"
  have w: "sw_tasks w = tasks" "mem_inv (sw_storage ?w)" "sw_state ?w = st" using assms(1) by (simp_all add: calm_def)
  obtain s1 where 1: "materialize X MemEngine def ?w = (Some (Ok ()), ?w\<lparr>sw_storage := s1,
      sw_ready := insert (ix_id def) (sw_ready ?w)\<rparr>)" "mem_inv s1"
    using mem.materialize_run [OF w(2) assms(5-7), of X] by blast
  let ?w1 = "?w\<lparr>sw_storage := s1, sw_ready := insert (ix_id def) (sw_ready ?w), sw_state := swap_replacement def old st\<rparr>"
  obtain s2 where 2: "drop_materialized MemEngine (ix_id old) ?w1 =
      (Some (Ok ()), ?w1\<lparr>sw_storage := s2, sw_ready := sw_ready ?w1 - {ix_id old}\<rparr>)" "mem_inv s2"
    using mem.drop_run [of ?w1 "ix_id old"] 1(2) assms(8) by auto
  let ?w2 = "?w1\<lparr>sw_storage := s2, sw_ready := sw_ready ?w1 - {ix_id old}\<rparr>"
  obtain bs where bs: "ser_state X (sw_state ?w2) = Ok bs" using assms(4) by (auto simp: total_serde_def)
  let ?s3 = "after_put MemEngine CF_METADATA METADATA_STATE_KEY bs (sw_storage ?w2)"
  have 3: "persist_state_snapshot X MemEngine ?w2 = (Some (Ok ()), ?w2\<lparr>sw_storage := ?s3\<rparr>)"
    using 2(2) by (intro mem.persist_run bs) simp
  have "run_schema_task X MemEngine (tasks ! i) ?w = (Some (Ok ()), ?w2\<lparr>sw_storage := ?s3\<rparr>)"
    using 1(1) 2(1) 3 w(3) assms(3) by (simp add: run_schema_task_def act_bind_run act_try_run act_run)
  hence "schema_exec X MemEngine cfg (RunTask i) w = ?w2\<lparr>sw_storage := ?s3\<rparr>" using w(1) assms(2) by simp
  moreover have "mem_inv ?s3" using 2(2) by (simp add: mem.put_run)
  ultimately show ?thesis using assms(1) by (simp add: calm_def)
qed

lemmas schema_eval = replacement_for_def active_of_def find_index_def apply_entry_mut_def entry_collection_def
  bt_remove_def Let_def

text \<open>JSON that knows some entries, each written by its place in the list.\<close>

definition serde_of :: "log_entry list \<Rightarrow> nat schema_ext" where
  "serde_of es = \<lparr>ser_state = (\<lambda>st. Ok []), de_state = (\<lambda>bs. Ok schema_default),
     ser_entry = (\<lambda>e. if e \<in> set es
       then Ok (''{'' @ replicate (length (takeWhile (\<lambda>x. x \<noteq> e) es)) (CHR ''x'') @ ''}'') else Err ''entry''),
     de_entry = (\<lambda>line. Ok (es ! (length line - 2))),
     de_json = (\<lambda>bs. None), show_number = (\<lambda>n. []), b64_url = (\<lambda>bs. [])\<rparr>"

lemma serde_of_laws: "entry_laws (serde_of es)" "e \<in> set es \<Longrightarrow> total_serde (serde_of es) [e]" "total_serde (serde_of es) []"
proof -
  have "es ! length (takeWhile (\<lambda>x. x \<noteq> e) es) = e" if "e \<in> set es" for e
    using that by (induction es) auto
  thus "entry_laws (serde_of es)"
    by (auto simp: entry_laws_def serde_of_def as_bytes_def of_char_def list_all_iff intro!: utf8_valid_ascii split: if_splits)
qed (auto simp: total_serde_def writable_def serde_of_def)

text \<open>An index is replaced, and the swap has run: the log has both definitions, the memory only the second.\<close>

definition swap_entries :: "log_entry list" where
  "swap_entries = [\<lparr>le_version = 1, le_op = CreateIndexOp, le_collection = ''c'', le_field = ''f'', le_index_id = ''u1'', le_timestamp = ''0''\<rparr>,
    \<lparr>le_version = 2, le_op = CreateIndexOp, le_collection = ''c'', le_field = ''f'', le_index_id = ''u2'', le_timestamp = ''0''\<rparr>]"

definition index_u1 :: index_definition where
  "index_u1 = \<lparr>ix_id = ''u1'', ix_collection = ''c'', ix_field = ''f'', ix_created_at = 1\<rparr>"

definition index_u2 :: index_definition where
  "index_u2 = \<lparr>ix_id = ''u2'', ix_collection = ''c'', ix_field = ''f'', ix_created_at = 2\<rparr>"

definition schema_of :: "u64 \<Rightarrow> index_definition list \<Rightarrow> (string, string) btree \<Rightarrow> schema_state" where
  "schema_of v ixs act = \<lparr>ss_version = v, ss_collections = [(''c'', \<lparr>cs_id = ''c'', cs_indexes = ixs, cs_version = v\<rparr>)],
    ss_active = [(''c'', act)]\<rparr>"

definition swap_steps :: "schema_call list" where
  "swap_steps = [CreateCall ''u1'' ''0'' ''c'' ''f'', CreateCall ''u2'' ''0'' ''c'' ''f'', RunTask 1]"

lemma replace_calm:
  assumes "total_serde X [swap_entries ! 0]" "total_serde X [swap_entries ! 1]" "0 < max_secondary_indexes_per_collection cfg"
  shows "calm X swap_entries (schema_of 2 [index_u1, index_u2] [(''f'', ''u2'')]) 2
    [Materialize index_u1 None, Materialize index_u2 (Some index_u1)]
    (fold (schema_exec X MemEngine cfg) (take 2 swap_steps) (schema_fresh mem_new))"
proof -
  let ?w1 = "schema_exec X MemEngine cfg (CreateCall ''u1'' ''0'' ''c'' ''f'') (schema_fresh mem_new)"
  have 1: "calm X [swap_entries ! 0] (schema_of 1 [index_u1] [(''f'', ''u1'')]) 1 [Materialize index_u1 None] ?w1"
    using create_calm [OF calm_fresh _ _ _ _ _ assms(1), of "''c''" "''f''" "''u1''" cfg "''0''"] assms(3)
    by (simp add: validate_identifier_def schema_eval schema_default_def swap_entries_def schema_of_def index_u1_def)
  from create_calm [OF 1 _ _ _ _ _ assms(2), of "''c''" "''f''" "''u2''" cfg "''0''"] show ?thesis
    by (simp add: validate_identifier_def schema_eval swap_entries_def schema_of_def index_u1_def index_u2_def
        swap_steps_def numeral_2_eq_2)
qed

lemma swap_steps_calm:
  "calm (serde_of swap_entries) swap_entries (schema_of 2 [index_u2] [(''f'', ''u2'')]) 2 [Materialize index_u1 None]
    (fold (schema_exec (serde_of swap_entries) MemEngine schema_config_default) swap_steps (schema_fresh mem_new))"
proof -
  have "calm (serde_of swap_entries) swap_entries (schema_of 2 [index_u1, index_u2] [(''f'', ''u2'')]) 2
    [Materialize index_u1 None, Materialize index_u2 (Some index_u1)]
    (fold (schema_exec (serde_of swap_entries) MemEngine schema_config_default) (take 2 swap_steps) (schema_fresh mem_new))"
    by (rule replace_calm) (simp_all add: serde_of_laws swap_entries_def schema_config_default_def)
  from swap_calm [OF this, of 1 index_u2 index_u1 schema_config_default] show ?thesis
    by (simp add: serde_of_laws validate_identifier_def index_u1_def index_u2_def swap_replacement_def schema_of_def
        swap_steps_def Let_def)
qed

lemma calm_read:
  assumes "calm X es st v tasks w" "entry_laws X" "list_all (writable X) es" "sorted (map le_version es)"
  shows "read_log_entries X w = (Some (Ok es), w)"
  using assms parse_encode [OF assms(2,3)] sort_key_id_if_sorted [OF assms(4)]
  by (auto simp: read_log_entries_def calm_def act_bind_def fs_call_def act_run split: option.splits)

lemma swap_steps_read:
  fixes w defines "w \<equiv> fold (schema_exec (serde_of swap_entries) MemEngine schema_config_default) swap_steps (schema_fresh mem_new)"
  shows "read_log_entries (serde_of swap_entries) w = (Some (Ok swap_entries), w)"
  unfolding w_def
  by (rule calm_read [OF swap_steps_calm serde_of_laws(1)]) (auto simp: writable_def serde_of_def swap_entries_def)

lemma swap_entries_replay: "replay swap_entries = schema_of 2 [index_u1, index_u2] [(''f'', ''u2'')]"
  by (simp add: replay_def swap_entries_def schema_eval schema_default_def schema_of_def index_u1_def index_u2_def)

section \<open>Properties\<close>

definition demo_entry :: log_entry where
  "demo_entry = \<lparr>le_version = 1, le_op = CreateIndexOp, le_collection = ''c'', le_field = ''f'',
     le_index_id = ''u'', le_timestamp = ''0''\<rparr>"

definition demo_serde :: "nat schema_ext" where
  "demo_serde = \<lparr>
     ser_state = (\<lambda>st. if st = replay [demo_entry] then Ok [1] else Err ''state''),
     de_state = (\<lambda>bs. Ok (replay [demo_entry])),
     ser_entry = (\<lambda>e. if e = demo_entry then Ok ''{e}'' else Err ''entry''),
     de_entry = (\<lambda>line. Ok demo_entry),
     de_json = (\<lambda>bs. None), show_number = (\<lambda>n. []), b64_url = (\<lambda>bs. [])\<rparr>"

lemma demo_serde_law: "state_law demo_serde"
  by (auto simp: state_law_def demo_serde_def split: if_splits)

lemma demo_create_run:
  assumes "ser_state X (replay [demo_entry]) = Ok bs" "ser_entry X demo_entry = Ok line"
  shows "\<exists>w'. create_index X MemEngine schema_config_default ''u'' ''0'' ''c'' ''f'' (schema_fresh mem_new) =
      (Some (Ok 1), w') \<and> sw_state w' = replay [demo_entry]"
proof -
  let ?w = "(schema_fresh mem_new)\<lparr>sw_version := 1\<rparr>"
  let ?w1 = "(log_append (as_bytes line @ [10]) ?w)\<lparr>sw_state := replay [demo_entry]\<rparr>"
  have 1: "append_log_entry X demo_entry ?w = (Some (Ok ()), log_append (as_bytes line @ [10]) ?w)"
    by (simp add: append_run assms schema_fresh_def)
  have 2: "persist_state_snapshot X MemEngine ?w1 = (Some (Ok ()),
      ?w1\<lparr>sw_storage := after_put MemEngine CF_METADATA METADATA_STATE_KEY bs (sw_storage ?w1)\<rparr>)"
    by (rule mem.persist_run) (simp_all add: assms log_append_def schema_fresh_def mem_inv_new)
  have "create_index X MemEngine schema_config_default ''u'' ''0'' ''c'' ''f'' (schema_fresh mem_new) =
    record_entry X MemEngine demo_entry (Materialize \<lparr>ix_id = ''u'', ix_collection = ''c'', ix_field = ''f'',
      ix_created_at = 1\<rparr> None) ?w"
    by (simp add: create_index_eq act_bind_result validate_identifier_def next_version_run schema_fresh_def
        schema_default_def replacement_for_def active_of_def schema_config_default_def demo_entry_def Let_def)
  thus ?thesis
    using 1 2 by (simp add: record_entry_def act_bind_run log_append_def schema_fresh_def replay_def demo_entry_def)
qed

lemma demo_creates:
  "\<exists>w'. create_index demo_serde MemEngine schema_config_default ''u'' ''0'' ''c'' ''f'' (schema_fresh mem_new) =
      (Some (Ok 1), w') \<and> sw_state w' = replay [demo_entry]"
  by (rule demo_create_run [of _ "[1]" "''{e}''"]) (simp_all add: demo_serde_def)

text \<open>
  C17: the log is the truth.  Take any sequence of \<open>create_index\<close> and \<open>drop_index\<close> calls
  on a new manager, with the background tasks they spawn run at any later moments and in any order, whatever each call
  returned and whether or not its snapshot could be stored, as long as no call on the log file fails.  Then the log file
  reads back to entries in the order of their versions, and a manager started on that log and a storage
  without a snapshot comes up with the replay of these entries.  The state in memory is that replay but for the
  background swaps, which are not logged: the versions agree, and every collection has the indexes of the replay in
  order, except that definitions are missing that a task which ran was to replace.  When no task that ran
  replaces an index, the state in memory is exactly the replay; when one did, a restart from the log brings the
  replaced definition back.
\<close>

theorem schema_log_is_truth:
  assumes "entry_laws X" "length calls < 2 ^ 64 - 1" "w = fold (schema_exec X MemEngine cfg) calls (schema_fresh s)"
    and "mem_inv t" "bt_get (mem_view t CF_METADATA) METADATA_STATE_KEY = None"
  shows "\<exists>es. read_log_entries X w = (Some (Ok es), w) \<and> sorted_wrt (<) (map le_version es) \<and>
    trimmed (replaced X MemEngine cfg calls (schema_fresh s)) (sw_state w) (fold apply_entry_mut es schema_default) \<and>
    sw_state (snd (schema_new X MemEngine t (sw_log w))) = fold apply_entry_mut es schema_default"
proof -
  have "unat (sw_version (schema_fresh s)) + length calls < 2 ^ 64 - 1"
    using assms(2) by (simp add: schema_fresh_def)
  then obtain es where es: "log_is X ({} \<union> replaced X MemEngine cfg calls (schema_fresh s)) w es"
    using schema_run_logged [OF log_is_fresh, of s calls X MemEngine cfg] assms(3) by blast
  thus ?thesis
    using log_is_read [OF assms(1) es] mem.restart_replays [OF assms(1) es assms(4,5)]
    by (intro exI [of _ es]) (auto simp: log_is_def replay_def sorted_wrt_append)
qed

text \<open>An index is replaced and the swap runs: the memory has the second index, the restarted manager both.\<close>

theorem schema_log_is_truth_witness:
  "\<exists>w. w = fold (schema_exec (serde_of swap_entries) MemEngine schema_config_default) swap_steps (schema_fresh mem_new) \<and>
    sw_state w = schema_of 2 [index_u2] [(''f'', ''u2'')] \<and>
    sw_state (snd (schema_new (serde_of swap_entries) MemEngine mem_new (sw_log w))) =
      schema_of 2 [index_u1, index_u2] [(''f'', ''u2'')]"
proof -
  let ?w = "fold (schema_exec (serde_of swap_entries) MemEngine schema_config_default) swap_steps (schema_fresh mem_new)"
  have "bt_get (mem_view mem_new CF_METADATA) METADATA_STATE_KEY = None"
    by (simp add: mem_view_new)
  then obtain es where "read_log_entries (serde_of swap_entries) ?w = (Some (Ok es), ?w)"
    "sw_state (snd (schema_new (serde_of swap_entries) MemEngine mem_new (sw_log ?w))) = replay es"
    using schema_log_is_truth [OF serde_of_laws(1), of swap_steps ?w swap_entries schema_config_default mem_new mem_new]
      mem_inv_new by (auto simp: swap_steps_def replay_def)
  thus ?thesis
    using swap_steps_read swap_steps_calm by (simp add: calm_def swap_entries_replay)
qed

text \<open>
  An acknowledged schema change survives.  When \<open>create_index\<close> or \<open>drop_index\<close>
  returns a version, a manager started on the storage the call left comes up with
  the state the call left and that version.
\<close>

theorem acknowledged_change_survives:
  assumes "state_law X" "mem_inv (sw_storage w)"
    and "create_index X MemEngine cfg uuid ts coll field w = (Some (Ok v), w') \<or>
      drop_index X MemEngine ts coll index w = (Some (Ok v), w')"
  shows "\<exists>w''. schema_new X MemEngine (sw_storage w') log = (Some (Ok ()), w'') \<and>
    sw_state w'' = sw_state w' \<and> current_version w'' = v"
  using assms mem.create_restarts [OF assms(1,2)] mem.drop_restarts [OF assms(1,2)]
  unfolding current_version_def by blast

theorem acknowledged_change_survives_witness:
  "\<exists>w' w''. create_index demo_serde MemEngine schema_config_default ''u'' ''0'' ''c'' ''f'' (schema_fresh mem_new) =
      (Some (Ok 1), w') \<and>
    schema_new demo_serde MemEngine (sw_storage w') None = (Some (Ok ()), w'') \<and> has_index w'' ''c'' ''u''"
proof -
  obtain w' where w': "create_index demo_serde MemEngine schema_config_default ''u'' ''0'' ''c'' ''f''
      (schema_fresh mem_new) = (Some (Ok 1), w')" "sw_state w' = replay [demo_entry]"
    using demo_creates by blast
  have "mem_inv (sw_storage (schema_fresh mem_new))" by (simp add: schema_fresh_def mem_inv_new)
  from acknowledged_change_survives [OF demo_serde_law this disjI1 [OF w'(1)], of None] obtain w''
    where "schema_new demo_serde MemEngine (sw_storage w') None = (Some (Ok ()), w'')" "sw_state w'' = replay [demo_entry]"
    using w'(2) by auto
  moreover from this have "has_index w'' ''c'' ''u''"
    by (simp add: has_index_def replay_def demo_entry_def apply_entry_mut_def Let_def entry_collection_def schema_default_def)
  ultimately show ?thesis using w'(1) by blast
qed

text \<open>
  C18: followers converge.  A leader makes any sequence of schema changes and runs its background tasks at any
  moments, while a follower converges from it from time to time, asking it for its log entries since the
  follower's version; no call on the leader's log file fails and states can be serialised.  After a convergence the
  follower has exactly the replay of the leader's log.  The leader's own state in memory is that replay but for
  definitions its background swaps were to remove: when no task of the leader that ran replaces an index,
  the follower has the leader's schema; otherwise the follower may still have the replaced definitions.
\<close>

theorem followers_converge:
  assumes "entry_laws X" "\<forall>st. \<exists>bs. ser_state X st = Ok bs" "mem_inv t" "length ops < 2 ^ 64 - 1"
    and "fold (sched_step X cfg) (ops @ [Sync]) (schema_fresh s, schema_fresh t) = (leader, w)"
  shows "(\<exists>es. read_log_entries X leader = (Some (Ok es), leader) \<and> sw_state w = fold apply_entry_mut es schema_default) \<and>
    trimmed (replaced X MemEngine cfg (leads ops) (schema_fresh s)) (sw_state leader) (sw_state w)"
proof -
  let ?D = "replaced X MemEngine cfg (leads ops) (schema_fresh s)"
  have "in_step X {} 0 (schema_fresh s, schema_fresh t)"
    using assms(3) log_is_fresh [of X s]
    by (auto simp: in_step_def follows_def schema_fresh_def replay_def schema_default_def intro!: exI [of _ "[]"])
  from in_step_run [OF assms(1) _ this, of ops cfg]
  have "in_step X ?D (length ops) (fold (sched_step X cfg) ops (schema_fresh s, schema_fresh t))"
    using assms(2,4) by simp
  moreover obtain l f where "fold (sched_step X cfg) ops (schema_fresh s, schema_fresh t) = (l, f)" by fastforce
  ultimately obtain es where "log_is X ?D leader es" "sw_state w = replay es"
    using in_step_sync(2) [of X ?D "length ops" l f cfg] assms(1,2,5) by auto
  thus ?thesis
    using log_is_read [OF assms(1)] by (auto simp: log_is_def replay_def)
qed

text \<open>The swap of the leader has run between two convergences: the follower keeps the replaced index.\<close>

definition swap_schedule :: "schedule list" where
  "swap_schedule = [Lead (swap_steps ! 0), Sync, Lead (swap_steps ! 1), Lead (swap_steps ! 2)]"

lemma leader_run: "fst (fold (sched_step X cfg) ops p) = fold (schema_exec X MemEngine cfg) (leads ops) (fst p)"
proof (induction ops arbitrary: p)
  case (Cons op ops)
  thus ?case by (cases op; cases p) auto
qed simp

theorem followers_converge_witness:
  "\<exists>leader w. fold (sched_step (serde_of swap_entries) schema_config_default) (swap_schedule @ [Sync])
      (schema_fresh mem_new, schema_fresh mem_new) = (leader, w) \<and>
    sw_state leader = schema_of 2 [index_u2] [(''f'', ''u2'')] \<and>
    sw_state w = schema_of 2 [index_u1, index_u2] [(''f'', ''u2'')]"
proof -
  let ?X = "serde_of swap_entries"
  obtain leader w where run: "fold (sched_step ?X schema_config_default) (swap_schedule @ [Sync])
      (schema_fresh mem_new, schema_fresh mem_new) = (leader, w)" by fastforce
  have "leads (swap_schedule @ [Sync]) = swap_steps" by (simp add: swap_schedule_def swap_steps_def)
  hence leader: "leader = fold (schema_exec ?X MemEngine schema_config_default) swap_steps (schema_fresh mem_new)"
    using leader_run [of ?X schema_config_default "swap_schedule @ [Sync]" "(schema_fresh mem_new, schema_fresh mem_new)"] run
    by simp
  have "\<forall>st. \<exists>bs. ser_state ?X st = Ok bs" "length swap_schedule < 2 ^ 64 - 1"
    by (simp_all add: serde_of_def swap_schedule_def)
  from followers_converge [OF serde_of_laws(1) this(1) mem_inv_new this(2) run]
  have "sw_state w = replay swap_entries"
    using swap_steps_read by (auto simp: leader replay_def)
  thus ?thesis using run swap_steps_calm by (auto simp: leader calm_def swap_entries_replay)
qed

text \<open>
  The quota.  Starting from a new manager, no sequence of \<open>create_index\<close> and
  \<open>drop_index\<close> calls, on any storage and with any file system faults, leaves a
  collection with more active indexes than the configured maximum, as long as no background task runs in between.
\<close>

theorem index_quota:
  "\<forall>i. RunTask i \<notin> set calls \<Longrightarrow>
    length (active_of (sw_state (fold (schema_exec X E cfg) calls ((schema_fresh s)\<lparr>sw_faults := faults\<rparr>))) coll)
      \<le> max_secondary_indexes_per_collection cfg"
  using quota_run [of cfg "(schema_fresh s)\<lparr>sw_faults := faults\<rparr>" calls X E]
  by (simp add: quota_ok_def schema_fresh_def schema_default_def active_of_def)

section \<open>A swap after a drop\<close>

definition one_index :: schema_config where
  "one_index = \<lparr>max_secondary_indexes_per_collection = 1\<rparr>"

definition revive_entries :: "log_entry list" where
  "revive_entries = swap_entries @
    [\<lparr>le_version = 3, le_op = DropIndexOp, le_collection = ''c'', le_field = ''f'', le_index_id = ''u2'', le_timestamp = ''0''\<rparr>,
     \<lparr>le_version = 4, le_op = CreateIndexOp, le_collection = ''c'', le_field = ''g'', le_index_id = ''u3'', le_timestamp = ''0''\<rparr>]"

definition index_u3 :: index_definition where
  "index_u3 = \<lparr>ix_id = ''u3'', ix_collection = ''c'', ix_field = ''g'', ix_created_at = 4\<rparr>"

definition revive_steps :: "schema_call list" where
  "revive_steps = take 2 swap_steps @ [DropCall ''0'' ''c'' ''u2'', CreateCall ''u3'' ''0'' ''c'' ''g'']"

definition revive_world :: "mem_engine schema_world" where
  "revive_world = fold (schema_exec (serde_of revive_entries) MemEngine one_index) revive_steps (schema_fresh mem_new)"

lemma revive_calm:
  "calm (serde_of revive_entries) revive_entries (schema_of 4 [index_u1, index_u3] [(''g'', ''u3'')]) 4
    [Materialize index_u1 None, Materialize index_u2 (Some index_u1), DropRows ''u2'', Materialize index_u3 None] revive_world"
proof -
  let ?X = "serde_of revive_entries"
  have known: "total_serde ?X [revive_entries ! i]" if "i < 4" for i
    using that by (intro serde_of_laws nth_mem) (simp add: revive_entries_def swap_entries_def)
  have "revive_entries ! 0 = swap_entries ! 0" "revive_entries ! 1 = swap_entries ! 1"
    by (simp_all add: revive_entries_def swap_entries_def)
  hence "calm ?X swap_entries (schema_of 2 [index_u1, index_u2] [(''f'', ''u2'')]) 2
    [Materialize index_u1 None, Materialize index_u2 (Some index_u1)]
    (fold (schema_exec ?X MemEngine one_index) (take 2 swap_steps) (schema_fresh mem_new))" (is "calm _ _ _ _ _ ?w2")
    using replace_calm [of ?X one_index] known [of 0] known [of 1] by (simp add: one_index_def)
  from drop_calm [OF this _ _ _ _ known [of 2], of "''c''" "''u2''" index_u2 "''0''" one_index]
  have "calm ?X (swap_entries @ [revive_entries ! 2]) (schema_of 3 [index_u1] []) 3
    [Materialize index_u1 None, Materialize index_u2 (Some index_u1), DropRows ''u2'']
    (schema_exec ?X MemEngine one_index (DropCall ''0'' ''c'' ''u2'') ?w2)"
    by (simp add: validate_identifier_def schema_eval revive_entries_def swap_entries_def schema_of_def index_u1_def index_u2_def)
  from create_calm [OF this _ _ _ _ _ known [of 3], of "''c''" "''g''" "''u3''" one_index "''0''"] show ?thesis
    by (simp add: validate_identifier_def schema_eval revive_entries_def swap_entries_def schema_of_def index_u1_def
        index_u2_def index_u3_def one_index_def revive_world_def revive_steps_def)
qed

text \<open>
  The background swap of a replaced index ignores that the new index was dropped
  meanwhile.  With a quota of one index, an index is replaced, the replacement is dropped and
  the freed place is given to another field; when the swap that was pending then runs, the
  dropped index is active again although the collection no longer has it, and the collection
  has two active indexes.
\<close>

theorem swap_revives_dropped_index:
  "\<exists>w. w = schema_exec (serde_of revive_entries) MemEngine one_index (RunTask 1) revive_world \<and>
    length (active_of (sw_state revive_world) ''c'') = 1 \<and> \<not> has_index w ''c'' ''u2'' \<and>
    query_index_for_field w ''c'' ''f'' = Some ''u2'' \<and>
    length (active_of (sw_state w) ''c'') > max_secondary_indexes_per_collection one_index"
proof -
  let ?w = "schema_exec (serde_of revive_entries) MemEngine one_index (RunTask 1) revive_world"
  have "calm (serde_of revive_entries) revive_entries (schema_of 4 [index_u3] [(''f'', ''u2''), (''g'', ''u3'')]) 4
      [Materialize index_u1 None, DropRows ''u2'', Materialize index_u3 None] ?w"
    and ready: "''u2'' \<in> sw_ready ?w"
    using swap_calm [OF revive_calm, of 1 index_u2 index_u1 one_index]
    by (simp_all add: serde_of_laws validate_identifier_def index_u1_def index_u2_def index_u3_def
        swap_replacement_def schema_of_def Let_def)
  thus ?thesis
    using revive_calm by (simp add: calm_def has_index_def query_index_for_field_def is_ready_def active_of_def schema_of_def
        one_index_def index_u3_def)
qed

end
