(* ===== verification/Api.thy ===== *)
theory Api
  imports Server Coordinator Schema
begin

text \<open>
  The HTTP API of \<open>crates/bashfuldb-api/src\<close>: errors and their responses, the idempotency
  cache, pagination, the authentication middleware, the handlers and the routing table.
  The services behind the API are the fields of \<open>app_state\<close>, over one shared state; axum's
  extractors are done, so a handler gets the parsed path, query and body.  A header
  map gives for a name whether the header is there and, if so, its text when it is
  visible ASCII.  \<open>serde_json\<close>, base64, \<open>StatusCode\<close> and UUIDs are the fields of
  \<open>api_ext\<close>; the object id a creation draws and the instants are arguments.
\<close>

section \<open>Messages\<close>

fun show_hex :: "nat \<Rightarrow> string" where
  "show_hex n = (if n < 16 then [hex_digit n] else show_hex (n div 16) @ [hex_digit (n mod 16)])"

declare show_hex.simps [simp del]

text \<open>\<open>Display\<close> of the document errors; \<open>dbg\<close> quotes a string and \<open>flt\<close> prints a float.\<close>

definition show_document_error :: "(string \<Rightarrow> string) \<Rightarrow> (f64 \<Rightarrow> string) \<Rightarrow> document_error \<Rightarrow> string" where
  "show_document_error dbg flt e =
    (case e of
       NestingDepthExceeded d m \<Rightarrow> ''nesting depth exceeded: '' @ show_nat d @ '' > '' @ show_nat m
     | ValueTooLarge k s m \<Rightarrow> k @ '' size '' @ show_nat s @ '' exceeds maximum '' @ show_nat m
     | ArrayTooLarge c m \<Rightarrow> ''array has '' @ show_nat c @ '' elements, maximum is '' @ show_nat m
     | ObjectTooManyKeys c m \<Rightarrow> ''object has '' @ show_nat c @ '' keys, maximum is '' @ show_nat m
     | InvalidName n \<Rightarrow> ''invalid name '' @ dbg n @ '': must match [a-z0-9_]{1,64}''
     | ReservedName n \<Rightarrow> ''name '' @ dbg n @ '' is reserved''
     | NotAnObject actual \<Rightarrow> ''document top-level value must be an Object, got '' @ actual
     | UnknownTypeTag tag \<Rightarrow> ''unknown type tag: 0x'' @ [hex_digit (unat tag div 16), hex_digit (unat tag mod 16)]
     | document_error.UnexpectedEof off \<Rightarrow> ''unexpected end of input at offset '' @ show_nat off
     | InvalidUtf8 off \<Rightarrow> ''invalid UTF-8 at offset '' @ show_nat off
     | NonFiniteFloat v \<Rightarrow> ''non-finite float value: '' @ flt v
     | UnsupportedCodecVersion v \<Rightarrow> ''unsupported codec version: '' @ show_nat (unat v)
     | TrailingBytes off c \<Rightarrow> ''trailing bytes: '' @ show_nat c @ '' bytes remaining after offset '' @ show_nat off
     | KeyTooLarge s m \<Rightarrow> ''object key size '' @ show_nat s @ '' exceeds maximum '' @ show_nat m)"

definition show_replication_error ::
  "(string \<Rightarrow> string) \<Rightarrow> (f64 \<Rightarrow> string) \<Rightarrow> replication_error \<Rightarrow> string" where
  "show_replication_error dbg flt e =
    (case e of
       InsufficientReplicas n a \<Rightarrow> ''insufficient replicas: need '' @ show_nat n @ '', got '' @ show_nat a
     | IdempotencyConflict \<Rightarrow> ''idempotency conflict: same key submitted with a different payload''
     | TransportError m \<Rightarrow> ''transport error: '' @ m
     | Serialization m \<Rightarrow> ''serialization error: '' @ m
     | ReplStorage err \<Rightarrow> ''storage error: '' @ storage_error_display dbg err
     | ReplClock err \<Rightarrow> ''clock error: '' @ show_clock_error err
     | ReplDocument err \<Rightarrow> ''document error: '' @ show_document_error dbg flt err
     | ReplVectorClock err \<Rightarrow> ''vector clock error: '' @ show_clock_error err)"

text \<open>\<open>Debug\<close> of a vector clock.\<close>

definition debug_vector_clock :: "vector_clock \<Rightarrow> string" where
  "debug_vector_clock v = ''VectorClock('' @ show_nat (length (vc_entries v)) @ '' entries)''"

section \<open>Parameters, errors, responses\<close>

record 'n api_ext =
  ax_rep :: rep_ext
  ax_debug :: "string \<Rightarrow> string"
  ax_show_float :: "f64 \<Rightarrow> string"
  ax_parse_json :: "bytes \<Rightarrow> (string, 'n json) result"
  ax_as_i64 :: "'n \<Rightarrow> i64 option"
  ax_as_f64 :: "'n \<Rightarrow> f64 option"
  ax_show_number :: "'n \<Rightarrow> string"
  ax_to_value :: "doc_value \<Rightarrow> 'n json option"
  ax_b64_encode :: "bytes \<Rightarrow> string"
  ax_b64_decode :: "string \<Rightarrow> bytes option"
  ax_status :: "nat \<Rightarrow> nat option"

datatype api_error =
    BadRequest string
  | Unauthorized string
  | Forbidden string
  | NotFound string
  | Conflict string
  | PreconditionFailed string
  | TooManyRequests string
  | GatewayTimeout string
  | ApiInternal string

definition show_api_error :: "api_error \<Rightarrow> string" where
  "show_api_error e =
    (case e of
       BadRequest m \<Rightarrow> ''bad request: '' @ m
     | Unauthorized m \<Rightarrow> ''unauthorized: '' @ m
     | Forbidden m \<Rightarrow> ''forbidden: '' @ m
     | NotFound m \<Rightarrow> ''not found: '' @ m
     | Conflict m \<Rightarrow> ''conflict: '' @ m
     | PreconditionFailed m \<Rightarrow> ''precondition failed: '' @ m
     | TooManyRequests m \<Rightarrow> ''too many requests: '' @ m
     | GatewayTimeout m \<Rightarrow> ''gateway timeout: '' @ m
     | ApiInternal m \<Rightarrow> ''internal server error: '' @ m)"

definition status_and_code :: "api_error \<Rightarrow> nat \<times> string" where
  "status_and_code e =
    (case e of
       BadRequest _ \<Rightarrow> (400, ''BAD_REQUEST'')
     | Unauthorized _ \<Rightarrow> (401, ''UNAUTHORIZED'')
     | Forbidden _ \<Rightarrow> (403, ''FORBIDDEN'')
     | NotFound _ \<Rightarrow> (404, ''NOT_FOUND'')
     | Conflict _ \<Rightarrow> (409, ''CONFLICT'')
     | PreconditionFailed _ \<Rightarrow> (412, ''PRECONDITION_FAILED'')
     | TooManyRequests _ \<Rightarrow> (429, ''TOO_MANY_REQUESTS'')
     | GatewayTimeout _ \<Rightarrow> (504, ''GATEWAY_TIMEOUT'')
     | ApiInternal _ \<Rightarrow> (500, ''INTERNAL_SERVER_ERROR''))"

record error_body =
  eb_error :: string
  eb_message :: string
  eb_status :: nat

record page_info =
  pg_next_cursor :: "string option"
  pg_count :: nat

record 'n list_response =
  lr_items :: "'n json list"
  lr_pagination :: page_info

record auth_response =
  ar_access_token :: string
  ar_refresh_token :: string
  ar_access_ttl_secs :: u64
  ar_refresh_ttl_secs :: u64

record node_summary =
  ns_id :: string
  ns_vnode_count :: nat
  ns_state :: string

record ring_response =
  rg_vnode_count :: nat
  rg_node_count :: nat

datatype 'n http_body =
    NoBody
  | JsonBody "'n json"
  | ListBody "'n list_response"
  | AuthBody auth_response
  | NodesBody "node_summary list"
  | RingBody ring_response
  | ErrorBody error_body

record 'n http_response =
  rs_status :: nat
  rs_headers :: "(string \<times> string) list"
  rs_body :: "'n http_body"

definition into_response :: "api_error \<Rightarrow> 'n http_response" where
  "into_response e =
    (let (status, code) = status_and_code e
     in \<lparr>rs_status = status, rs_headers = [],
         rs_body = ErrorBody \<lparr>eb_error = code, eb_message = show_api_error e, eb_status = status\<rparr>\<rparr>)"

definition from_auth_error :: "'n api_ext \<Rightarrow> auth_error \<Rightarrow> api_error" where
  "from_auth_error X e =
    (case e of
       InvalidCredentials \<Rightarrow> Unauthorized ''invalid credentials''
     | TokenExpired \<Rightarrow> Unauthorized ''token expired''
     | InvalidToken reason \<Rightarrow> Unauthorized (''invalid token: '' @ reason)
     | TokenRevoked \<Rightarrow> Unauthorized ''token revoked''
     | PermissionDenied a res \<Rightarrow> Forbidden (''permission denied: '' @ debug_action a @ '' on '' @ res)
     | UserNotFound username \<Rightarrow> NotFound (''user not found: '' @ username)
     | other \<Rightarrow> ApiInternal (show_auth_error (ax_debug X) other))"

definition from_replication_error :: "'n api_ext \<Rightarrow> replication_error \<Rightarrow> api_error" where
  "from_replication_error X e =
    (let message = show_replication_error (ax_debug X) (ax_show_float X) e
     in case e of
          InsufficientReplicas _ _ \<Rightarrow> GatewayTimeout message
        | IdempotencyConflict \<Rightarrow> Conflict ''idempotency key reused with different payload''
        | _ \<Rightarrow> ApiInternal message)"

definition from_document_error :: "'n api_ext \<Rightarrow> document_error \<Rightarrow> api_error" where
  "from_document_error X e = BadRequest (show_document_error (ax_debug X) (ax_show_float X) e)"

section \<open>The idempotency cache\<close>

text \<open>An instant is a number of nanoseconds.\<close>

definition RETENTION :: nat where "RETENTION = 15 * 60 * 1000000000"

record 'n cached_response =
  ca_body :: "'n json"
  ca_status :: nat
  ca_payload_hash :: u64
  ca_stored_at :: nat

type_synonym 'n api_cache = "string \<Rightarrow> 'n cached_response option"

definition hash_payload :: "bytes \<Rightarrow> u64" where
  "hash_payload payload =
    fold (\<lambda>byte hash. xor hash (ucast byte) * 0x100000001b3) payload 0xcbf29ce484222325"

definition prune :: "nat \<Rightarrow> 'n api_cache \<Rightarrow> 'n api_cache" where
  "prune now cache = (\<lambda>k.
    case cache k of
      None \<Rightarrow> None
    | Some v \<Rightarrow> if now - ca_stored_at v < RETENTION then Some v else None)"

definition cache_get ::
  "nat \<Rightarrow> string \<Rightarrow> u64 \<Rightarrow> ('n api_cache, unit, 'n cached_response option) act" where
  "cache_get now k payload_hash = (\<lambda>cache0.
    let cache = prune now cache0
    in case cache k of
         None \<Rightarrow> (Some (Ok None), cache)
       | Some entry \<Rightarrow>
           if ca_payload_hash entry = payload_hash then (Some (Ok (Some entry)), cache)
           else (Some (Err ()), cache))"

definition cache_store ::
  "nat \<Rightarrow> string \<Rightarrow> u64 \<Rightarrow> 'n json \<Rightarrow> nat \<Rightarrow> 'n api_cache \<Rightarrow> 'n api_cache" where
  "cache_store now k payload_hash body status cache =
    cache(k \<mapsto> \<lparr>ca_body = body, ca_status = status, ca_payload_hash = payload_hash, ca_stored_at = now\<rparr>)"

section \<open>Pagination\<close>

definition encode_cursor :: "'n api_ext \<Rightarrow> object_id \<Rightarrow> string" where
  "encode_cursor X i = ax_b64_encode X (oid_to_bytes i)"

definition decode_cursor :: "'n api_ext \<Rightarrow> string \<Rightarrow> object_id option" where
  "decode_cursor X cursor =
    (case ax_b64_decode X cursor of
       None \<Rightarrow> None
     | Some bs \<Rightarrow> if length bs = 16 then Some (oid_from_bytes bs) else None)"

definition parse_cursor_param :: "'n api_ext \<Rightarrow> string option \<Rightarrow> (api_error, object_id option) result" where
  "parse_cursor_param X s =
    (case s of
       None \<Rightarrow> Ok None
     | Some c \<Rightarrow>
         (case decode_cursor X c of
            None \<Rightarrow> Err (BadRequest (''invalid cursor: '' @ c))
          | Some i \<Rightarrow> Ok (Some i)))"

definition effective_limit :: "nat option \<Rightarrow> nat \<Rightarrow> nat \<Rightarrow> nat" where
  "effective_limit requested default_size cap =
    min (case requested of None \<Rightarrow> default_size | Some n \<Rightarrow> n) cap"

fun position :: "('a \<Rightarrow> bool) \<Rightarrow> 'a list \<Rightarrow> nat option" where
  "position P [] = None"
| "position P (x # xs) = (if P x then Some 0 else map_option Suc (position P xs))"

text \<open>\<open>start + limit\<close> is far from the bound of \<open>usize\<close>: \<open>limit\<close> is at most the page size cap.\<close>

definition paginate_ids ::
  "'n api_ext \<Rightarrow> object_id list \<Rightarrow> object_id option \<Rightarrow> nat \<Rightarrow> object_id list \<times> string option" where
  "paginate_ids X all_ids cursor limit =
    (let start = (case cursor of
           None \<Rightarrow> 0
         | Some after_id \<Rightarrow> (case position (\<lambda>i. i = after_id) all_ids of None \<Rightarrow> 0 | Some i \<Rightarrow> i + 1));
         page = take limit (drop start all_ids);
         next_cursor = (if start + limit < length all_ids
           then (if page = [] then None else Some (encode_cursor X (last page))) else None)
     in (page, next_cursor))"

section \<open>State\<close>

record api_config =
  default_page_size :: nat
  max_page_size :: nat

definition api_config_default :: api_config where
  "api_config_default = \<lparr>default_page_size = 100, max_page_size = 1000\<rparr>"

record 'w app_state =
  ap_authenticator :: "'w authenticator"
  ap_check :: "claims \<Rightarrow> action \<Rightarrow> resource \<Rightarrow> ('w, auth_error, unit) act"
  ap_read :: "object_key \<Rightarrow> ('w, replication_error, read_result) act"
  ap_write :: "object_key \<Rightarrow> document \<Rightarrow> string option \<Rightarrow> ('w, replication_error, write_result) act"
  ap_delete :: "object_key \<Rightarrow> ('w, replication_error, write_result) act"
  ap_schema :: "string \<Rightarrow> 'w \<Rightarrow> collection_schema option"
  ap_config :: api_config

record ('w, 'n) api_state =
  st_world :: 'w
  st_idem :: "'n api_cache"

definition api_state_new :: "'w \<Rightarrow> ('w, 'n) api_state" where
  "api_state_new w = \<lparr>st_world = w, st_idem = Map.empty\<rparr>"

type_synonym ('w, 'n, 'a) api_act = "(('w, 'n) api_state, api_error, 'a) act"

definition on_service :: "('e \<Rightarrow> api_error) \<Rightarrow> ('w, 'e, 'a) act \<Rightarrow> ('w, 'n, 'a) api_act" where
  "on_service conv m = (\<lambda>s. case m (st_world s) of
    (r, w) \<Rightarrow> (map_option (map_sum conv id) r, s\<lparr>st_world := w\<rparr>))"

section \<open>Requests\<close>

type_synonym header_map = "string \<Rightarrow> string option option"

record object_path =
  pa_tenant :: string
  pa_db :: string
  pa_coll :: string

record list_query =
  lq_cursor :: "string option"
  lq_limit :: "nat option"
  lq_filter_field :: "string option"

definition strip_bearer :: "string \<Rightarrow> string option" where
  "strip_bearer v = (if take 7 v = ''Bearer '' then Some (drop 7 v) else None)"

definition extract_bearer :: "header_map \<Rightarrow> (api_error, string) result" where
  "extract_bearer headers =
    (case headers ''authorization'' of
       None \<Rightarrow> Err (Unauthorized ''missing Authorization header'')
     | Some None \<Rightarrow> Err (Unauthorized ''malformed Authorization header'')
     | Some (Some v) \<Rightarrow>
         (case strip_bearer v of
            None \<Rightarrow> Err (Unauthorized ''expected Bearer token'')
          | Some token \<Rightarrow> Ok token))"

definition auth_middleware ::
  "'n api_ext \<Rightarrow> 'w app_state \<Rightarrow> header_map \<Rightarrow> (claims \<Rightarrow> ('w, 'n, 'a) api_act) \<Rightarrow> ('w, 'n, 'a) api_act" where
  "auth_middleware X A headers next_handler =
    act_bind (act_of_result (extract_bearer headers)) (\<lambda>token.
    act_bind (on_service (from_auth_error X) (a_verify (ap_authenticator A) token)) next_handler)"

section \<open>Object handlers\<close>

definition validate_path_names :: "'n api_ext \<Rightarrow> object_path \<Rightarrow> (api_error, unit) result" where
  "validate_path_names X p =
    (let check = (\<lambda>name. map_sum (from_document_error X) id (validate_name name))
     in case check (pa_tenant p) of
          Err e \<Rightarrow> Err e
        | Ok _ \<Rightarrow> (case check (pa_db p) of Err e \<Rightarrow> Err e | Ok _ \<Rightarrow> check (pa_coll p)))"

definition collection_key :: "object_path \<Rightarrow> string" where
  "collection_key p = pa_tenant p @ ''/'' @ pa_db p @ ''/'' @ pa_coll p"

definition path_resource :: "object_path \<Rightarrow> resource" where
  "path_resource p = resource_collection (pa_tenant p) (pa_db p) (pa_coll p)"

definition doc_response :: "'n api_ext \<Rightarrow> document \<Rightarrow> 'n json" where
  "doc_response X d =
    (let obj = (case ax_to_value X (doc_data d) of Some (JObject m) \<Rightarrow> m | _ \<Rightarrow> [])
     in JObject (bt_insert ''_id'' (JString (show_oid (ax_rep X) (doc_id d))) obj))"

definition opt_header :: "header_map \<Rightarrow> string \<Rightarrow> string option" where
  "opt_header headers name = (case headers name of Some (Some v) \<Rightarrow> Some v | _ \<Rightarrow> None)"

definition hash_body :: "bytes \<Rightarrow> u64" where
  "hash_body body = hash_payload body"

definition etag_from_version :: "vector_clock \<Rightarrow> string" where
  "etag_from_version v =
    CHR 0x22 # show_hex (unat (hash_payload (as_bytes (debug_vector_clock v)))) @ [CHR 0x22]"

text \<open>\<open>str::trim_matches\<close> with the quotation mark.\<close>

definition trim_quotes :: "string \<Rightarrow> string" where
  "trim_quotes s = rev (dropWhile (\<lambda>c. c = CHR 0x22) (rev (dropWhile (\<lambda>c. c = CHR 0x22) s)))"

definition check_if_match :: "header_map \<Rightarrow> string \<Rightarrow> (api_error, unit) result" where
  "check_if_match headers current_etag =
    (case opt_header headers ''if-match'' of
       None \<Rightarrow> Ok ()
     | Some if_match \<Rightarrow>
         let wanted = trim_quotes if_match; current = trim_quotes current_etag
         in if wanted \<noteq> ''*'' \<and> wanted \<noteq> current
            then Err (PreconditionFailed (''ETag mismatch: got '' @ if_match @ '', current is '' @ current_etag))
            else Ok ())"

definition guard_query ::
  "'w app_state \<Rightarrow> 'w \<Rightarrow> string \<Rightarrow> string option \<Rightarrow> (api_error, unit) result" where
  "guard_query A w coll_key filter_field =
    (case filter_field of
       None \<Rightarrow> Ok ()
     | Some field \<Rightarrow>
         let indexed = (case ap_schema A coll_key w of
               None \<Rightarrow> False
             | Some s \<Rightarrow> list_ex (\<lambda>idx. ix_field idx = field) (cs_indexes s))
         in if \<not> indexed
            then Err (BadRequest (''field '' @ [CHR 0x27] @ field @ [CHR 0x27] @ '' is not indexed on collection '' @ [CHR 0x27] @ coll_key
              @ [CHR 0x27] @ ''; create an index before filtering on it''))
            else Ok ())"

definition parse_object_id :: "'n api_ext \<Rightarrow> string \<Rightarrow> (api_error, object_id) result" where
  "parse_object_id X s =
    (case uuid_parse (ax_rep X) s of
       None \<Rightarrow> Err (BadRequest (''invalid object id: '' @ s))
     | Some u \<Rightarrow> Ok (ObjectId u))"

fun json_to_value :: "'n api_ext \<Rightarrow> 'n json \<Rightarrow> (api_error, doc_value) result"
  and json_items :: "'n api_ext \<Rightarrow> 'n json list \<Rightarrow> (api_error, doc_value list) result"
  and json_fields :: "'n api_ext \<Rightarrow> (string \<times> 'n json) list \<Rightarrow> (string, doc_value) btree \<Rightarrow>
    (api_error, (string, doc_value) btree) result" where
  "json_to_value X JNull = Ok VNull"
| "json_to_value X (JBool b) = Ok (VBool b)"
| "json_to_value X (JNumber n) =
    (case ax_as_i64 X n of
       Some i \<Rightarrow> Ok (VInt i)
     | None \<Rightarrow>
         (case ax_as_f64 X n of
            Some f \<Rightarrow> Ok (VFloat f)
          | None \<Rightarrow> Err (BadRequest (''unsupported number: '' @ ax_show_number X n))))"
| "json_to_value X (JString s) = Ok (VString s)"
| "json_to_value X (JArray arr) = map_sum id VArray (json_items X arr)"
| "json_to_value X (JObject m) = map_sum id VObject (json_fields X m [])"
| "json_items X [] = Ok []"
| "json_items X (j # js) =
    (case json_to_value X j of
       Err e \<Rightarrow> Err e
     | Ok v \<Rightarrow> (case json_items X js of Err e \<Rightarrow> Err e | Ok vs \<Rightarrow> Ok (v # vs)))"
| "json_fields X [] acc = Ok acc"
| "json_fields X ((k, j) # m) acc =
    (case json_to_value X j of Err e \<Rightarrow> Err e | Ok v \<Rightarrow> json_fields X m (bt_insert k v acc))"

definition authorize :: "'n api_ext \<Rightarrow> 'w app_state \<Rightarrow> claims \<Rightarrow> action \<Rightarrow> resource \<Rightarrow> ('w, 'n, unit) api_act" where
  "authorize X A cl a res = on_service (from_auth_error X) (ap_check A cl a res)"

text \<open>The listing reads no store: the list of ids is empty.\<close>

definition list_objects ::
  "'n api_ext \<Rightarrow> 'w app_state \<Rightarrow> object_path \<Rightarrow> list_query \<Rightarrow> claims \<Rightarrow> ('w, 'n, 'n http_response) api_act" where
  "list_objects X A p q cl =
    act_bind (act_of_result (validate_path_names X p)) (\<lambda>_.
    act_bind (authorize X A cl ActRead (path_resource p)) (\<lambda>_ s.
    act_bind (act_of_result (guard_query A (st_world s) (collection_key p) (lq_filter_field q))) (\<lambda>_.
    let limit = effective_limit (lq_limit q) (default_page_size (ap_config A)) (max_page_size (ap_config A))
    in act_bind (act_of_result (parse_cursor_param X (lq_cursor q))) (\<lambda>after_id.
       let (page_ids, next_cursor) = paginate_ids X [] after_id limit;
           items = map (\<lambda>i. JObject [(''_id'', JString (show_oid (ax_rep X) i))]) page_ids
       in act_ok \<lparr>rs_status = 200, rs_headers = [], rs_body = ListBody \<lparr>lr_items = items,
            lr_pagination = \<lparr>pg_next_cursor = next_cursor, pg_count = length items\<rparr>\<rparr>\<rparr>)) s))"

text \<open>The idempotency check: the cached response, if there is one for the key and the payload.\<close>

definition replay_cached ::
  "'n api_ext \<Rightarrow> nat \<Rightarrow> string option \<Rightarrow> u64 \<Rightarrow> nat \<Rightarrow> ('w, 'n, 'n http_response option) api_act" where
  "replay_cached X now idem_key payload_hash fallback =
    (case idem_key of
       None \<Rightarrow> act_ok None
     | Some k \<Rightarrow> (\<lambda>s. case cache_get now k payload_hash (st_idem s) of
           (Some (Ok (Some entry)), cache) \<Rightarrow>
             (Some (Ok (Some \<lparr>rs_status = (case ax_status X (ca_status entry) of None \<Rightarrow> fallback | Some st \<Rightarrow> st),
                rs_headers = [], rs_body = JsonBody (ca_body entry)\<rparr>)), s\<lparr>st_idem := cache\<rparr>)
         | (Some (Ok None), cache) \<Rightarrow> (Some (Ok None), s\<lparr>st_idem := cache\<rparr>)
         | (Some (Err _), cache) \<Rightarrow>
             (Some (Err (Conflict ''idempotency key reused with different payload'')), s\<lparr>st_idem := cache\<rparr>)
         | (None, cache) \<Rightarrow> (None, s\<lparr>st_idem := cache\<rparr>)))"

definition cache_response ::
  "nat \<Rightarrow> string option \<Rightarrow> u64 \<Rightarrow> 'n json \<Rightarrow> nat \<Rightarrow> ('w, 'n, unit) api_act" where
  "cache_response now idem_key payload_hash body status = (\<lambda>s. (Some (Ok ()),
    case idem_key of
      None \<Rightarrow> s
    | Some k \<Rightarrow> s\<lparr>st_idem := cache_store now k payload_hash body status (st_idem s)\<rparr>))"

definition parse_body :: "'n api_ext \<Rightarrow> bytes \<Rightarrow> (api_error, 'n json) result" where
  "parse_body X body = map_sum (\<lambda>e. BadRequest (''invalid JSON: '' @ e)) id (ax_parse_json X body)"

definition location_of :: "'n api_ext \<Rightarrow> object_path \<Rightarrow> object_id \<Rightarrow> string" where
  "location_of X p i = ''/v1/tenants/'' @ pa_tenant p @ ''/databases/'' @ pa_db p @ ''/collections/'' @ pa_coll p
    @ ''/objects/'' @ show_oid (ax_rep X) i"

definition create_object ::
  "'n api_ext \<Rightarrow> 'w app_state \<Rightarrow> nat \<Rightarrow> nat \<Rightarrow> object_id \<Rightarrow> object_path \<Rightarrow> header_map \<Rightarrow> claims \<Rightarrow> bytes \<Rightarrow>
    ('w, 'n, 'n http_response) api_act" where
  "create_object X A t_get t_store fresh p headers cl body =
    act_bind (act_of_result (validate_path_names X p)) (\<lambda>_.
    act_bind (authorize X A cl ActCreate (path_resource p)) (\<lambda>_.
    let idem_key = opt_header headers ''idempotency-key''; payload_hash = hash_body body
    in act_bind (replay_cached X t_get idem_key payload_hash 201) (\<lambda>hit.
       case hit of
         Some resp \<Rightarrow> act_ok resp
       | None \<Rightarrow>
           act_bind (act_of_result (parse_body X body)) (\<lambda>json_value.
           act_bind (act_of_result (json_to_value X json_value)) (\<lambda>data.
           act_bind (act_of_result (map_sum (from_document_error X) id (document_new fresh data))) (\<lambda>doc.
           let obj_key = \<lparr>ok_collection = collection_key p, ok_object_id = doc_id doc\<rparr>
           in act_bind (on_service (from_replication_error X) (ap_write A obj_key doc idem_key)) (\<lambda>_.
              let resp_body = doc_response X doc
              in act_bind (cache_response t_store idem_key payload_hash resp_body 201) (\<lambda>_.
                 act_ok \<lparr>rs_status = 201, rs_headers = [(''location'', location_of X p (doc_id doc))],
                   rs_body = JsonBody resp_body\<rparr>))))))))"

definition not_found :: "'n api_ext \<Rightarrow> object_id \<Rightarrow> string \<Rightarrow> api_error" where
  "not_found X i coll_key = NotFound (''object '' @ show_oid (ax_rep X) i @ '' not found in '' @ coll_key)"

definition get_object ::
  "'n api_ext \<Rightarrow> 'w app_state \<Rightarrow> object_path \<Rightarrow> string \<Rightarrow> claims \<Rightarrow> ('w, 'n, 'n http_response) api_act" where
  "get_object X A p id_text cl =
    act_bind (act_of_result (validate_path_names X p)) (\<lambda>_.
    act_bind (act_of_result (parse_object_id X id_text)) (\<lambda>i.
    act_bind (authorize X A cl ActRead (path_resource p)) (\<lambda>_.
    let coll_key = collection_key p
    in act_bind (on_service (from_replication_error X) (ap_read A \<lparr>ok_collection = coll_key, ok_object_id = i\<rparr>)) (\<lambda>result.
       case rr_document result of
         None \<Rightarrow> act_err (not_found X i coll_key)
       | Some doc \<Rightarrow> act_ok \<lparr>rs_status = 200, rs_headers = [(''etag'', etag_from_version (rr_version result))],
           rs_body = JsonBody (doc_response X doc)\<rparr>))))"

definition upsert_object ::
  "'n api_ext \<Rightarrow> 'w app_state \<Rightarrow> nat \<Rightarrow> nat \<Rightarrow> object_path \<Rightarrow> string \<Rightarrow> header_map \<Rightarrow> claims \<Rightarrow> bytes \<Rightarrow>
    ('w, 'n, 'n http_response) api_act" where
  "upsert_object X A t_get t_store p id_text headers cl body =
    act_bind (act_of_result (validate_path_names X p)) (\<lambda>_.
    act_bind (act_of_result (parse_object_id X id_text)) (\<lambda>i.
    act_bind (authorize X A cl ActUpdate (path_resource p)) (\<lambda>_.
    let idem_key = opt_header headers ''idempotency-key''; payload_hash = hash_body body
    in act_bind (replay_cached X t_get idem_key payload_hash 200) (\<lambda>hit.
       case hit of
         Some resp \<Rightarrow> act_ok resp
       | None \<Rightarrow>
           act_bind (act_of_result (parse_body X body)) (\<lambda>json_value.
           let obj_key = \<lparr>ok_collection = collection_key p, ok_object_id = i\<rparr>
           in act_bind (act_try (on_service (from_replication_error X) (ap_read A obj_key))) (\<lambda>existing.
              let is_new = (case existing of Err _ \<Rightarrow> True | Ok r \<Rightarrow> rr_document r = None)
              in act_bind (case existing of
                     Err _ \<Rightarrow> act_ok ()
                   | Ok r \<Rightarrow> if is_new then act_ok ()
                       else act_of_result (check_if_match headers (etag_from_version (rr_version r)))) (\<lambda>_.
                 act_bind (act_of_result (json_to_value X json_value)) (\<lambda>data.
                 act_bind (act_of_result (map_sum (from_document_error X) id (document_new i data))) (\<lambda>doc.
                 act_bind (on_service (from_replication_error X) (ap_write A obj_key doc idem_key)) (\<lambda>_.
                 let resp_body = doc_response X doc; status = (if is_new then 201 else 200)
                 in act_bind (cache_response t_store idem_key payload_hash resp_body status) (\<lambda>_.
                    act_ok \<lparr>rs_status = status, rs_headers = [], rs_body = JsonBody resp_body\<rparr>)))))))))))"

definition delete_object ::
  "'n api_ext \<Rightarrow> 'w app_state \<Rightarrow> object_path \<Rightarrow> string \<Rightarrow> header_map \<Rightarrow> claims \<Rightarrow> ('w, 'n, 'n http_response) api_act" where
  "delete_object X A p id_text headers cl =
    act_bind (act_of_result (validate_path_names X p)) (\<lambda>_.
    act_bind (act_of_result (parse_object_id X id_text)) (\<lambda>i.
    act_bind (authorize X A cl ActDelete (path_resource p)) (\<lambda>_.
    let coll_key = collection_key p; obj_key = \<lparr>ok_collection = coll_key, ok_object_id = i\<rparr>
    in act_bind (on_service (from_replication_error X) (ap_read A obj_key)) (\<lambda>existing.
       if rr_document existing = None then act_err (not_found X i coll_key)
       else act_bind (act_of_result (check_if_match headers (etag_from_version (rr_version existing)))) (\<lambda>_.
            act_bind (on_service (from_replication_error X) (ap_delete A obj_key)) (\<lambda>_.
            act_ok \<lparr>rs_status = 204, rs_headers = [], rs_body = NoBody\<rparr>))))))"

section \<open>Authentication and administration handlers\<close>

definition auth_response_of :: "token_pair \<Rightarrow> 'n http_response" where
  "auth_response_of tokens = \<lparr>rs_status = 200, rs_headers = [], rs_body = AuthBody
    \<lparr>ar_access_token = access_token tokens, ar_refresh_token = refresh_token tokens,
     ar_access_ttl_secs = as_secs (tp_access_ttl tokens), ar_refresh_ttl_secs = as_secs (tp_refresh_ttl tokens)\<rparr>\<rparr>"

definition login_handler ::
  "'n api_ext \<Rightarrow> 'w app_state \<Rightarrow> string \<Rightarrow> string \<Rightarrow> ('w, 'n, 'n http_response) api_act" where
  "login_handler X A username password =
    act_bind (on_service (from_auth_error X) (a_login (ap_authenticator A) \<lparr>cr_username = username, cr_password = password\<rparr>))
      (\<lambda>tokens. act_ok (auth_response_of tokens))"

definition refresh_handler :: "'n api_ext \<Rightarrow> 'w app_state \<Rightarrow> string \<Rightarrow> ('w, 'n, 'n http_response) api_act" where
  "refresh_handler X A token =
    act_bind (on_service (from_auth_error X) (a_refresh (ap_authenticator A) token))
      (\<lambda>tokens. act_ok (auth_response_of tokens))"

definition logout_handler :: "'n api_ext \<Rightarrow> 'w app_state \<Rightarrow> header_map \<Rightarrow> ('w, 'n, 'n http_response) api_act" where
  "logout_handler X A headers =
    act_bind (act_of_result (extract_bearer headers)) (\<lambda>token.
    act_bind (on_service (from_auth_error X) (a_logout (ap_authenticator A) token)) (\<lambda>_.
    act_ok \<lparr>rs_status = 204, rs_headers = [], rs_body = NoBody\<rparr>))"

definition list_nodes :: "'n api_ext \<Rightarrow> 'w app_state \<Rightarrow> claims \<Rightarrow> ('w, 'n, 'n http_response) api_act" where
  "list_nodes X A cl =
    act_bind (authorize X A cl ManageCluster resource_cluster) (\<lambda>_.
    act_ok \<lparr>rs_status = 200, rs_headers = [], rs_body = NodesBody []\<rparr>)"

definition ring_info :: "'n api_ext \<Rightarrow> 'w app_state \<Rightarrow> claims \<Rightarrow> ('w, 'n, 'n http_response) api_act" where
  "ring_info X A cl =
    act_bind (authorize X A cl ManageCluster resource_cluster) (\<lambda>_.
    act_ok \<lparr>rs_status = 200, rs_headers = [], rs_body = RingBody \<lparr>rg_vnode_count = 0, rg_node_count = 0\<rparr>\<rparr>)"

section \<open>Routes\<close>

datatype api_request =
    LoginReq string string
  | RefreshReq string
  | LogoutReq header_map
  | ListReq header_map object_path list_query
  | CreateReq header_map object_path bytes
  | GetReq header_map object_path string
  | PutReq header_map object_path string bytes
  | DeleteReq header_map object_path string
  | NodesReq header_map
  | RingReq header_map

fun build_router ::
  "'n api_ext \<Rightarrow> 'w app_state \<Rightarrow> nat \<Rightarrow> nat \<Rightarrow> object_id \<Rightarrow> api_request \<Rightarrow> ('w, 'n, 'n http_response) api_act" where
  "build_router X A t_get t_store fresh (LoginReq u pw) = login_handler X A u pw"
| "build_router X A t_get t_store fresh (RefreshReq token) = refresh_handler X A token"
| "build_router X A t_get t_store fresh (LogoutReq hs) = logout_handler X A hs"
| "build_router X A t_get t_store fresh (ListReq hs p q) = auth_middleware X A hs (list_objects X A p q)"
| "build_router X A t_get t_store fresh (CreateReq hs p body) =
    auth_middleware X A hs (\<lambda>cl. create_object X A t_get t_store fresh p hs cl body)"
| "build_router X A t_get t_store fresh (GetReq hs p i) = auth_middleware X A hs (get_object X A p i)"
| "build_router X A t_get t_store fresh (PutReq hs p i body) =
    auth_middleware X A hs (\<lambda>cl. upsert_object X A t_get t_store p i hs cl body)"
| "build_router X A t_get t_store fresh (DeleteReq hs p i) =
    auth_middleware X A hs (delete_object X A p i hs)"
| "build_router X A t_get t_store fresh (NodesReq hs) = auth_middleware X A hs (list_nodes X A)"
| "build_router X A t_get t_store fresh (RingReq hs) = auth_middleware X A hs (ring_info X A)"

text \<open>What the client gets: an error becomes its response; a panic gives none.\<close>

definition serve_request ::
  "'n api_ext \<Rightarrow> 'w app_state \<Rightarrow> nat \<Rightarrow> nat \<Rightarrow> object_id \<Rightarrow> api_request \<Rightarrow> ('w, 'n) api_state \<Rightarrow>
    'n http_response option \<times> ('w, 'n) api_state" where
  "serve_request X A t_get t_store fresh req s =
    (case build_router X A t_get t_store fresh req s of
       (None, s') \<Rightarrow> (None, s')
     | (Some (Ok r), s') \<Rightarrow> (Some r, s')
     | (Some (Err e), s') \<Rightarrow> (Some (into_response e), s'))"

end
