(* ===== verification/Http.thy ===== *)
theory Http
  imports Api
begin

text \<open>
  What the HTTP API guarantees: who reaches the data, replayed creations, conditional
  updates, and paging through a list.
\<close>

section \<open>Access control\<close>

definition rbac_authorizer :: "claims \<Rightarrow> action \<Rightarrow> resource \<Rightarrow> ('w, auth_error, unit) act" where
  "rbac_authorizer cl a res = act_of_result (rbac_check cl a res)"

fun object_request :: "api_request \<Rightarrow> (header_map \<times> action \<times> object_path) option" where
  "object_request (ListReq hs p q) = Some (hs, ActRead, p)"
| "object_request (CreateReq hs p body) = Some (hs, ActCreate, p)"
| "object_request (GetReq hs p i) = Some (hs, ActRead, p)"
| "object_request (PutReq hs p i body) = Some (hs, ActUpdate, p)"
| "object_request (DeleteReq hs p i) = Some (hs, ActDelete, p)"
| "object_request _ = None"

text \<open>Nothing but the verification of a token can have happened.\<close>

definition untouched :: "'w app_state \<Rightarrow> ('w, 'n) api_state \<Rightarrow> ('w, 'n) api_state \<Rightarrow> bool" where
  "untouched A s s' \<longleftrightarrow> st_idem s' = st_idem s \<and> (st_world s' = st_world s \<or>
    (\<exists>token. st_world s' = snd (a_verify (ap_authenticator A) token (st_world s))))"

text \<open>A handler that does nothing and fails when the claims do not allow the action.\<close>

definition guarded :: "'w app_state \<Rightarrow> action \<Rightarrow> object_path \<Rightarrow> (claims \<Rightarrow> ('w, 'n, 'a) api_act) \<Rightarrow> bool" where
  "guarded A a p h \<longleftrightarrow> (\<forall>cl s. rbac_check cl a (path_resource p) \<noteq> Ok () \<longrightarrow> (\<exists>e. h cl s = (Some (Err e), s)))"

lemma guarded_result: "(\<And>v. r = Ok v \<Longrightarrow> guarded A a p (h v)) \<Longrightarrow> guarded A a p (\<lambda>cl. act_bind (act_of_result r) (\<lambda>v. h v cl))"
  by (cases r) (auto simp: guarded_def act_bind_result)

lemma guarded_authorize:
  assumes "ap_check A = rbac_authorizer"
  shows "guarded A a p (\<lambda>cl. act_bind (authorize X A cl a (path_resource p)) (f cl))"
  unfolding guarded_def
proof (intro allI impI)
  fix cl s assume "rbac_check cl a (path_resource p) \<noteq> Ok ()"
  then obtain e where "rbac_check cl a (path_resource p) = Err e" by (cases "rbac_check cl a (path_resource p)") auto
  thus "\<exists>e. act_bind (authorize X A cl a (path_resource p)) (f cl) s = (Some (Err e), s)"
    using assms by (simp add: authorize_def on_service_def rbac_authorizer_def act_bind_def act_run)
qed

lemma handlers_guarded:
  assumes "ap_check A = rbac_authorizer"
  shows "guarded A ActRead p (list_objects X A p q)"
    "guarded A ActCreate p (\<lambda>cl. create_object X A t_get t_store fresh p hs cl body)"
    "guarded A ActRead p (get_object X A p i)"
    "guarded A ActUpdate p (\<lambda>cl. upsert_object X A t_get t_store p i hs cl body)"
    "guarded A ActDelete p (delete_object X A p i hs)"
  unfolding list_objects_def create_object_def get_object_def upsert_object_def delete_object_def
  by (intro guarded_result guarded_authorize assms)+

lemma middleware_guarded:
  assumes "guarded A a p h" "auth_middleware X A hs h s = (r, s')"
    and "\<not> untouched A s s' \<or> (\<exists>resp. r = Some (Ok resp))"
  shows "\<exists>token cl. extract_bearer hs = Ok token \<and>
    fst (a_verify (ap_authenticator A) token (st_world s)) = Some (Ok cl) \<and>
    rbac_check cl a (path_resource p) = Ok ()"
proof (cases "extract_bearer hs")
  case (Inl e)
  thus ?thesis using assms by (auto simp: auth_middleware_def act_bind_result untouched_def)
next
  case (Inr token)
  obtain v w where v: "a_verify (ap_authenticator A) token (st_world s) = (v, w)" by fastforce
  have w: "untouched A s (s\<lparr>st_world := w\<rparr>)" using v by (auto simp: untouched_def intro!: exI [of _ token])
  have run: "auth_middleware X A hs h s = (case v of
      None \<Rightarrow> (None, s\<lparr>st_world := w\<rparr>)
    | Some (Err e) \<Rightarrow> (Some (Err (from_auth_error X e)), s\<lparr>st_world := w\<rparr>)
    | Some (Ok cl) \<Rightarrow> h cl (s\<lparr>st_world := w\<rparr>))"
    using Inr v by (auto simp: auth_middleware_def act_bind_result on_service_def act_bind_def act_run split: option.splits sum.splits)
  show ?thesis
  proof (cases "\<exists>cl. v = Some (Ok cl)")
    case True
    then obtain cl where cl: "v = Some (Ok cl)" by blast
    have "rbac_check cl a (path_resource p) = Ok ()"
    proof (rule ccontr)
      assume "rbac_check cl a (path_resource p) \<noteq> Ok ()"
      then obtain e where "h cl (s\<lparr>st_world := w\<rparr>) = (Some (Err e), s\<lparr>st_world := w\<rparr>)"
        using assms(1) by (auto simp: guarded_def)
      thus False using assms(2,3) run cl w by auto
    qed
    thus ?thesis using Inr v cl by auto
  next
    case False
    thus ?thesis using assms(2,3) run w by (auto split: option.splits sum.splits)
  qed
qed

lemma router_guarded:
  assumes "ap_check A = rbac_authorizer" "object_request req = Some (hs, a, p)"
  shows "\<exists>h. guarded A a p h \<and> build_router X A t_get t_store fresh req = auth_middleware X A hs h"
proof (cases req)
  case (CreateReq hs' p' body)
  thus ?thesis using assms(2) handlers_guarded(2) [OF assms(1), of p X t_get t_store fresh hs body]
    by (intro exI [of _ "\<lambda>cl. create_object X A t_get t_store fresh p hs cl body"]) auto
next
  case (PutReq hs' p' i body)
  thus ?thesis using assms(2) handlers_guarded(4) [OF assms(1), of p X t_get t_store i hs body]
    by (intro exI [of _ "\<lambda>cl. upsert_object X A t_get t_store p i hs cl body"]) auto
next
  case (GetReq hs' p' i)
  thus ?thesis using assms(2) handlers_guarded(3) [OF assms(1), of p X i]
    by (intro exI [of _ "get_object X A p i"]) auto
next
  case (DeleteReq hs' p' i)
  thus ?thesis using assms(2) handlers_guarded(5) [OF assms(1), of p X i hs]
    by (intro exI [of _ "delete_object X A p i hs"]) auto
qed (use assms handlers_guarded(1) [OF assms(1)] in auto)

lemma error_status: "\<not> rs_status (into_response e) < 400"
  by (cases e) (simp_all add: into_response_def status_and_code_def)

text \<open>
  C4: access control.  When a request on an object route changes anything beyond
  what verifying a token changes, or is answered with success, its bearer token was
  verified to claims one of whose roles permits the action, and that are of the tenant of
  the path unless a server administrator's.
\<close>

theorem object_access_control:
  assumes "ap_check A = rbac_authorizer" "object_request req = Some (hs, a, p)"
    and "serve_request X A t_get t_store fresh req s = (r, s')"
    and "\<not> untouched A s s' \<or> (\<exists>resp. r = Some resp \<and> rs_status resp < 400)"
  shows "\<exists>token cl. extract_bearer hs = Ok token \<and>
    fst (a_verify (ap_authenticator A) token (st_world s)) = Some (Ok cl) \<and>
    (ServerAdmin \<in> set (cl_roles cl) \<or>
     cl_tenant cl = Some (pa_tenant p) \<and> (\<exists>ro \<in> set (cl_roles cl). permits ro a))"
proof -
  obtain h where h: "guarded A a p h" "build_router X A t_get t_store fresh req = auth_middleware X A hs h"
    using router_guarded [OF assms(1,2)] by blast
  obtain v where v: "auth_middleware X A hs h s = (v, s')"
    using assms(3) h(2) by (auto simp: serve_request_def split: prod.splits option.splits sum.splits)
  have "\<not> untouched A s s' \<or> (\<exists>resp. v = Some (Ok resp))"
    using assms(3,4) h(2) v by (auto simp: serve_request_def error_status split: option.splits sum.splits)
  then obtain token cl where "extract_bearer hs = Ok token"
    "fst (a_verify (ap_authenticator A) token (st_world s)) = Some (Ok cl)" "rbac_check cl a (path_resource p) = Ok ()"
    using middleware_guarded [OF h(1) v] by blast
  thus ?thesis
    by (auto simp: rbac_check_eq path_resource_def resource_collection_def split: if_splits)
qed

definition counting_app :: "nat app_state" where
  "counting_app = \<lparr>
     ap_authenticator = \<lparr>a_login = (\<lambda>_. act_err InvalidCredentials), a_refresh = (\<lambda>_. act_err TokenExpired),
       a_verify = (\<lambda>token. if token = ''t'' then act_ok (claims_new ''u'' (Some ''acme'') [ReadWrite] 0 9) else act_err TokenExpired),
       a_logout = (\<lambda>_. act_ok ())\<rparr>,
     ap_check = rbac_authorizer,
     ap_read = (\<lambda>key w. (Some (Ok \<lparr>rr_document = Some \<lparr>doc_id = ok_object_id key, doc_data = VObject []\<rparr>,
       rr_version = stamped (NodeId 1) (Hlc (of_nat w)), rr_repairs_triggered = 0\<rparr>), w)),
     ap_write = (\<lambda>key doc ikey w. (Some (Ok \<lparr>wres_version = stamped (NodeId 1) (Hlc (of_nat (w + 1))),
       wres_nodes_acked = 2, wres_hints_stored = 0\<rparr>), w + 1)),
     ap_delete = (\<lambda>key w. (Some (Ok \<lparr>wres_version = stamped (NodeId 1) (Hlc (of_nat (w + 1))),
       wres_nodes_acked = 2, wres_hints_stored = 0\<rparr>), w + 1)),
     ap_schema = (\<lambda>_ _. None), ap_config = api_config_default\<rparr>"

definition plain_ext :: "nat api_ext" where
  "plain_ext = \<lparr>ax_rep = \<lparr>uuid_show = (\<lambda>_. ''i''), uuid_parse = (\<lambda>_. Some 0), ser_versioned = (\<lambda>_. Err []),
       de_versioned = (\<lambda>_. Err []), ser_hint = (\<lambda>_. Err []), de_hint = (\<lambda>_. Err []), ser_document = (\<lambda>_. Err [])\<rparr>,
     ax_debug = id, ax_show_float = (\<lambda>_. []), ax_parse_json = (\<lambda>_. Ok (JObject [])), ax_as_i64 = (\<lambda>_. None),
     ax_as_f64 = (\<lambda>_. None), ax_show_number = (\<lambda>_. []), ax_to_value = (\<lambda>_. Some (JObject [])),
     ax_b64_encode = of_bytes, ax_b64_decode = (\<lambda>s. Some (as_bytes s)), ax_status = Some\<rparr>"

definition plain_path :: "string \<Rightarrow> object_path" where
  "plain_path coll = \<lparr>pa_tenant = ''acme'', pa_db = ''d'', pa_coll = coll\<rparr>"

definition plain_headers :: "(string \<times> string) list \<Rightarrow> header_map" where
  "plain_headers hs = (\<lambda>name. map_option Some (map_of hs name))"

lemma plain_facts:
  "validate_path_names plain_ext (plain_path ''c'') = Ok ()" "validate_path_names plain_ext (plain_path ''e'') = Ok ()"
  "rbac_check (claims_new ''u'' (Some ''acme'') [ReadWrite] 0 9) ActCreate (path_resource (plain_path c)) = Ok ()"
  "rbac_check (claims_new ''u'' (Some ''acme'') [ReadWrite] 0 9) ActUpdate (path_resource (plain_path c)) = Ok ()"
  by (simp_all add: validate_path_names_def plain_path_def validate_name_def is_name_byte_def as_bytes_def of_char_def Let_def
     rbac_check_eq claims_new_def path_resource_def resource_collection_def permits_def)

lemma plain_fields:
  "uuid_parse (ax_rep plain_ext) i = Some 0" "ax_parse_json plain_ext body = Ok (JObject [])"
  by (simp_all add: plain_ext_def)

theorem object_access_control_witness:
  "\<exists>r s'. serve_request plain_ext counting_app 0 0 (ObjectId 1) (CreateReq (plain_headers [(''authorization'', ''Bearer t'')])
      (plain_path ''c'') []) (api_state_new 0) = (r, s') \<and> st_world s' = 1 \<and>
    (\<exists>token cl. extract_bearer (plain_headers [(''authorization'', ''Bearer t'')]) = Ok token \<and>
      fst (a_verify (ap_authenticator counting_app) token 0) = Some (Ok cl) \<and> cl_tenant cl = Some ''acme'')"
proof -
  let ?hs = "plain_headers [(''authorization'', ''Bearer t'')]"
  let ?req = "CreateReq ?hs (plain_path ''c'') []" and ?s = "api_state_new 0 :: (nat, nat) api_state"
  obtain r s' where run: "serve_request plain_ext counting_app 0 0 (ObjectId 1) ?req ?s = (r, s')" by fastforce
  have w: "st_world s' = 1"
    using run plain_facts
    by (auto simp: serve_request_def auth_middleware_def extract_bearer_def strip_bearer_def act_bind_result act_bind_def
        create_object_def authorize_def on_service_def rbac_authorizer_def act_run replay_cached_def opt_header_def
        parse_body_def document_new_def cache_response_def counting_app_def plain_headers_def plain_ext_def api_state_new_def Let_def
        split: option.splits sum.splits if_splits)
  have "ap_check counting_app = rbac_authorizer" by (simp add: counting_app_def)
  moreover have "\<not> untouched counting_app ?s s'"
    using w by (auto simp: untouched_def counting_app_def api_state_new_def act_run)
  ultimately have "\<exists>token cl. extract_bearer ?hs = Ok token \<and>
      fst (a_verify (ap_authenticator counting_app) token (st_world ?s)) = Some (Ok cl) \<and>
      (ServerAdmin \<in> set (cl_roles cl) \<or>
       cl_tenant cl = Some (pa_tenant (plain_path ''c'')) \<and> (\<exists>ro \<in> set (cl_roles cl). permits ro ActCreate))"
    using object_access_control [OF _ _ run, of ?hs ActCreate "plain_path ''c''"] by simp
  moreover have "cl_tenant cl = Some ''acme''"
    if "fst (a_verify (ap_authenticator counting_app) token 0) = Some (Ok cl)" for token cl
    using that by (auto simp: counting_app_def act_run claims_new_def split: if_splits)
  ultimately show ?thesis using run w by (auto simp: api_state_new_def)
qed

section \<open>Replayed creations\<close>

lemma replay_cached_hit:
  assumes "prune now (st_idem s) k = Some entry" "ca_payload_hash entry = h" "ax_status X (ca_status entry) = Some st"
  shows "replay_cached X now (Some k) h fb s = (Some (Ok (Some \<lparr>rs_status = st, rs_headers = [],
    rs_body = JsonBody (ca_body entry)\<rparr>)), s\<lparr>st_idem := prune now (st_idem s)\<rparr>)"
  using assms by (simp add: replay_cached_def cache_get_def Let_def)

lemma replay_cached_miss:
  "st_idem s k = None \<Longrightarrow> replay_cached X now (Some k) h fb s =
    (Some (Ok None), s\<lparr>st_idem := prune now (st_idem s)\<rparr>)"
  by (simp add: replay_cached_def cache_get_def Let_def prune_def)

text \<open>What a creation with a fresh key leaves in the cache.\<close>

lemma create_caches:
  assumes "create_object X A t_get t_store fresh p hs cl body s = (Some (Ok resp), s1)"
    and "ap_check A = rbac_authorizer" "opt_header hs ''idempotency-key'' = Some k" "st_idem s k = None"
  shows "\<exists>b. resp = \<lparr>rs_status = 201, rs_headers = [(''location'', location_of X p fresh)], rs_body = JsonBody b\<rparr> \<and>
    st_idem s1 k = Some \<lparr>ca_body = b, ca_status = 201, ca_payload_hash = hash_body body, ca_stored_at = t_store\<rparr>"
  using assms unfolding create_object_def Let_def
  by (auto simp: act_bind_Ok_iff act_run replay_cached_miss authorize_def on_service_def rbac_authorizer_def
      cache_response_def cache_store_def document_new_def split: sum.splits option.splits if_splits)

text \<open>
  C37: replayed creations.  After a creation with an idempotency key has succeeded,
  any further creation with the same key and the same body within the retention time writes nothing and gets
  the first answer's status and body.  It does not get its header: the first answer is \<open>201\<close> with the
  \<open>Location\<close> of the created object, the replayed one is \<open>201\<close> without any header.  The key is not bound to the path or the user: that
  holds for every collection the second request may be authorised for, so that a request
  to create an object in another collection is answered with an object of the first.
\<close>

theorem creation_replayed:
  assumes "ap_check A = rbac_authorizer" "st_idem s k = None" "ax_status X 201 = Some 201"
    and "create_object X A t0 t1 fresh p hs cl body s = (Some (Ok resp), s1)"
    and "opt_header hs ''idempotency-key'' = Some k" "opt_header hs' ''idempotency-key'' = Some k"
    and "validate_path_names X p' = Ok ()" "rbac_check cl' ActCreate (path_resource p') = Ok ()"
    and "t2 - t1 < RETENTION"
  shows "\<exists>resp' s2. create_object X A t2 t3 fresh' p' hs' cl' body s1 = (Some (Ok resp'), s2) \<and>
    rs_status resp = 201 \<and> rs_headers resp = [(''location'', location_of X p fresh)] \<and>
    resp' = resp\<lparr>rs_headers := []\<rparr> \<and> st_world s2 = st_world s1"
proof -
  obtain b where b: "resp = \<lparr>rs_status = 201, rs_headers = [(''location'', location_of X p fresh)], rs_body = JsonBody b\<rparr>"
    "st_idem s1 k = Some \<lparr>ca_body = b, ca_status = 201, ca_payload_hash = hash_body body, ca_stored_at = t1\<rparr>"
    using create_caches [OF assms(4,1,5,2)] by blast
  hence "prune t2 (st_idem s1) k =
      Some \<lparr>ca_body = b, ca_status = 201, ca_payload_hash = hash_body body, ca_stored_at = t1\<rparr>"
    using assms(9) by (simp add: prune_def)
  from replay_cached_hit [OF this, of "hash_body body" X 201 201] show ?thesis
    using b(1) assms(1,3,6-8)
    by (simp add: create_object_def act_bind_result authorize_def on_service_def rbac_authorizer_def act_run
        act_bind_run Let_def)
qed

theorem creation_replayed_witness:
  "\<exists>resp s1 resp' s2. create_object plain_ext counting_app 0 0 (ObjectId 1) (plain_path ''c'')
      (plain_headers [(''idempotency-key'', ''k'')]) (claims_new ''u'' (Some ''acme'') [ReadWrite] 0 9) [] (api_state_new 0) =
      (Some (Ok resp), s1) \<and>
    create_object plain_ext counting_app 5 5 (ObjectId 2) (plain_path ''e'')
      (plain_headers [(''idempotency-key'', ''k'')]) (claims_new ''u'' (Some ''acme'') [ReadWrite] 0 9) [] s1 =
      (Some (Ok resp'), s2) \<and> resp' = resp\<lparr>rs_headers := []\<rparr> \<and> st_world s2 = st_world s1"
proof -
  let ?hs = "plain_headers [(''idempotency-key'', ''k'')]" and ?cl = "claims_new ''u'' (Some ''acme'') [ReadWrite] 0 9"
  let ?s = "api_state_new 0 :: (nat, nat) api_state"
  have pre: "ap_check counting_app = rbac_authorizer" "st_idem ?s ''k'' = None" "ax_status plain_ext 201 = Some 201"
    "opt_header ?hs ''idempotency-key'' = Some ''k''"
    by (simp_all add: counting_app_def api_state_new_def plain_ext_def plain_headers_def opt_header_def)
  obtain resp s1 where first: "create_object plain_ext counting_app 0 0 (ObjectId 1) (plain_path ''c'') ?hs ?cl [] ?s =
      (Some (Ok resp), s1)"
    using plain_facts pre(2,4)
    by (simp add: create_object_def act_bind_result act_bind_def authorize_def on_service_def rbac_authorizer_def act_run
        replay_cached_miss parse_body_def document_new_def cache_response_def counting_app_def plain_ext_def Let_def)
  from creation_replayed [OF pre(1-3) first pre(4,4) plain_facts(2,3), of 5] first
  show ?thesis by (fastforce simp: RETENTION_def)
qed

section \<open>Conditional updates\<close>

lemma etag_stamped: "etag_from_version (stamped n h) = etag_from_version (stamped n' h')"
  by (simp add: etag_from_version_def debug_vector_clock_def)

lemma if_match_own: "opt_header hs ''if-match'' = Some etag \<Longrightarrow> check_if_match hs etag = Ok ()"
  by (simp add: check_if_match_def Let_def)

text \<open>
  C40: conditional updates do not detect that the object has changed.  The coordinator stamps
  every version with one clock entry, and the entity tag is made from the number of entries
  only: an update that carries the tag of any earlier version of the object is accepted and
  overwrites the version it has not seen.
\<close>

theorem stale_if_match_accepted:
  assumes "ap_check A = rbac_authorizer" "rbac_check cl ActUpdate (path_resource p) = Ok ()"
    and "validate_path_names X p = Ok ()" "parse_object_id X i = Ok oid"
    and "opt_header hs ''idempotency-key'' = None" "opt_header hs ''if-match'' = Some (etag_from_version (stamped n h))"
    and "parse_body X body = Ok j" "json_to_value X j = Ok (VObject m)"
    and "key = \<lparr>ok_collection = collection_key p, ok_object_id = oid\<rparr>"
    and "ap_read A key (st_world s) = (Some (Ok r), w1)" "rr_document r \<noteq> None" "rr_version r = stamped n' h'"
    and "ap_write A key \<lparr>doc_id = oid, doc_data = VObject m\<rparr> None w1 = (Some (Ok wr), w2)"
  shows "\<exists>resp. upsert_object X A t_get t_store p i hs cl body s = (Some (Ok resp), s\<lparr>st_world := w2\<rparr>) \<and>
    rs_status resp = 200"
proof -
  have "check_if_match hs (etag_from_version (rr_version r)) = Ok ()"
    using assms(6) unfolding assms(12) etag_stamped [of n h n' h'] by (rule if_match_own)
  thus ?thesis
    using assms(1-5,7-11,13)
    by (auto simp: upsert_object_def act_bind_result authorize_def on_service_def rbac_authorizer_def act_run act_bind_def
        act_try_def replay_cached_def document_new_def cache_response_def Let_def)
qed

theorem stale_if_match_accepted_witness:
  "\<exists>resp. upsert_object plain_ext counting_app 0 0 (plain_path ''c'') ''i''
      (plain_headers [(''if-match'', etag_from_version (stamped (NodeId 7) (Hlc 1)))])
      (claims_new ''u'' (Some ''acme'') [ReadWrite] 0 9) [] (api_state_new 5) =
      (Some (Ok resp), (api_state_new 5)\<lparr>st_world := 6\<rparr>) \<and> rs_status resp = 200"
  by (rule stale_if_match_accepted [where j = "JObject []" and m = "[]" and oid = "ObjectId 0" and n = "NodeId 7" and h = "Hlc 1"
        and key = "\<lparr>ok_collection = collection_key (plain_path ''c''), ok_object_id = ObjectId 0\<rparr>"
        and r = "\<lparr>rr_document = Some \<lparr>doc_id = ObjectId 0, doc_data = VObject []\<rparr>,
          rr_version = stamped (NodeId 1) (Hlc 5), rr_repairs_triggered = 0\<rparr>" and n' = "NodeId 1" and h' = "Hlc 5"])
    (simp_all add: plain_facts plain_fields counting_app_def parse_object_id_def parse_body_def plain_headers_def
      opt_header_def api_state_new_def)

section \<open>Paging\<close>

text \<open>A client that follows the cursors from the first page on.\<close>

fun page_through ::
  "'n api_ext \<Rightarrow> object_id list \<Rightarrow> nat \<Rightarrow> nat \<Rightarrow> string option \<Rightarrow> object_id list list option" where
  "page_through X ids limit 0 cursor = None"
| "page_through X ids limit (Suc fuel) cursor =
    (case parse_cursor_param X cursor of
       Err _ \<Rightarrow> None
     | Ok after_id \<Rightarrow>
         (case paginate_ids X ids after_id limit of
            (page, None) \<Rightarrow> Some [page]
          | (page, Some c) \<Rightarrow> map_option (\<lambda>pages. page # pages) (page_through X ids limit fuel (Some c))))"

definition base64_law :: "'n api_ext \<Rightarrow> bool" where
  "base64_law X \<longleftrightarrow> (\<forall>bs. ax_b64_decode X (ax_b64_encode X bs) = Some bs)"

lemma cursor_roundtrip:
  assumes "base64_law X"
  shows "parse_cursor_param X (Some (encode_cursor X i)) = Ok (Some i)"
proof -
  have "oid_from_bytes (oid_to_bytes i) = i"
    by (simp add: oid_from_bytes_def oid_to_bytes_def of_be_bytes_roundtrip)
  thus ?thesis using assms
    by (simp add: parse_cursor_param_def decode_cursor_def encode_cursor_def base64_law_def oid_to_bytes_def)
qed

lemma position_nth: "distinct xs \<Longrightarrow> k < length xs \<Longrightarrow> position (\<lambda>x. x = xs ! k) xs = Some k"
  by (induction xs arbitrary: k) (auto simp: nth_Cons split: nat.splits)

text \<open>The cursor of a position in the list.\<close>

definition cursor_at :: "'n api_ext \<Rightarrow> object_id list \<Rightarrow> nat \<Rightarrow> string option" where
  "cursor_at X ids k = (if k = 0 then None else Some (encode_cursor X (ids ! (k - 1))))"

lemma paginate_at:
  assumes "base64_law X" "distinct ids" "k \<le> length ids" "0 < limit"
  shows "\<exists>after_id. parse_cursor_param X (cursor_at X ids k) = Ok after_id \<and>
    paginate_ids X ids after_id limit = (take limit (drop k ids),
      if k + limit < length ids then cursor_at X ids (k + limit) else None)"
proof (cases "k + limit < length ids")
  case True
  hence "last (take limit (drop k ids)) = ids ! (k + limit - 1)"
    using assms(4) by (subst last_conv_nth) (auto simp: add.commute)
  thus ?thesis
    using assms True position_nth [of ids "k - 1"]
    by (cases k) (auto simp: cursor_at_def cursor_roundtrip parse_cursor_param_def [of X None] paginate_ids_def Let_def)
next
  case False
  thus ?thesis
    using assms position_nth [of ids "k - 1"]
    by (cases k) (auto simp: cursor_at_def cursor_roundtrip parse_cursor_param_def [of X None] paginate_ids_def Let_def)
qed

lemma page_through_at:
  assumes "base64_law X" "distinct ids" "0 < limit"
  shows "k \<le> length ids \<Longrightarrow> length ids < k + fuel \<Longrightarrow>
    \<exists>pages. page_through X ids limit fuel (cursor_at X ids k) = Some pages \<and> concat pages = drop k ids \<and>
      pages \<noteq> [] \<and> (\<forall>page \<in> set (butlast pages). length page = limit)"
proof (induction fuel arbitrary: k)
  case (Suc fuel)
  obtain after_id where step: "parse_cursor_param X (cursor_at X ids k) = Ok after_id"
    "paginate_ids X ids after_id limit = (take limit (drop k ids),
      if k + limit < length ids then cursor_at X ids (k + limit) else None)"
    using paginate_at [OF assms(1,2) Suc.prems(1) assms(3)] by blast
  show ?case
  proof (cases "k + limit < length ids")
    case True
    then obtain pages where pages: "page_through X ids limit fuel (cursor_at X ids (k + limit)) = Some pages"
      "concat pages = drop (k + limit) ids" "pages \<noteq> []" "\<forall>page \<in> set (butlast pages). length page = limit"
      using Suc.IH [of "k + limit"] Suc.prems(2) assms(3) by auto
    moreover have "cursor_at X ids (k + limit) = Some (encode_cursor X (ids ! (k + limit - 1)))"
      using assms(3) by (simp add: cursor_at_def)
    moreover have "take limit (drop k ids) @ drop (k + limit) ids = drop k ids"
      by (metis append_take_drop_id drop_drop add.commute)
    ultimately show ?thesis using step True by auto
  next
    case False
    thus ?thesis using step by simp
  qed
qed simp

text \<open>
  C33: paging is complete.  A client that follows the cursors of \<open>paginate_ids\<close> through a
  list of distinct ids, with any page size but zero, comes to the end and has then seen
  every id exactly once and in order, on pages that are full except for the last.
\<close>

theorem paging_complete:
  assumes "base64_law X" "distinct ids" "0 < limit"
  shows "\<exists>pages. page_through X ids limit (length ids + 1) None = Some pages \<and> concat pages = ids \<and>
    (\<forall>page \<in> set (butlast pages). length page = limit)"
  using page_through_at [OF assms, of 0 "length ids + 1"] by (auto simp: cursor_at_def)

theorem paging_complete_witness:
  "\<exists>pages. page_through plain_ext [ObjectId 4, ObjectId 9, ObjectId 2] 2 (length [ObjectId 4, ObjectId 9, ObjectId 2] + 1) None =
    Some pages \<and> concat pages = [ObjectId 4, ObjectId 9, ObjectId 2]"
proof -
  have "base64_law plain_ext" by (simp add: base64_law_def plain_ext_def)
  moreover have "distinct [ObjectId 4, ObjectId 9, ObjectId 2]" by simp
  ultimately show ?thesis using paging_complete [of plain_ext _ 2] by (meson zero_less_numeral)
qed

end
