(* ===== verification/Backup.thy ===== *)
theory Backup
  imports Storage Membership Text
begin

text \<open>
  Snapshots of \<open>crates/bashfuldb-ops/src/lib.rs\<close>: dumping a storage to files, validating a
  dump, restoring it, listing, deleting and the retention.  \<open>serde_json\<close> and base64 are
  the fields of \<open>backup_ext\<close>; the unix times an operation reads are arguments.

  The directory of snapshots is the list of its subdirectories in the order the file
  system gives them, each with the two files the code writes; calls on the file system
  may fail with the next entry of \<open>bw_faults\<close>.
\<close>

section \<open>Types\<close>

definition FNV1A_OFFSET_BASIS_64 :: u64 where "FNV1A_OFFSET_BASIS_64 = 1469598103934665603"
definition FNV1A_PRIME_64 :: u64 where "FNV1A_PRIME_64 = 1099511628211"

datatype ops_error =
    OpsIo string
  | OpsStorage storage_error
  | OpsJson string
  | OpsMetrics string
  | SnapshotNotFound string
  | ValidationFailed string
  | LockPoisoned string

record serialized_row =
  sr_key_b64 :: string
  sr_value_b64 :: string

type_synonym snapshot_dump = "(string, serialized_row list) btree"

record snapshot_manifest =
  sm_created_at :: u64
  sm_checksums :: "(string, u64) btree"

record snapshot_info =
  si_id :: string
  si_created_at :: u64

record validation_report =
  vr_checksum_ok :: bool
  vr_schema_ok :: bool
  vr_quorum_ok :: bool
  vr_smoke_ok :: bool

record restore_report =
  rp_restored_rows :: nat
  rp_validation :: validation_report

record backup_config =
  bc_retention_secs :: u64
  bc_quorum_nodes :: nat
  bc_smoke_keys :: nat

definition backup_config_new :: backup_config where
  "backup_config_new = \<lparr>bc_retention_secs = 24 * 60 * 60, bc_quorum_nodes = 2, bc_smoke_keys = 16\<rparr>"

record backup_ext =
  b64_encode :: "bytes \<Rightarrow> string"
  b64_decode :: "bytes \<Rightarrow> (string, bytes) result"
  ser_dump :: "snapshot_dump \<Rightarrow> (string, bytes) result"
  de_dump :: "bytes \<Rightarrow> (string, snapshot_dump) result"
  ser_manifest :: "snapshot_manifest \<Rightarrow> (string, bytes) result"
  de_manifest :: "bytes \<Rightarrow> (string, snapshot_manifest) result"

record snapshot_dir =
  sd_data :: "bytes option"
  sd_manifest :: "bytes option"

record 's backup_world =
  bw_storage :: 's
  bw_dirs :: "(string \<times> snapshot_dir) list"
  bw_faults :: "string option list"

type_synonym ('s, 'a) backup_act = "('s backup_world, ops_error, 'a) act"

text \<open>
  A manager, with what the membership answers while a call of it runs: the live membership is asked once per
  call, for all nodes and then for the state of each (\<open>quorum_ok\<close>), so one list and one function hold any sequence of
  answers.  Two calls, such as the creation of a snapshot and its restore, are given managers of their own.
\<close>

record 's backup_manager =
  bm_engine :: "'s engine"
  bm_flush :: "('s backup_world, storage_error, unit) act"
  bm_checkpoint :: "string \<Rightarrow> ('s backup_world, storage_error, unit) act"
  bm_all_nodes :: "node_id list"
  bm_node_state :: "node_id \<Rightarrow> node_state option"
  bm_config :: backup_config

section \<open>Storage and file system\<close>

definition bw_store :: "('s, storage_error, 'a) act \<Rightarrow> ('s, 'a) backup_act" where
  "bw_store m = (\<lambda>w. case m (bw_storage w) of
    (r, s) \<Rightarrow> (map_option (map_sum OpsStorage id) r, w\<lparr>bw_storage := s\<rparr>))"

definition io_call ::
  "(string \<Rightarrow> 'e) \<Rightarrow> ('s backup_world \<Rightarrow> 's backup_world) \<Rightarrow> ('s backup_world, 'e, unit) act" where
  "io_call conv f = (\<lambda>w.
    case bw_faults w of
      Some e # fs \<Rightarrow> (Some (Err (conv e)), w\<lparr>bw_faults := fs\<rparr>)
    | None # fs \<Rightarrow> (Some (Ok ()), f (w\<lparr>bw_faults := fs\<rparr>))
    | [] \<Rightarrow> (Some (Ok ()), f w))"

abbreviation bw_call :: "('s backup_world \<Rightarrow> 's backup_world) \<Rightarrow> ('s, unit) backup_act" where
  "bw_call \<equiv> io_call OpsIo"

definition bw_dir :: "'s backup_world \<Rightarrow> string \<Rightarrow> snapshot_dir option" where
  "bw_dir w name = map_of (bw_dirs w) name"

definition create_dir_all :: "string \<Rightarrow> 's backup_world \<Rightarrow> 's backup_world" where
  "create_dir_all name w =
    (if bw_dir w name = None
     then w\<lparr>bw_dirs := bw_dirs w @ [(name, \<lparr>sd_data = None, sd_manifest = None\<rparr>)]\<rparr> else w)"

definition update_dir :: "string \<Rightarrow> (snapshot_dir \<Rightarrow> snapshot_dir) \<Rightarrow> 's backup_world \<Rightarrow> 's backup_world" where
  "update_dir name f w = w\<lparr>bw_dirs := map (\<lambda>(n, d). if n = name then (n, f d) else (n, d)) (bw_dirs w)\<rparr>"

text \<open>\<open>MemEngine\<close>: flushing does nothing, a checkpoint makes the directory.\<close>

definition mem_flush :: "('s backup_world, storage_error, unit) act" where
  "mem_flush = act_ok ()"

definition mem_checkpoint :: "string \<Rightarrow> ('s backup_world, storage_error, unit) act" where
  "mem_checkpoint name = io_call StorageIo (create_dir_all name)"

section \<open>Dumps\<close>

definition row_checksum :: "u64 \<Rightarrow> serialized_row \<Rightarrow> u64" where
  "row_checksum acc row = fold (\<lambda>byte h. xor h (ucast byte) * FNV1A_PRIME_64)
    (as_bytes (sr_key_b64 row) @ as_bytes (sr_value_b64 row)) acc"

definition encode_dump :: "snapshot_dump \<Rightarrow> (string, u64) btree" where
  "encode_dump dump = map (\<lambda>(cf, rows). (cf, foldl row_checksum FNV1A_OFFSET_BASIS_64 rows)) dump"

primrec dump_rows :: "backup_ext \<Rightarrow> scan_iter \<Rightarrow> (storage_error, serialized_row list) result" where
  "dump_rows X [] = Ok []"
| "dump_rows X (item # items) =
    (case item of
       Err e \<Rightarrow> Err e
     | Ok kv \<Rightarrow>
         (case dump_rows X items of
            Err e \<Rightarrow> Err e
          | Ok rows \<Rightarrow> Ok (\<lparr>sr_key_b64 = b64_encode X (fst kv), sr_value_b64 = b64_encode X (snd kv)\<rparr> # rows)))"

primrec dump_cfs :: "backup_ext \<Rightarrow> 's engine \<Rightarrow> string list \<Rightarrow> snapshot_dump \<Rightarrow> ('s, storage_error, snapshot_dump) act" where
  "dump_cfs X E [] rows = act_ok rows"
| "dump_cfs X E (cf # cfs) rows =
    act_bind (e_scan E cf [] []) (\<lambda>iter.
    act_bind (act_of_result (dump_rows X iter)) (\<lambda>cf_rows.
    dump_cfs X E cfs (bt_insert cf cf_rows rows)))"

definition dump_from_engine :: "backup_ext \<Rightarrow> 's backup_manager \<Rightarrow> ('s, snapshot_dump) backup_act" where
  "dump_from_engine X M = bw_store (dump_cfs X (bm_engine M) cf_all [])"

definition write_snapshot_artifacts ::
  "backup_ext \<Rightarrow> u64 \<Rightarrow> string \<Rightarrow> snapshot_dump \<Rightarrow> ('s, unit) backup_act" where
  "write_snapshot_artifacts X now name dump =
    (let manifest = \<lparr>sm_created_at = now, sm_checksums = encode_dump dump\<rparr>
     in act_bind (bw_call (create_dir_all name)) (\<lambda>_.
        act_bind (act_of_result (map_sum OpsJson id (ser_dump X dump))) (\<lambda>data.
        act_bind (bw_call (update_dir name (\<lambda>d. d\<lparr>sd_data := Some data\<rparr>))) (\<lambda>_.
        act_bind (act_of_result (map_sum OpsJson id (ser_manifest X manifest))) (\<lambda>m.
        bw_call (update_dir name (\<lambda>d. d\<lparr>sd_manifest := Some m\<rparr>)))))))"

definition read_file :: "(snapshot_dir \<Rightarrow> bytes option) \<Rightarrow> snapshot_dir \<Rightarrow> ('s, bytes) backup_act" where
  "read_file f d = act_bind (bw_call id) (\<lambda>_.
    case f d of None \<Rightarrow> act_err (OpsIo ''No such file or directory (os error 2)'') | Some bs \<Rightarrow> act_ok bs)"

definition read_snapshot_artifacts ::
  "backup_ext \<Rightarrow> string \<Rightarrow> ('s, snapshot_manifest \<times> snapshot_dump) backup_act" where
  "read_snapshot_artifacts X name = (\<lambda>w.
    case bw_dir w name of
      None \<Rightarrow> (Some (Err (SnapshotNotFound name)), w)
    | Some d \<Rightarrow>
        act_bind (read_file sd_manifest d) (\<lambda>manifest_raw.
        act_bind (read_file sd_data d) (\<lambda>dump_raw.
        act_bind (act_of_result (map_sum OpsJson id (de_manifest X manifest_raw))) (\<lambda>manifest.
        act_bind (act_of_result (map_sum OpsJson id (de_dump X dump_raw))) (\<lambda>dump.
        act_ok (manifest, dump))))) w)"

section \<open>Restoring\<close>

primrec clear_rows :: "string \<Rightarrow> scan_iter \<Rightarrow> write_batch \<Rightarrow> (storage_error, write_batch) result" where
  "clear_rows cf [] b = Ok b"
| "clear_rows cf (item # items) b =
    (case item of Err e \<Rightarrow> Err e | Ok kv \<Rightarrow> clear_rows cf items (batch_delete cf (fst kv) b))"

primrec clear_batch :: "'s engine \<Rightarrow> string list \<Rightarrow> write_batch \<Rightarrow> ('s, storage_error, write_batch) act" where
  "clear_batch E [] b = act_ok b"
| "clear_batch E (cf # cfs) b =
    act_bind (e_scan E cf [] []) (\<lambda>iter.
    act_bind (act_of_result (clear_rows cf iter b)) (\<lambda>b'. clear_batch E cfs b'))"

definition decode_field :: "backup_ext \<Rightarrow> string \<Rightarrow> (ops_error, bytes) result" where
  "decode_field X s = map_sum ValidationFailed id (b64_decode X (as_bytes s))"

primrec restore_rows ::
  "backup_ext \<Rightarrow> string \<Rightarrow> serialized_row list \<Rightarrow> write_batch \<times> nat \<Rightarrow> (ops_error, write_batch \<times> nat) result" where
  "restore_rows X cf [] acc = Ok acc"
| "restore_rows X cf (row # rows) acc =
    (case decode_field X (sr_key_b64 row) of
       Err e \<Rightarrow> Err e
     | Ok k \<Rightarrow>
         (case decode_field X (sr_value_b64 row) of
            Err e \<Rightarrow> Err e
          | Ok v \<Rightarrow> restore_rows X cf rows (batch_put cf k v (fst acc), snd acc + 1)))"

primrec restore_batch ::
  "backup_ext \<Rightarrow> snapshot_dump \<Rightarrow> write_batch \<times> nat \<Rightarrow> (ops_error, write_batch \<times> nat) result" where
  "restore_batch X [] acc = Ok acc"
| "restore_batch X (e # dump) acc =
    (case restore_rows X (fst e) (snd e) acc of Err err \<Rightarrow> Err err | Ok acc' \<Rightarrow> restore_batch X dump acc')"

definition write_unless_empty :: "'s engine \<Rightarrow> write_batch \<Rightarrow> ('s, unit) backup_act" where
  "write_unless_empty E b = (if batch_is_empty b then act_ok () else bw_store (e_write_batch E b))"

definition apply_dump :: "backup_ext \<Rightarrow> 's backup_manager \<Rightarrow> snapshot_dump \<Rightarrow> ('s, nat) backup_act" where
  "apply_dump X M dump =
    act_bind (bw_store (clear_batch (bm_engine M) cf_all batch_new)) (\<lambda>clear.
    act_bind (write_unless_empty (bm_engine M) clear) (\<lambda>_.
    act_bind (act_of_result (restore_batch X dump (batch_new, 0))) (\<lambda>(batch, restored).
    act_bind (write_unless_empty (bm_engine M) batch) (\<lambda>_.
    act_ok restored))))"

definition schema_consistency_ok :: "snapshot_dump \<Rightarrow> bool" where
  "schema_consistency_ok dump \<longleftrightarrow> bt_get dump CF_METADATA \<noteq> None \<and> bt_get dump CF_INDEXES \<noteq> None"

definition quorum_ok :: "'s backup_manager \<Rightarrow> bool" where
  "quorum_ok M \<longleftrightarrow> bc_quorum_nodes (bm_config M) \<le>
    length (filter (\<lambda>n. case bm_node_state M n of None \<Rightarrow> False | Some st \<Rightarrow> can_serve_writes st) (bm_all_nodes M))"

text \<open>The samples of one column family; \<open>Err\<close> holds the verdict that ends the test early.\<close>

primrec smoke_rows ::
  "backup_ext \<Rightarrow> 's backup_manager \<Rightarrow> string \<Rightarrow> serialized_row list \<Rightarrow> nat \<Rightarrow> ('s, bool + nat) backup_act" where
  "smoke_rows X M cf [] sampled = act_ok (Inr sampled)"
| "smoke_rows X M cf (row # rows) sampled =
    (if bc_smoke_keys (bm_config M) \<le> sampled then act_ok (Inl True)
     else
       act_bind (act_of_result (decode_field X (sr_key_b64 row))) (\<lambda>k.
       act_bind (act_of_result (decode_field X (sr_value_b64 row))) (\<lambda>expected.
       act_bind (bw_store (e_get (bm_engine M) cf k)) (\<lambda>actual.
       if actual \<noteq> Some expected then act_ok (Inl False) else smoke_rows X M cf rows (sampled + 1)))))"

primrec smoke_cfs ::
  "backup_ext \<Rightarrow> 's backup_manager \<Rightarrow> snapshot_dump \<Rightarrow> nat \<Rightarrow> ('s, bool) backup_act" where
  "smoke_cfs X M [] sampled = act_ok True"
| "smoke_cfs X M (e # dump) sampled =
    act_bind (smoke_rows X M (fst e) (snd e) sampled) (\<lambda>r.
    case r of Inl verdict \<Rightarrow> act_ok verdict | Inr sampled' \<Rightarrow> smoke_cfs X M dump sampled')"

definition smoke_test_ok :: "backup_ext \<Rightarrow> 's backup_manager \<Rightarrow> snapshot_dump \<Rightarrow> ('s, bool) backup_act" where
  "smoke_test_ok X M dump = smoke_cfs X M dump 0"

definition validate_snapshot :: "backup_ext \<Rightarrow> 's backup_manager \<Rightarrow> string \<Rightarrow> ('s, validation_report) backup_act" where
  "validate_snapshot X M name =
    act_bind (read_snapshot_artifacts X name) (\<lambda>(manifest, dump).
    act_bind (smoke_test_ok X M dump) (\<lambda>smoke_ok.
    act_ok \<lparr>vr_checksum_ok = (sm_checksums manifest = encode_dump dump), vr_schema_ok = schema_consistency_ok dump,
      vr_quorum_ok = quorum_ok M, vr_smoke_ok = smoke_ok\<rparr>))"

definition restore_snapshot :: "backup_ext \<Rightarrow> 's backup_manager \<Rightarrow> string \<Rightarrow> ('s, restore_report) backup_act" where
  "restore_snapshot X M name =
    act_bind (read_snapshot_artifacts X name) (\<lambda>(_, dump).
    act_bind (apply_dump X M dump) (\<lambda>restored_rows.
    act_bind (validate_snapshot X M name) (\<lambda>v.
    if \<not> (vr_checksum_ok v \<and> vr_schema_ok v \<and> vr_quorum_ok v \<and> vr_smoke_ok v)
    then act_err (ValidationFailed ''post-restore validation pipeline failed'')
    else act_ok \<lparr>rp_restored_rows = restored_rows, rp_validation = v\<rparr>)))"

section \<open>Creating, listing, deleting\<close>

text \<open>The root directory of the snapshots exists from the first listing on.\<close>

definition list_snapshots :: "('s, snapshot_info list) backup_act" where
  "list_snapshots =
    act_bind (bw_call id) (\<lambda>_.
    act_bind (bw_call id) (\<lambda>_ w.
    (Some (Ok (sort_key si_created_at (List.map_filter (\<lambda>(name, _).
       case parse_u64 name of None \<Rightarrow> None | Some t \<Rightarrow> Some \<lparr>si_id = name, si_created_at = t\<rparr>) (bw_dirs w)))), w)))"

definition delete_snapshot :: "string \<Rightarrow> ('s, unit) backup_act" where
  "delete_snapshot name = (\<lambda>w.
    if bw_dir w name \<noteq> None
    then bw_call (\<lambda>w. w\<lparr>bw_dirs := filter (\<lambda>(n, _). n \<noteq> name) (bw_dirs w)\<rparr>) w
    else (Some (Err (SnapshotNotFound name)), w))"

definition prune_retention :: "'s backup_manager \<Rightarrow> u64 \<Rightarrow> ('s, unit) backup_act" where
  "prune_retention M now =
    act_bind list_snapshots (\<lambda>snapshots.
    let cutoff = saturating_sub now (bc_retention_secs (bm_config M))
    in act_for (sort_key si_created_at snapshots) (\<lambda>s.
         if si_created_at s < cutoff then delete_snapshot (si_id s) else act_ok ()))"

definition create_snapshot ::
  "backup_ext \<Rightarrow> 's backup_manager \<Rightarrow> u64 \<Rightarrow> u64 \<Rightarrow> u64 \<Rightarrow> ('s, string) backup_act" where
  "create_snapshot X M now1 now2 now3 =
    (let name = show_nat (unat now1)
     in act_bind (act_map_err OpsStorage (bm_flush M)) (\<lambda>_.
        act_bind (act_map_err OpsStorage (bm_checkpoint M name)) (\<lambda>_.
        act_bind (dump_from_engine X M) (\<lambda>dump.
        act_bind (write_snapshot_artifacts X now2 name dump) (\<lambda>_.
        act_bind (prune_retention M now3) (\<lambda>_.
        act_ok name))))))"

end
