(* ===== verification/Restore.thy ===== *)
theory Restore
  imports Backup
begin

text \<open>
  Snapshots restore what was dumped, and what a dump that does not decode does to the
  storage it is restored to.
\<close>

section \<open>Dumps\<close>

definition dump_row :: "backup_ext \<Rightarrow> scan_item \<Rightarrow> serialized_row" where
  "dump_row X kv = \<lparr>sr_key_b64 = b64_encode X (fst kv), sr_value_b64 = b64_encode X (snd kv)\<rparr>"

definition base64_std_law :: "backup_ext \<Rightarrow> bool" where
  "base64_std_law X \<longleftrightarrow> (\<forall>bs. b64_decode X (as_bytes (b64_encode X bs)) = Ok bs)"

lemma dump_rows_run: "dump_rows X (map Ok kvs) = Ok (map (dump_row X) kvs)"
  by (induction kvs) (auto simp: dump_row_def)

text \<open>The contents of the column families, in the order of a dump, and their image in a dump.\<close>

definition contents :: "(string \<Rightarrow> kv_map) \<Rightarrow> (string, kv_map) btree" where
  "contents v = fold (\<lambda>cf. bt_insert cf (v cf)) cf_all []"

definition images :: "backup_ext \<Rightarrow> (string, kv_map) btree \<Rightarrow> snapshot_dump" where
  "images X cs = map (\<lambda>(cf, kvs). (cf, map (dump_row X) kvs)) cs"

lemma contents_fold:
  "bt_sorted d \<Longrightarrow> bt_sorted (fold (\<lambda>cf. bt_insert cf (f cf)) cfs d) \<and>
    bt_get (fold (\<lambda>cf. bt_insert cf (f cf)) cfs d) cf = (if cf \<in> set cfs then Some (f cf) else bt_get d cf)"
  by (induction cfs arbitrary: d) (auto simp: wf_intros btree_simps)

lemma contents_laws:
  "bt_sorted (contents v)" "bt_get (contents v) cf = (if cf \<in> set cf_all then Some (v cf) else None)"
  using contents_fold [of "[]" v cf_all] by (simp_all add: contents_def)

lemma contents_set: "set (contents v) = (\<lambda>cf. (cf, v cf)) ` set cf_all"
  using contents_laws [of v] by (auto simp: bt_get_Some_iff [symmetric] image_iff split: if_splits)

lemma images_insert: "images X (bt_insert cf kvs cs) = bt_insert cf (map (dump_row X) kvs) (images X cs)"
  by (induction cs) (auto simp: images_def)

lemma dump_cfs_images:
  "fold (\<lambda>cf. bt_insert cf (map (dump_row X) (v cf))) cfs (images X cs) = images X (fold (\<lambda>cf. bt_insert cf (v cf)) cfs cs)"
  by (induction cfs arbitrary: cs) (simp_all add: images_insert [symmetric])

lemma images_get: "bt_get (images X cs) cf = map_option (map (dump_row X)) (bt_get cs cf)"
  by (induction cs) (auto simp: images_def)

section \<open>Batches\<close>

lemma fold_puts:
  "fold apply_view (map (\<lambda>(k, v). Put cf k v) kvs) w = w(cf := fold (\<lambda>(k, v). bt_insert k v) kvs (w cf))"
  by (induction kvs arbitrary: w) auto

lemma fold_deletes:
  "fold apply_view (map (Delete cf) ks) w = w(cf := filter (\<lambda>e. fst e \<notin> set ks) (w cf))"
  by (induction ks arbitrary: w) (auto simp: bt_remove_def intro!: filter_cong)

lemma clear_rows_run:
  "clear_rows cf (map Ok kvs) b = Ok \<lparr>batch_ops = batch_ops b @ map (Delete cf) (map fst kvs)\<rparr>"
  by (induction kvs arbitrary: b) (auto simp: batch_delete_def)

definition clear_ops :: "(string \<Rightarrow> kv_map) \<Rightarrow> string list \<Rightarrow> batch_op list" where
  "clear_ops v cfs = concat (map (\<lambda>cf. map (Delete cf) (map fst (v cf))) cfs)"

lemma clear_ops_cf: "op_cf ` set (clear_ops v cfs) \<subseteq> set cfs"
  by (auto simp: clear_ops_def)

lemma fold_clear:
  "distinct cfs \<Longrightarrow> (\<forall>cf \<in> set cfs. w cf = v cf) \<Longrightarrow>
    fold apply_view (clear_ops v cfs) w = (\<lambda>cf. if cf \<in> set cfs then [] else w cf)"
proof (induction cfs arbitrary: w)
  case (Cons cf cfs)
  have "clear_ops v (cf # cfs) = map (Delete cf) (map fst (v cf)) @ clear_ops v cfs" by (simp add: clear_ops_def)
  moreover have "fold apply_view (map (Delete cf) (map fst (v cf))) w = w(cf := [])"
    using Cons.prems(2) unfolding fold_deletes by (simp add: filter_empty_conv)
  moreover define u where "u = w(cf := [])"
  ultimately have "fold apply_view (clear_ops v (cf # cfs)) w = fold apply_view (clear_ops v cfs) u"
    by (simp only: fold_append comp_apply)
  also have "\<forall>c \<in> set cfs. u c = v c" using Cons.prems by (auto simp: u_def)
  hence "fold apply_view (clear_ops v cfs) u = (\<lambda>c. if c \<in> set cfs then [] else u c)"
    using Cons.IH [of u] Cons.prems by simp
  finally show ?case by (auto simp: fun_eq_iff u_def)
qed (simp add: clear_ops_def)

lemma restore_rows_run:
  "base64_std_law X \<Longrightarrow> restore_rows X cf (map (dump_row X) kvs) (b, n) =
    Ok (\<lparr>batch_ops = batch_ops b @ map (\<lambda>(k, v). Put cf k v) kvs\<rparr>, n + length kvs)"
  by (induction kvs arbitrary: b n) (auto simp: base64_std_law_def dump_row_def decode_field_def batch_put_def)

definition content_ops :: "(string \<times> kv_map) list \<Rightarrow> batch_op list" where
  "content_ops cs = concat (map (\<lambda>(cf, kvs). map (\<lambda>(k, v). Put cf k v) kvs) cs)"

lemma restore_batch_run:
  "base64_std_law X \<Longrightarrow> restore_batch X (images X cs) (b, n) =
    Ok (\<lparr>batch_ops = batch_ops b @ content_ops cs\<rparr>, n + sum_list (map (length \<circ> snd) cs))"
  by (induction cs arbitrary: b n) (auto simp: images_def content_ops_def restore_rows_run)

lemma content_ops_cf: "op_cf ` set (content_ops cs) \<subseteq> fst ` set cs"
  by (auto simp: content_ops_def image_iff) (metis fst_conv)+

lemma fold_content:
  "distinct (map fst cs) \<Longrightarrow> fold apply_view (content_ops cs) w =
    (\<lambda>cf. case map_of cs cf of None \<Rightarrow> w cf | Some kvs \<Rightarrow> fold (\<lambda>(k, v). bt_insert k v) kvs (w cf))"
proof (induction cs arbitrary: w)
  case (Cons c cs)
  obtain cf kvs where c: "c = (cf, kvs)" by fastforce
  have new: "map_of cs cf = None" using Cons.prems c by (simp add: map_of_eq_None_iff)
  define u where "u = w(cf := fold (\<lambda>(k, v). bt_insert k v) kvs (w cf))"
  have "content_ops (c # cs) = map (\<lambda>(k, v). Put cf k v) kvs @ content_ops cs" using c by (simp add: content_ops_def)
  hence "fold apply_view (content_ops (c # cs)) w = fold apply_view (content_ops cs) u"
    by (simp only: fold_append comp_apply fold_puts u_def)
  also have "\<dots> = (\<lambda>cf. case map_of cs cf of None \<Rightarrow> u cf | Some kvs \<Rightarrow> fold (\<lambda>(k, v). bt_insert k v) kvs (u cf))"
    using Cons.IH [of u] Cons.prems by simp
  finally show ?case using c new by (auto simp: u_def fun_eq_iff split: option.splits)
qed (simp add: content_ops_def)

section \<open>Dumping and restoring a storage\<close>

lemma scan_all: "scan_range [] [] m = m"
  by (simp add: scan_range_def)

lemma cf_all_distinct: "distinct cf_all"
  by (simp add: cf_all_def CF_DEFAULT_def CF_METADATA_def CF_INDEXES_def CF_TOMBSTONES_def CF_HINTS_def CF_SYSTEM_def)

context storage_engine
begin

lemma dump_cfs_run:
  "inv s \<Longrightarrow> set cfs \<subseteq> set cf_all \<Longrightarrow> dump_cfs X E cfs d s =
    (Some (Ok (fold (\<lambda>cf. bt_insert cf (map (dump_row X) (view s cf))) cfs d)), s)"
  by (induction cfs arbitrary: d)
    (simp_all add: act_run act_bind_run scan_law scan_all act_bind_result dump_rows_run)

lemma dump_run:
  assumes "inv (bw_storage w)" "bm_engine M = E"
  shows "dump_from_engine X M w = (Some (Ok (images X (contents (view (bw_storage w))))), w)"
  using assms dump_cfs_images [of X "view (bw_storage w)" cf_all "[]"]
  by (simp add: dump_from_engine_def bw_store_def dump_cfs_run contents_def images_def)

lemma clear_batch_run:
  "inv s \<Longrightarrow> set cfs \<subseteq> set cf_all \<Longrightarrow> clear_batch E cfs b s =
    (Some (Ok \<lparr>batch_ops = batch_ops b @ clear_ops (view s) cfs\<rparr>), s)"
  by (induction cfs arbitrary: b)
    (simp_all add: act_run act_bind_run scan_law scan_all act_bind_result clear_rows_run clear_ops_def)

lemma write_run:
  assumes "inv (bw_storage w)" "op_cf ` set ops \<subseteq> set cf_all"
  shows "\<exists>s. write_unless_empty E \<lparr>batch_ops = ops\<rparr> w = (Some (Ok ()), w\<lparr>bw_storage := s\<rparr>) \<and> inv s \<and>
    view s = fold apply_view ops (view (bw_storage w))"
proof (cases "ops = []")
  case True
  thus ?thesis using assms by (intro exI [of _ "bw_storage w"]) (simp add: write_unless_empty_def batch_is_empty_def act_run)
next
  case False
  thus ?thesis
    using assms batch_run [of "bw_storage w" "\<lparr>batch_ops = ops\<rparr>"]
    by (auto simp: write_unless_empty_def batch_is_empty_def bw_store_def)
qed

text \<open>Clearing leaves every column family empty.\<close>

lemma clear_run:
  assumes "inv (bw_storage w)"
  shows "\<exists>s. act_bind (bw_store (clear_batch E cf_all batch_new)) (write_unless_empty E) w =
      (Some (Ok ()), w\<lparr>bw_storage := s\<rparr>) \<and> inv s \<and>
    view s = (\<lambda>cf. if cf \<in> set cf_all then [] else view (bw_storage w) cf)"
proof -
  let ?ops = "clear_ops (view (bw_storage w)) cf_all"
  have "bw_store (clear_batch E cf_all batch_new) w = (Some (Ok \<lparr>batch_ops = ?ops\<rparr>), w)"
    using assms by (simp add: bw_store_def clear_batch_run batch_new_def)
  thus ?thesis
    using write_run [OF assms clear_ops_cf, of "view (bw_storage w)"]
      fold_clear [OF cf_all_distinct, of "view (bw_storage w)" "view (bw_storage w)"]
    by (simp add: act_bind_run)
qed

lemma apply_dump_eq:
  "apply_dump X M dump = act_bind (act_bind (bw_store (clear_batch (bm_engine M) cf_all batch_new))
      (write_unless_empty (bm_engine M))) (\<lambda>_.
    act_bind (act_of_result (restore_batch X dump (batch_new, 0))) (\<lambda>(batch, restored).
    act_bind (write_unless_empty (bm_engine M) batch) (\<lambda>_. act_ok restored)))"
  by (auto simp: apply_dump_def act_bind_def fun_eq_iff split: prod.splits option.splits sum.splits)

lemma apply_dump_run:
  assumes "base64_std_law X" "inv (bw_storage w)" "bm_engine M = E" "\<And>cf. bt_sorted (v cf)"
  shows "\<exists>s. apply_dump X M (images X (contents v)) w =
      (Some (Ok (sum_list (map (length \<circ> snd) (contents v)))), w\<lparr>bw_storage := s\<rparr>) \<and> inv s \<and>
    (\<forall>cf \<in> set cf_all. view s cf = v cf)"
proof -
  obtain s1 where 1: "act_bind (bw_store (clear_batch E cf_all batch_new)) (write_unless_empty E) w =
      (Some (Ok ()), w\<lparr>bw_storage := s1\<rparr>)" "inv s1"
    "view s1 = (\<lambda>cf. if cf \<in> set cf_all then [] else view (bw_storage w) cf)"
    using clear_run [OF assms(2)] by blast
  have "op_cf ` set (content_ops (contents v)) \<subseteq> set cf_all"
    using content_ops_cf [of "contents v"] by (auto simp: contents_set)
  then obtain s2 where 2: "write_unless_empty E \<lparr>batch_ops = content_ops (contents v)\<rparr> (w\<lparr>bw_storage := s1\<rparr>) =
      (Some (Ok ()), w\<lparr>bw_storage := s2\<rparr>)" "inv s2" "view s2 = fold apply_view (content_ops (contents v)) (view s1)"
    using write_run [of "w\<lparr>bw_storage := s1\<rparr>" "content_ops (contents v)"] 1(2) by auto
  have "view s2 cf = v cf" if "cf \<in> set cf_all" for cf
    using that 1(3) 2(3) fold_content [OF bt_sorted_distinct [OF contents_laws(1)], of v "view s1"]
      contents_laws(2) [of v cf] bt_collect_sorted [OF assms(4) [of cf]]
    by (simp add: bt_get_def bt_collect_def)
  thus ?thesis
    using 1 2 assms(3) restore_batch_run [OF assms(1), of "contents v" batch_new 0]
    by (auto simp: apply_dump_eq act_bind_run act_bind_result act_run batch_new_def)
qed

lemma smoke_rows_run:
  assumes "base64_std_law X" "inv (bw_storage w)" "bm_engine M = E" "cf \<in> set cf_all"
  shows "\<forall>kv \<in> set kvs. bt_get (view (bw_storage w) cf) (fst kv) = Some (snd kv) \<Longrightarrow>
    \<exists>r. smoke_rows X M cf (map (dump_row X) kvs) n w = (Some (Ok r), w) \<and> r \<noteq> Inl False"
proof (induction kvs arbitrary: n)
  case (Cons kv kvs)
  have "bw_store (e_get E cf (fst kv)) w = (Some (Ok (Some (snd kv))), w)"
    using assms Cons.prems by (simp add: bw_store_def get_law)
  thus ?case
    using Cons assms(1,3)
    by (auto simp: act_run act_bind_result act_bind_run dump_row_def decode_field_def base64_std_law_def)
qed (simp add: act_run)

lemma smoke_run:
  assumes "base64_std_law X" "inv (bw_storage w)" "bm_engine M = E"
  shows "\<forall>(cf, kvs) \<in> set cs. cf \<in> set cf_all \<and> kvs = view (bw_storage w) cf \<Longrightarrow>
    smoke_cfs X M (images X cs) n w = (Some (Ok True), w)"
proof (induction cs arbitrary: n)
  case (Cons c cs)
  obtain cf kvs where c: "c = (cf, kvs)" by fastforce
  have "\<forall>kv \<in> set kvs. bt_get (view (bw_storage w) cf) (fst kv) = Some (snd kv)"
    using Cons.prems c bt_get_Some_iff [OF view_sorted [OF assms(2)]] by auto
  moreover have "cf \<in> set cf_all" using Cons.prems c by simp
  ultimately obtain r where r: "smoke_rows X M cf (map (dump_row X) kvs) n w = (Some (Ok r), w)" "r \<noteq> Inl False"
    using smoke_rows_run [OF assms, of cf kvs n] by blast
  have "images X (c # cs) = (cf, map (dump_row X) kvs) # images X cs" using c by (simp add: images_def)
  thus ?case using Cons r by (cases r) (simp_all add: act_bind_run act_run)
qed (simp add: images_def act_run)

end

section \<open>The files of a snapshot\<close>

definition quiet :: "'s backup_world \<Rightarrow> bool" where
  "quiet w \<longleftrightarrow> bw_faults w = [] \<and> distinct (map fst (bw_dirs w))"

definition holds_dump :: "backup_ext \<Rightarrow> 's backup_world \<Rightarrow> string \<Rightarrow> u64 \<Rightarrow> snapshot_dump \<Rightarrow> bool" where
  "holds_dump X w name now dump \<longleftrightarrow> (\<exists>d bs ms. bw_dir w name = Some d \<and> sd_data d = Some bs \<and> sd_manifest d = Some ms \<and>
    de_dump X bs = Ok dump \<and> de_manifest X ms = Ok \<lparr>sm_created_at = now, sm_checksums = encode_dump dump\<rparr>)"

lemma io_quiet: "bw_faults w = [] \<Longrightarrow> io_call conv f w = (Some (Ok ()), f w)"
  by (simp add: io_call_def)

lemma read_artifacts_run:
  assumes "bw_faults w = []" "holds_dump X w name now dump"
  shows "read_snapshot_artifacts X name w =
    (Some (Ok (\<lparr>sm_created_at = now, sm_checksums = encode_dump dump\<rparr>, dump)), w)"
  using assms
  by (auto simp: holds_dump_def read_snapshot_artifacts_def read_file_def act_bind_run io_quiet act_bind_result act_run)

lemma create_dir_laws:
  "bw_faults (create_dir_all name w) = bw_faults w" "bw_storage (create_dir_all name w) = bw_storage w"
  "distinct (map fst (bw_dirs w)) \<Longrightarrow> distinct (map fst (bw_dirs (create_dir_all name w)))"
  "bw_dir (create_dir_all name w) name \<noteq> None"
  by (auto simp: create_dir_all_def bw_dir_def map_of_eq_None_iff map_of_append)

lemma map_of_update:
  "map_of (map (\<lambda>(n, d). if n = name then (n, f d) else (n, d)) ds) n =
    map_option (\<lambda>d. if n = name then f d else d) (map_of ds n)"
  by (induction ds) auto

lemma update_dir_laws:
  "bw_faults (update_dir name f w) = bw_faults w" "bw_storage (update_dir name f w) = bw_storage w"
  "map fst (bw_dirs (update_dir name f w)) = map fst (bw_dirs w)"
  "bw_dir (update_dir name f w) n = map_option (\<lambda>d. if n = name then f d else d) (bw_dir w n)"
  by (auto simp: update_dir_def bw_dir_def map_of_update)

lemma write_artifacts_run:
  assumes "quiet w" "ser_dump X dump = Ok bs" "de_dump X bs = Ok dump"
    and "ser_manifest X \<lparr>sm_created_at = now, sm_checksums = encode_dump dump\<rparr> = Ok ms"
    "de_manifest X ms = Ok \<lparr>sm_created_at = now, sm_checksums = encode_dump dump\<rparr>"
  shows "\<exists>w'. write_snapshot_artifacts X now name dump w = (Some (Ok ()), w') \<and> quiet w' \<and>
    bw_storage w' = bw_storage w \<and> holds_dump X w' name now dump"
proof -
  let ?w1 = "create_dir_all name w"
  let ?w2 = "update_dir name (\<lambda>d. d\<lparr>sd_data := Some bs\<rparr>) ?w1"
  let ?w3 = "update_dir name (\<lambda>d. d\<lparr>sd_manifest := Some ms\<rparr>) ?w2"
  obtain d where "bw_dir ?w1 name = Some d" using create_dir_laws(4) by blast
  hence "holds_dump X ?w3 name now dump" using assms(3,5) by (simp add: holds_dump_def update_dir_laws)
  moreover have "quiet ?w3" "bw_storage ?w3 = bw_storage w"
    using assms(1) by (simp_all add: quiet_def update_dir_laws create_dir_laws)
  moreover have "write_snapshot_artifacts X now name dump w = (Some (Ok ()), ?w3)"
    using assms(1,2,4)
    by (simp add: write_snapshot_artifacts_def Let_def act_bind_run act_bind_result io_quiet quiet_def
        update_dir_laws create_dir_laws)
  ultimately show ?thesis by blast
qed

lemma map_of_without: "map_of (filter (\<lambda>(n, _). n \<noteq> name) ds) k = (if k = name then None else map_of ds k)"
  by (induction ds) auto

lemma delete_snapshot_run:
  assumes "bw_faults w = []" "bw_dir w name \<noteq> None"
  shows "\<exists>w'. delete_snapshot name w = (Some (Ok ()), w') \<and> bw_faults w' = [] \<and> bw_storage w' = bw_storage w \<and>
    (\<forall>n. bw_dir w' n = (if n = name then None else bw_dir w n))"
  using assms by (simp add: delete_snapshot_def io_quiet bw_dir_def map_of_without)

lemma prune_loop_run:
  assumes "bw_faults w = []" "distinct (map si_id ss)" "\<forall>s \<in> set ss. bw_dir w (si_id s) \<noteq> None"
  shows "\<exists>w'. act_for ss (\<lambda>s. if P s then delete_snapshot (si_id s) else act_ok ()) w = (Some (Ok ()), w') \<and>
    bw_faults w' = [] \<and> bw_storage w' = bw_storage w \<and>
    (\<forall>n. bw_dir w' n = (if \<exists>s \<in> set ss. P s \<and> si_id s = n then None else bw_dir w n))"
  using assms
proof (induction ss arbitrary: w)
  case (Cons s ss)
  show ?case
  proof (cases "P s")
    case True
    obtain w1 where w1: "delete_snapshot (si_id s) w = (Some (Ok ()), w1)" "bw_faults w1 = []"
      "bw_storage w1 = bw_storage w" "\<forall>n. bw_dir w1 n = (if n = si_id s then None else bw_dir w n)"
      using delete_snapshot_run [OF Cons.prems(1)] Cons.prems(3) by force
    have "\<forall>t \<in> set ss. bw_dir w1 (si_id t) \<noteq> None" using Cons.prems(2,3) w1(4) by (force simp: image_iff)
    from Cons.IH [OF w1(2) _ this] show ?thesis
      using Cons.prems(2) w1 True by (fastforce simp: act_bind_run)
  next
    case False
    thus ?thesis using Cons by (simp add: act_bind_run act_run)
  qed
qed (simp add: act_run)

definition listed :: "(string \<times> snapshot_dir) list \<Rightarrow> snapshot_info list" where
  "listed ds = List.map_filter (\<lambda>(name, _).
    case parse_u64 name of None \<Rightarrow> None | Some t \<Rightarrow> Some \<lparr>si_id = name, si_created_at = t\<rparr>) ds"

lemma listed_laws:
  "s \<in> set (listed ds) \<Longrightarrow> si_id s \<in> fst ` set ds \<and> parse_u64 (si_id s) = Some (si_created_at s)"
  "distinct (map fst ds) \<Longrightarrow> distinct (map si_id (listed ds))"
proof -
  show "s \<in> set (listed ds) \<Longrightarrow> si_id s \<in> fst ` set ds \<and> parse_u64 (si_id s) = Some (si_created_at s)" for s
    by (induction ds) (auto simp: listed_def map_filter_simps split: option.splits)
  then have sub: "si_id ` set (listed ds) \<subseteq> fst ` set ds" for ds
    by (induction ds) (auto simp: listed_def map_filter_simps split: option.splits)
  show "distinct (map fst ds) \<Longrightarrow> distinct (map si_id (listed ds))"
  proof (induction ds)
    case (Cons d ds)
    obtain n x where "d = (n, x)" by (cases d)
    thus ?case using Cons sub [of ds] by (auto simp: listed_def map_filter_simps image_subset_iff split: option.splits)
  qed (simp add: listed_def map_filter_simps)
qed

lemma prune_run:
  assumes "quiet w" "parse_u64 name = Some t" "saturating_sub now (bc_retention_secs (bm_config M)) \<le> t"
  shows "\<exists>w'. prune_retention M now w = (Some (Ok ()), w') \<and> bw_faults w' = [] \<and> bw_storage w' = bw_storage w \<and>
    bw_dir w' name = bw_dir w name"
proof -
  let ?ss = "sort_key si_created_at (sort_key si_created_at (listed (bw_dirs w)))"
  let ?P = "\<lambda>s. si_created_at s < saturating_sub now (bc_retention_secs (bm_config M))"
  have "distinct (map si_id ?ss)"
    using listed_laws(2) assms(1) by (simp add: quiet_def distinct_map)
  moreover have "\<forall>s \<in> set ?ss. bw_dir w (si_id s) \<noteq> None"
    using listed_laws(1) by (simp add: bw_dir_def map_of_eq_None_iff)
  ultimately obtain w' where w': "act_for ?ss (\<lambda>s. if ?P s then delete_snapshot (si_id s) else act_ok ()) w = (Some (Ok ()), w')"
    "bw_faults w' = []" "bw_storage w' = bw_storage w"
    "\<forall>n. bw_dir w' n = (if \<exists>s \<in> set ?ss. ?P s \<and> si_id s = n then None else bw_dir w n)"
    using prune_loop_run [of w ?ss ?P] assms(1) by (auto simp: quiet_def)
  have "\<not> (\<exists>s \<in> set ?ss. ?P s \<and> si_id s = name)"
    using assms(2,3) listed_laws(1) by (fastforce simp: not_less)
  hence "bw_dir w' name = bw_dir w name" using w'(4) by (simp only: if_False)
  thus ?thesis
    using w'(1-3) assms(1)
    by (simp add: prune_retention_def list_snapshots_def act_bind_run io_quiet quiet_def listed_def [symmetric] Let_def)
qed

section \<open>Creating and restoring\<close>

definition snapshot_serde_law :: "backup_ext \<Rightarrow> bool" where
  "snapshot_serde_law X \<longleftrightarrow> (\<forall>d bs. ser_dump X d = Ok bs \<longrightarrow> de_dump X bs = Ok d) \<and>
    (\<forall>m bs. ser_manifest X m = Ok bs \<longrightarrow> de_manifest X bs = Ok m)"

text \<open>
  The verdict on a restore whose dump is intact: it depends on the number of nodes that can serve writes at that moment,
  and on nothing else.
\<close>

definition restore_verdict :: "'s backup_manager \<Rightarrow> nat \<Rightarrow> (ops_error, restore_report) result" where
  "restore_verdict R rows =
    (if quorum_ok R then Ok \<lparr>rp_restored_rows = rows, rp_validation =
       \<lparr>vr_checksum_ok = True, vr_schema_ok = True, vr_quorum_ok = True, vr_smoke_ok = True\<rparr>\<rparr>
     else Err (ValidationFailed ''post-restore validation pipeline failed''))"

lemma contents_rows: "sum_list (map (length \<circ> snd) (contents v)) = sum_list (map (length \<circ> v) cf_all)"
proof -
  have "sum_list (map (length \<circ> snd) (contents v)) = sum (length \<circ> snd) (set (contents v))"
    using bt_sorted_distinct [OF contents_laws(1), of v] by (simp add: sum_list_distinct_conv_sum_set distinct_map)
  also have "\<dots> = sum (length \<circ> v) (set cf_all)"
    unfolding contents_set by (subst sum.reindex) (auto simp: inj_on_def comp_def)
  finally show ?thesis by (simp add: sum_list_distinct_conv_sum_set cf_all_distinct)
qed

lemma schema_of_contents: "schema_consistency_ok (images X (contents v))"
  by (simp add: schema_consistency_ok_def images_get contents_laws cf_all_def)

context storage_engine
begin

lemma restore_run:
  assumes "base64_std_law X" "bw_faults w = []" "inv (bw_storage w)" "bm_engine M = E" "\<And>cf. bt_sorted (v cf)"
    and "holds_dump X w name now (images X (contents v))"
  shows "\<exists>s. restore_snapshot X M name w =
      (Some (restore_verdict M (sum_list (map (length \<circ> v) cf_all))), w\<lparr>bw_storage := s\<rparr>) \<and>
    inv s \<and> (\<forall>cf \<in> set cf_all. view s cf = v cf)"
proof -
  obtain s where s: "apply_dump X M (images X (contents v)) w =
      (Some (Ok (sum_list (map (length \<circ> snd) (contents v)))), w\<lparr>bw_storage := s\<rparr>)" "inv s"
    "\<forall>cf \<in> set cf_all. view s cf = v cf"
    using apply_dump_run [where v = v, OF assms(1,3,4)] assms(5) by blast
  let ?w = "w\<lparr>bw_storage := s\<rparr>"
  have "holds_dump X ?w name now (images X (contents v))"
    using assms(6) by (simp add: holds_dump_def bw_dir_def)
  hence "read_snapshot_artifacts X name ?w =
      (Some (Ok (\<lparr>sm_created_at = now, sm_checksums = encode_dump (images X (contents v))\<rparr>, images X (contents v))), ?w)"
    using assms(2) by (simp add: read_artifacts_run)
  moreover have "smoke_test_ok X M (images X (contents v)) ?w = (Some (Ok True), ?w)"
    using smoke_run [OF assms(1) _ assms(4), of ?w] s by (auto simp: smoke_test_ok_def contents_set)
  ultimately show ?thesis
    using s read_artifacts_run [OF assms(2,6)]
    by (intro exI [of _ s]) (simp add: restore_snapshot_def validate_snapshot_def act_bind_run act_run schema_of_contents
        restore_verdict_def contents_rows)
qed

lemma create_run:
  assumes "snapshot_serde_law X" "quiet w" "inv (bw_storage w)" "bm_engine M = E"
    and "bm_flush M = mem_flush" "bm_checkpoint M = mem_checkpoint"
    and "saturating_sub now3 (bc_retention_secs (bm_config M)) \<le> now1"
    and "ser_dump X (images X (contents (view (bw_storage w)))) = Ok bs"
    and "ser_manifest X \<lparr>sm_created_at = now2, sm_checksums = encode_dump (images X (contents (view (bw_storage w))))\<rparr> = Ok ms"
  shows "\<exists>w'. create_snapshot X M now1 now2 now3 w = (Some (Ok (show_nat (unat now1))), w') \<and>
    bw_storage w' = bw_storage w \<and> bw_faults w' = [] \<and>
    holds_dump X w' (show_nat (unat now1)) now2 (images X (contents (view (bw_storage w))))"
proof -
  let ?n = "show_nat (unat now1)" and ?d = "images X (contents (view (bw_storage w)))"
  let ?w1 = "create_dir_all ?n w"
  have w1: "quiet ?w1" "bw_storage ?w1 = bw_storage w"
    using assms(2) by (simp_all add: quiet_def create_dir_laws)
  have de: "de_dump X bs = Ok ?d" "de_manifest X ms = Ok \<lparr>sm_created_at = now2, sm_checksums = encode_dump ?d\<rparr>"
    using assms(1,8,9) by (auto simp: snapshot_serde_law_def)
  obtain w2 where w2: "write_snapshot_artifacts X now2 ?n ?d ?w1 = (Some (Ok ()), w2)" "quiet w2"
    "bw_storage w2 = bw_storage w" "holds_dump X w2 ?n now2 ?d"
    using write_artifacts_run [OF w1(1) assms(8) de(1) assms(9) de(2)] w1(2) by auto
  obtain w3 where w3: "prune_retention M now3 w2 = (Some (Ok ()), w3)" "bw_faults w3 = []"
    "bw_storage w3 = bw_storage w" "bw_dir w3 ?n = bw_dir w2 ?n"
    using prune_run [OF w2(2) parse_u64_show assms(7)] w2(3) by auto
  have "dump_from_engine X M ?w1 = (Some (Ok ?d), ?w1)"
    using dump_run [of ?w1 M X] assms(3,4) w1(2) by simp
  moreover have "holds_dump X w3 ?n now2 ?d" using w2(4) w3(4) by (simp add: holds_dump_def)
  ultimately show ?thesis
    using w2 w3 assms(2,5,6)
    by (simp add: create_snapshot_def Let_def mem_flush_def mem_checkpoint_def act_bind_run act_run act_map_err_def
        io_quiet quiet_def)
qed

end

text \<open>
  C5: a snapshot round trip.  When base64 and JSON decode what they encode, the dump and its manifest
  can be serialised, no file system call fails and the retention window reaches back to the moment
  the snapshot was started, creating a snapshot of a \<open>MemEngine\<close> succeeds, leaves the storage
  alone and survives its own pruning.  Restoring it later, by any manager and over any storage whatsoever, gives every
  column family exactly the contents it had.  What the restore then answers is decided by the cluster alone: when at least
  \<open>quorum_nodes\<close> nodes (two by default) can serve writes, it is the number of restored rows with all four
  validations passed; with fewer, as on a standalone node with the default configuration, the restore answers
  \<open>ValidationFailed\<close> although the storage has been restored.
\<close>

theorem snapshot_restores:
  assumes "base64_std_law X" "snapshot_serde_law X" "quiet w" "mem_inv (bw_storage w)"
    and "bm_engine M = MemEngine" "bm_flush M = mem_flush" "bm_checkpoint M = mem_checkpoint"
    and "saturating_sub now3 (bc_retention_secs (bm_config M)) \<le> now1"
    and "dump_from_engine X M w = (Some (Ok dump), w)" "ser_dump X dump = Ok bs"
    and "ser_manifest X \<lparr>sm_created_at = now2, sm_checksums = encode_dump dump\<rparr> = Ok ms"
  shows "\<exists>name w'. create_snapshot X M now1 now2 now3 w = (Some (Ok name), w') \<and> bw_storage w' = bw_storage w \<and>
    (\<forall>R s. bm_engine R = MemEngine \<longrightarrow> mem_inv s \<longrightarrow>
      (\<exists>s'. restore_snapshot X R name (w'\<lparr>bw_storage := s\<rparr>) =
        (Some (restore_verdict R (sum_list (map (length \<circ> mem_view (bw_storage w)) cf_all))), w'\<lparr>bw_storage := s'\<rparr>) \<and>
      mem_inv s' \<and> (\<forall>cf \<in> set cf_all. mem_view s' cf = mem_view (bw_storage w) cf)))"
proof -
  let ?v = "mem_view (bw_storage w)" and ?n = "show_nat (unat now1)"
  have d: "dump = images X (contents ?v)" using mem.dump_run [OF assms(4,5)] assms(9) by simp
  obtain w' where w': "create_snapshot X M now1 now2 now3 w = (Some (Ok ?n), w')"
    "bw_storage w' = bw_storage w" "bw_faults w' = []" "holds_dump X w' ?n now2 (images X (contents ?v))"
    using mem.create_run [OF assms(2-8)] assms(10,11) d by blast
  have "holds_dump X (w'\<lparr>bw_storage := s\<rparr>) ?n now2 (images X (contents ?v))" for s
    using w'(4) by (simp add: holds_dump_def bw_dir_def)
  hence "\<exists>s'. restore_snapshot X R ?n (w'\<lparr>bw_storage := s\<rparr>) =
        (Some (restore_verdict R (sum_list (map (length \<circ> ?v) cf_all))), w'\<lparr>bw_storage := s'\<rparr>) \<and>
      mem_inv s' \<and> (\<forall>cf \<in> set cf_all. mem_view s' cf = ?v cf)" if "bm_engine R = MemEngine" "mem_inv s" for R s
    using mem.restore_run [OF assms(1) _ _ that(1), of "w'\<lparr>bw_storage := s\<rparr>" ?v] w'(3) that(2)
      mem.view_sorted [OF assms(4)] by fastforce
  with w' show ?thesis by blast
qed

text \<open>A database of one row, JSON that knows one dump and one manifest, and the default configuration on two healthy nodes.\<close>

definition filled :: mem_engine where
  "filled = after_put MemEngine CF_DEFAULT [1] [2] mem_new"

lemma filled_laws: "mem_inv filled" "mem_view filled CF_DEFAULT = [([1], [2])]"
  using mem.put_run [OF mem_inv_new, of CF_DEFAULT "[1]" "[2]"]
  by (auto simp: filled_def mem_view_def mem_new_def init_cf_map_def cf_all_def)

lemma filled_rows: "sum_list (map (length \<circ> mem_view filled) cf_all) = 1"
proof -
  have "mem_view filled = (mem_view mem_new)(CF_DEFAULT := bt_insert [1] [2] (mem_view mem_new CF_DEFAULT))"
    using mem.put_run [OF mem_inv_new, of CF_DEFAULT "[1]" "[2]"] by (auto simp: filled_def cf_all_def)
  moreover have "mem_view mem_new cf = []" if "cf \<in> set cf_all" for cf
    using that by (auto simp: mem_view_def mem_new_def init_cf_map_def cf_all_def)
  ultimately show ?thesis
    by (simp add: cf_all_def CF_DEFAULT_def CF_METADATA_def CF_INDEXES_def CF_TOMBSTONES_def CF_HINTS_def CF_SYSTEM_def)
qed

definition known_ext :: "snapshot_dump \<Rightarrow> snapshot_manifest \<Rightarrow> backup_ext" where
  "known_ext d m = \<lparr>b64_encode = of_bytes, b64_decode = Ok,
    ser_dump = (\<lambda>x. if x = d then Ok [0] else Err []), de_dump = (\<lambda>_. Ok d),
    ser_manifest = (\<lambda>x. if x = m then Ok [1] else Err []), de_manifest = (\<lambda>_. Ok m)\<rparr>"

definition filled_dump :: snapshot_dump where
  "filled_dump = images (known_ext [] \<lparr>sm_created_at = 0, sm_checksums = []\<rparr>) (contents (mem_view filled))"

definition pair_manager :: "mem_engine backup_manager" where
  "pair_manager = \<lparr>bm_engine = MemEngine, bm_flush = mem_flush, bm_checkpoint = mem_checkpoint,
    bm_all_nodes = [NodeId 1, NodeId 2], bm_node_state = (\<lambda>_. Some Healthy), bm_config = backup_config_new\<rparr>"

lemma pair_manager_laws:
  "bm_engine pair_manager = MemEngine" "bm_flush pair_manager = mem_flush" "bm_checkpoint pair_manager = mem_checkpoint"
  "quorum_ok pair_manager"
  by (simp_all add: pair_manager_def quorum_ok_def backup_config_new_def can_serve_writes_def)

lemma filled_dump_run:
  fixes m defines "X \<equiv> known_ext filled_dump m"
  shows "dump_from_engine X pair_manager \<lparr>bw_storage = filled, bw_dirs = [], bw_faults = []\<rparr> =
    (Some (Ok filled_dump), \<lparr>bw_storage = filled, bw_dirs = [], bw_faults = []\<rparr>)"
proof -
  have "images X (contents (mem_view filled)) = filled_dump"
    by (simp add: filled_dump_def images_def dump_row_def known_ext_def X_def cong: map_cong)
  thus ?thesis
    using mem.dump_run [of "\<lparr>bw_storage = filled, bw_dirs = [], bw_faults = []\<rparr>" pair_manager X] filled_laws(1)
    by (simp add: pair_manager_def)
qed

theorem snapshot_restores_witness:
  "\<exists>X name w' s' s''. create_snapshot X pair_manager 5 6 7 \<lparr>bw_storage = filled, bw_dirs = [], bw_faults = []\<rparr> =
      (Some (Ok name), w') \<and>
    restore_snapshot X pair_manager name (w'\<lparr>bw_storage := mem_new\<rparr>) =
      (Some (Ok \<lparr>rp_restored_rows = 1, rp_validation =
        \<lparr>vr_checksum_ok = True, vr_schema_ok = True, vr_quorum_ok = True, vr_smoke_ok = True\<rparr>\<rparr>), w'\<lparr>bw_storage := s'\<rparr>) \<and>
    mem_view s' CF_DEFAULT = [([1], [2])] \<and>
    restore_snapshot X (pair_manager\<lparr>bm_all_nodes := [NodeId 1]\<rparr>) name (w'\<lparr>bw_storage := mem_new\<rparr>) =
      (Some (Err (ValidationFailed ''post-restore validation pipeline failed'')), w'\<lparr>bw_storage := s''\<rparr>) \<and>
    mem_view s'' CF_DEFAULT = [([1], [2])]"
proof -
  let ?m = "\<lparr>sm_created_at = 6, sm_checksums = encode_dump filled_dump\<rparr>"
  let ?X = "known_ext filled_dump ?m" and ?w = "\<lparr>bw_storage = filled, bw_dirs = [], bw_faults = []\<rparr>"
  let ?P = "\<lambda>R name w'. \<exists>s'. restore_snapshot ?X R name (w'\<lparr>bw_storage := mem_new\<rparr>) =
        (Some (restore_verdict R 1), w'\<lparr>bw_storage := s'\<rparr>) \<and> mem_view s' CF_DEFAULT = [([1], [2])]"
  have laws: "base64_std_law ?X" "snapshot_serde_law ?X" "ser_dump ?X filled_dump = Ok [0]" "ser_manifest ?X ?m = Ok [1]"
    by (auto simp: base64_std_law_def snapshot_serde_law_def known_ext_def)
  have dump: "dump_from_engine ?X pair_manager ?w = (Some (Ok filled_dump), ?w)" by (rule filled_dump_run)
  have "quiet ?w" "mem_inv (bw_storage ?w)" by (simp_all add: quiet_def filled_laws)
  moreover have "saturating_sub 7 (bc_retention_secs (bm_config pair_manager)) \<le> 5"
    by (simp add: pair_manager_def backup_config_new_def saturating_sub_def)
  ultimately obtain name w' where c: "create_snapshot ?X pair_manager 5 6 7 ?w = (Some (Ok name), w')"
    and r: "\<forall>R s. bm_engine R = MemEngine \<longrightarrow> mem_inv s \<longrightarrow>
      (\<exists>s'. restore_snapshot ?X R name (w'\<lparr>bw_storage := s\<rparr>) =
        (Some (restore_verdict R (sum_list (map (length \<circ> mem_view (bw_storage ?w)) cf_all))), w'\<lparr>bw_storage := s'\<rparr>) \<and>
      mem_inv s' \<and> (\<forall>cf \<in> set cf_all. mem_view s' cf = mem_view (bw_storage ?w) cf))"
    using snapshot_restores [OF laws(1,2) _ _ pair_manager_laws(1-3) _ dump laws(3,4)] by blast
  have r: "?P R name w'" if "bm_engine R = MemEngine" for R
    using r [rule_format, OF that mem_inv_new] filled_laws(2) filled_rows by (auto simp: cf_all_def)
  have "restore_verdict pair_manager 1 = Ok \<lparr>rp_restored_rows = 1, rp_validation =
        \<lparr>vr_checksum_ok = True, vr_schema_ok = True, vr_quorum_ok = True, vr_smoke_ok = True\<rparr>\<rparr>"
    "restore_verdict (pair_manager\<lparr>bm_all_nodes := [NodeId 1]\<rparr>) 1 = Err (ValidationFailed ''post-restore validation pipeline failed'')"
    by (simp_all add: restore_verdict_def quorum_ok_def pair_manager_def backup_config_new_def can_serve_writes_def)
  moreover obtain s' s'' where "restore_snapshot ?X pair_manager name (w'\<lparr>bw_storage := mem_new\<rparr>) =
      (Some (restore_verdict pair_manager 1), w'\<lparr>bw_storage := s'\<rparr>)" "mem_view s' CF_DEFAULT = [([1], [2])]"
    "restore_snapshot ?X (pair_manager\<lparr>bm_all_nodes := [NodeId 1]\<rparr>) name (w'\<lparr>bw_storage := mem_new\<rparr>) =
      (Some (restore_verdict (pair_manager\<lparr>bm_all_nodes := [NodeId 1]\<rparr>) 1), w'\<lparr>bw_storage := s''\<rparr>)"
    "mem_view s'' CF_DEFAULT = [([1], [2])]"
    using r [of pair_manager] r [of "pair_manager\<lparr>bm_all_nodes := [NodeId 1]\<rparr>"] pair_manager_laws(1) by auto
  ultimately show ?thesis using c by metis
qed

section \<open>A dump that does not decode\<close>

text \<open>
  A restore clears the database before it decodes the dump.  When the files of the snapshot
  read well and one of its rows is not base64, the restore fails with that error, and the database
  it was meant to repair is left with every column family empty.
\<close>

theorem failed_restore_wipes:
  assumes "mem_inv (bw_storage w)" "bm_engine M = MemEngine"
    and "read_snapshot_artifacts X name w = (Some (Ok (m, dump)), w)"
    and "restore_batch X dump (batch_new, 0) = Err e"
  shows "\<exists>s. restore_snapshot X M name w = (Some (Err e), w\<lparr>bw_storage := s\<rparr>) \<and>
    (\<forall>cf \<in> set cf_all. mem_view s cf = [])"
proof -
  obtain s where "act_bind (bw_store (clear_batch MemEngine cf_all batch_new)) (write_unless_empty MemEngine) w =
      (Some (Ok ()), w\<lparr>bw_storage := s\<rparr>)" "mem_view s = (\<lambda>cf. if cf \<in> set cf_all then [] else mem_view (bw_storage w) cf)"
    using mem.clear_run [OF assms(1)] by blast
  thus ?thesis
    using assms(2-4) by (auto simp: restore_snapshot_def mem.apply_dump_eq act_bind_run act_bind_result act_run)
qed

definition broken_ext :: backup_ext where
  "broken_ext = (known_ext [(CF_DEFAULT, [\<lparr>sr_key_b64 = ''*'', sr_value_b64 = ''AA==''\<rparr>])] \<lparr>sm_created_at = 0, sm_checksums = []\<rparr>)
    \<lparr>b64_decode := (\<lambda>bs. if bs = as_bytes ''*'' then Err ''Invalid byte 42, offset 0.'' else Ok bs)\<rparr>"

theorem failed_restore_wipes_witness:
  "\<exists>w s. mem_view (bw_storage w) CF_DEFAULT = [([1], [2])] \<and>
    restore_snapshot broken_ext pair_manager ''0'' w =
      (Some (Err (ValidationFailed ''Invalid byte 42, offset 0.'')), w\<lparr>bw_storage := s\<rparr>) \<and>
    mem_view s CF_DEFAULT = []"
proof -
  let ?w = "\<lparr>bw_storage = filled, bw_dirs = [(''0'', \<lparr>sd_data = Some [0], sd_manifest = Some [1]\<rparr>)], bw_faults = []\<rparr>"
  let ?m = "\<lparr>sm_created_at = 0, sm_checksums = []\<rparr>" and ?d = "[(CF_DEFAULT, [\<lparr>sr_key_b64 = ''*'', sr_value_b64 = ''AA==''\<rparr>])]"
  have "read_snapshot_artifacts broken_ext ''0'' ?w = (Some (Ok (?m, ?d)), ?w)"
    by (simp add: read_snapshot_artifacts_def read_file_def bw_dir_def broken_ext_def known_ext_def act_bind_run
        act_bind_result act_run io_quiet)
  moreover have "restore_batch broken_ext ?d (batch_new, 0) = Err (ValidationFailed ''Invalid byte 42, offset 0.'')"
    by (simp add: broken_ext_def known_ext_def decode_field_def)
  moreover have "CF_DEFAULT \<in> set cf_all" "bm_engine pair_manager = MemEngine"
    by (simp_all add: cf_all_def pair_manager_def)
  ultimately obtain s where "restore_snapshot broken_ext pair_manager ''0'' ?w =
      (Some (Err (ValidationFailed ''Invalid byte 42, offset 0.'')), ?w\<lparr>bw_storage := s\<rparr>)" "mem_view s CF_DEFAULT = []"
    using failed_restore_wipes [of ?w pair_manager broken_ext "''0''" ?m ?d] filled_laws(1) by auto
  thus ?thesis using filled_laws(2) by (intro exI [of _ ?w] exI [of _ s]) simp
qed

end
