(* ===== verification/Ops.thy ===== *)
theory Ops
  imports Restore
begin

text \<open>
  The rest of \<open>crates/bashfuldb-ops/src/lib.rs\<close>: the health of a node and the HTTP endpoints that show it, the metrics
  registry, the snapshot scheduler and the membership of a standalone node.  The \<open>prometheus\<close> crate is the
  record \<open>prom_ext\<close>: building a metric vector, registering it, picking the metric of some label values, and
  encoding what is registered.
\<close>

section \<open>Health\<close>

record health_report =
  hr_node_state :: node_state
  hr_dependencies_ok :: bool
  hr_ready :: bool
  hr_healthy :: bool

record node_health =
  nh_state :: node_state
  nh_state_poisoned :: bool
  nh_dependencies_ok :: bool
  nh_restoring :: bool

definition node_health_new :: "node_state \<Rightarrow> node_health" where
  "node_health_new initial_state =
    \<lparr>nh_state = initial_state, nh_state_poisoned = False, nh_dependencies_ok = True, nh_restoring = False\<rparr>"

definition set_state :: "node_state \<Rightarrow> node_health \<Rightarrow> (ops_error, unit) result \<times> node_health" where
  "set_state state h =
    (if nh_state_poisoned h then (Err (LockPoisoned ''node health write lock''), h) else (Ok (), h\<lparr>nh_state := state\<rparr>))"

definition set_dependencies_ok :: "bool \<Rightarrow> node_health \<Rightarrow> node_health" where
  "set_dependencies_ok ok h = h\<lparr>nh_dependencies_ok := ok\<rparr>"

definition set_restoring :: "bool \<Rightarrow> node_health \<Rightarrow> node_health" where
  "set_restoring restoring h = h\<lparr>nh_restoring := restoring\<rparr>"

definition is_healthy :: "node_health \<Rightarrow> bool" where
  "is_healthy h \<longleftrightarrow> (if nh_state_poisoned h then False
     else nh_state h = Healthy \<and> nh_dependencies_ok h \<and> \<not> nh_restoring h)"

definition is_ready :: "node_health \<Rightarrow> bool" where
  "is_ready h \<longleftrightarrow> (if nh_state_poisoned h then False
     else can_serve_writes (nh_state h) \<and> nh_dependencies_ok h \<and> \<not> nh_restoring h)"

definition detailed_status :: "node_health \<Rightarrow> health_report" where
  "detailed_status h =
    (let state = (if nh_state_poisoned h then Down else nh_state h);
         dependencies_ok = nh_dependencies_ok h; restoring = nh_restoring h;
         healthy = (state = Healthy \<and> dependencies_ok \<and> \<not> restoring);
         ready = (can_serve_writes state \<and> dependencies_ok \<and> \<not> restoring)
     in \<lparr>hr_node_state = state, hr_dependencies_ok = dependencies_ok, hr_ready = ready, hr_healthy = healthy\<rparr>)"

section \<open>Metrics\<close>

datatype metric_kind = CounterMetric | HistogramMetric | GaugeMetric

record ('v, 'h, 'r) prom_ext =
  pr_new_vec :: "metric_kind \<Rightarrow> string \<Rightarrow> string \<Rightarrow> string list \<Rightarrow> (string, 'v) result"
  pr_register :: "'v \<Rightarrow> 'r \<Rightarrow> (string, unit) result \<times> 'r"
  pr_get_metric :: "'v \<Rightarrow> string list \<Rightarrow> (string, 'h) result"
  pr_encode :: "'r \<Rightarrow> (string, bytes) result"
  pr_registry_new :: 'r
  pr_utf8_error :: "bytes \<Rightarrow> string"

text \<open>One map and one lock for each kind of metric.\<close>

record ('v, 'r) metrics_registry =
  mr_registry :: 'r
  mr_defs :: "metric_kind \<Rightarrow> string \<rightharpoonup> 'v"
  mr_poisoned :: "metric_kind \<Rightarrow> bool"

definition metrics_new :: "('v, 'h, 'r) prom_ext \<Rightarrow> ('v, 'r) metrics_registry" where
  "metrics_new P = \<lparr>mr_registry = pr_registry_new P, mr_defs = (\<lambda>_. Map.empty), mr_poisoned = (\<lambda>_. False)\<rparr>"

definition poison :: "metric_kind \<Rightarrow> ('v, 'r) metrics_registry \<Rightarrow> ('v, 'r) metrics_registry" where
  "poison kind m = m\<lparr>mr_poisoned := (mr_poisoned m)(kind := True)\<rparr>"

text \<open>The body of \<open>counter\<close>, \<open>histogram\<close> and \<open>gauge\<close>; \<open>None\<close> is a panic, which poisons the lock it holds.\<close>

definition metric_of ::
  "('v, 'h, 'r) prom_ext \<Rightarrow> metric_kind \<Rightarrow> string \<Rightarrow> (string \<times> string) list \<Rightarrow> ('v, 'r) metrics_registry \<Rightarrow>
    'h option \<times> ('v, 'r) metrics_registry" where
  "metric_of P kind name labels m =
    (let label_names = map fst labels; label_values = map snd labels
     in if mr_poisoned m kind then (None, m)
        else
          let pick = (\<lambda>vec m. case pr_get_metric P vec label_values of
                Err _ \<Rightarrow> (None, poison kind m)
              | Ok h \<Rightarrow> (Some h, m))
          in case mr_defs m kind name of
              Some vec \<Rightarrow> pick vec m
            | None \<Rightarrow>
                (case pr_new_vec P kind name (''bashfuldb metric '' @ name) label_names of
                   Err _ \<Rightarrow> (None, poison kind m)
                 | Ok vec \<Rightarrow>
                     pick vec (m\<lparr>mr_registry := snd (pr_register P vec (mr_registry m)),
                       mr_defs := (mr_defs m)(kind := (mr_defs m kind)(name \<mapsto> vec))\<rparr>)))"

definition counter ::
  "('v, 'h, 'r) prom_ext \<Rightarrow> string \<Rightarrow> (string \<times> string) list \<Rightarrow> ('v, 'r) metrics_registry \<Rightarrow>
    'h option \<times> ('v, 'r) metrics_registry" where
  "counter P = metric_of P CounterMetric"

definition histogram ::
  "('v, 'h, 'r) prom_ext \<Rightarrow> string \<Rightarrow> (string \<times> string) list \<Rightarrow> ('v, 'r) metrics_registry \<Rightarrow>
    'h option \<times> ('v, 'r) metrics_registry" where
  "histogram P = metric_of P HistogramMetric"

definition gauge ::
  "('v, 'h, 'r) prom_ext \<Rightarrow> string \<Rightarrow> (string \<times> string) list \<Rightarrow> ('v, 'r) metrics_registry \<Rightarrow>
    'h option \<times> ('v, 'r) metrics_registry" where
  "gauge P = metric_of P GaugeMetric"

definition render :: "('v, 'h, 'r) prom_ext \<Rightarrow> ('v, 'r) metrics_registry \<Rightarrow> (ops_error, string) result" where
  "render P m =
    (case pr_encode P (mr_registry m) of
       Err e \<Rightarrow> Err (OpsMetrics e)
     | Ok buf \<Rightarrow> (case from_utf8 buf of None \<Rightarrow> Err (ValidationFailed (pr_utf8_error P buf)) | Some s \<Rightarrow> Ok s))"

text \<open>The metrics of \<open>OpsMetrics\<close>, in the order of its fields.\<close>

definition ops_metric_fields :: "(metric_kind \<times> string) list" where
  "ops_metric_fields =
    [(CounterMetric, ''bashfuldb_quorum_read_total''), (CounterMetric, ''bashfuldb_quorum_write_total''),
     (CounterMetric, ''bashfuldb_quorum_failure_total''), (HistogramMetric, ''bashfuldb_quorum_latency_seconds''),
     (CounterMetric, ''bashfuldb_cache_hit_total''), (CounterMetric, ''bashfuldb_cache_miss_total''),
     (CounterMetric, ''bashfuldb_cache_eviction_total''), (CounterMetric, ''bashfuldb_gossip_rounds_total''),
     (GaugeMetric, ''bashfuldb_gossip_convergence_lag_seconds''), (CounterMetric, ''bashfuldb_read_repair_total''),
     (CounterMetric, ''bashfuldb_anti_entropy_runs_total''), (GaugeMetric, ''bashfuldb_hints_pending''),
     (CounterMetric, ''bashfuldb_hints_delivered_total''), (CounterMetric, ''bashfuldb_hints_expired_total''),
     (GaugeMetric, ''bashfuldb_index_materialization_active''),
     (CounterMetric, ''bashfuldb_index_materialization_completed_total''), (GaugeMetric, ''bashfuldb_storage_bytes''),
     (GaugeMetric, ''bashfuldb_storage_compaction_running'')]"

primrec register_all ::
  "('v, 'h, 'r) prom_ext \<Rightarrow> (metric_kind \<times> string) list \<Rightarrow> ('v, 'r) metrics_registry \<Rightarrow>
    'h list option \<times> ('v, 'r) metrics_registry" where
  "register_all P [] m = (Some [], m)"
| "register_all P (f # fs) m =
    (case metric_of P (fst f) (snd f) [] m of
       (None, m) \<Rightarrow> (None, m)
     | (Some h, m) \<Rightarrow> (case register_all P fs m of (hs, m) \<Rightarrow> (map_option (Cons h) hs, m)))"

definition ops_metrics_register ::
  "('v, 'h, 'r) prom_ext \<Rightarrow> ('v, 'r) metrics_registry \<Rightarrow> 'h list option \<times> ('v, 'r) metrics_registry" where
  "ops_metrics_register P = register_all P ops_metric_fields"

section \<open>Endpoints\<close>

definition show_ops_error :: "(string \<Rightarrow> string) \<Rightarrow> ops_error \<Rightarrow> string" where
  "show_ops_error dbg e =
    (case e of
       OpsIo m \<Rightarrow> ''io error: '' @ m
     | OpsStorage err \<Rightarrow> ''storage error: '' @ storage_error_display dbg err
     | OpsJson m \<Rightarrow> ''json error: '' @ m
     | OpsMetrics m \<Rightarrow> ''metrics error: '' @ m
     | SnapshotNotFound n \<Rightarrow> ''snapshot not found: '' @ n
     | ValidationFailed m \<Rightarrow> ''validation failed: '' @ m
     | LockPoisoned l \<Rightarrow> ''lock poisoned: '' @ l)"

record ops_response =
  or_status :: nat
  or_content_type :: "string option"
  or_body :: string

definition status_only :: "nat \<Rightarrow> ops_response" where
  "status_only code = \<lparr>or_status = code, or_content_type = None, or_body = []\<rparr>"

record ('v, 'h, 'r) observability_state =
  os_health :: node_health
  os_prom :: "('v, 'h, 'r) prom_ext"
  os_metrics :: "('v, 'r) metrics_registry"

definition health_handler :: "('v, 'h, 'r) observability_state \<Rightarrow> ops_response" where
  "health_handler state = (if is_healthy (os_health state) then status_only 200 else status_only 503)"

definition ready_handler :: "('v, 'h, 'r) observability_state \<Rightarrow> ops_response" where
  "ready_handler state = (if is_ready (os_health state) then status_only 200 else status_only 503)"

definition metrics_handler :: "(string \<Rightarrow> string) \<Rightarrow> ('v, 'h, 'r) observability_state \<Rightarrow> ops_response" where
  "metrics_handler dbg state =
    (case render (os_prom state) (os_metrics state) of
       Ok body \<Rightarrow> \<lparr>or_status = 200, or_content_type = Some ''text/plain; version=0.0.4; charset=utf-8'', or_body = body\<rparr>
     | Err err \<Rightarrow> \<lparr>or_status = 500, or_content_type = Some ''text/plain; charset=utf-8'', or_body = show_ops_error dbg err\<rparr>)"

datatype ops_route = HealthRoute | ReadyRoute | MetricsRoute

fun observability_router :: "(string \<Rightarrow> string) \<Rightarrow> ('v, 'h, 'r) observability_state \<Rightarrow> ops_route \<Rightarrow> ops_response" where
  "observability_router dbg state HealthRoute = health_handler state"
| "observability_router dbg state ReadyRoute = ready_handler state"
| "observability_router dbg state MetricsRoute = metrics_handler dbg state"

section \<open>The scheduler\<close>

text \<open>What the \<open>select!\<close> of the scheduler sees, in order; a tick carries the times \<open>create_snapshot\<close> will read.\<close>

datatype 't scheduler_event = SchedulerTick 't | SchedulerShutdown

fun scheduler_run :: "('t \<Rightarrow> ('w, 'e, string) act) \<Rightarrow> 't scheduler_event list \<Rightarrow> ('w, 'e, unit) act" where
  "scheduler_run create [] = act_ok ()"
| "scheduler_run create (SchedulerTick t # evs) = act_bind (act_try (create t)) (\<lambda>_. scheduler_run create evs)"
| "scheduler_run create (SchedulerShutdown # evs) = act_ok ()"

section \<open>A standalone node\<close>

record standalone_membership =
  sa_local :: node_id

definition standalone_owners_for_key :: "standalone_membership \<Rightarrow> bytes \<Rightarrow> nat \<Rightarrow> node_id list" where
  "standalone_owners_for_key m key n = [sa_local m]"

definition standalone_node_info :: "standalone_membership \<Rightarrow> node_id \<Rightarrow> node_info option" where
  "standalone_node_info m node = None"

definition standalone_node_state :: "standalone_membership \<Rightarrow> node_id \<Rightarrow> node_state option" where
  "standalone_node_state m node = (if node = sa_local m then Some Healthy else None)"

definition standalone_all_nodes :: "standalone_membership \<Rightarrow> node_id list" where
  "standalone_all_nodes m = [sa_local m]"

definition standalone_ring_snapshot :: "standalone_membership \<Rightarrow> ring" where
  "standalone_ring_snapshot m = ring_new"

section \<open>Properties\<close>

text \<open>
  The health endpoints agree.  For every node, \<open>GET /health\<close> and \<open>GET /ready\<close> give the same answer, because the only state
  that serves writes is \<open>Healthy\<close>; and it is 200 exactly when the detailed report says the node is healthy.
\<close>

theorem health_endpoints_agree:
  "observability_router dbg state HealthRoute = observability_router dbg state ReadyRoute \<and>
   (or_status (observability_router dbg state HealthRoute) = 200 \<longleftrightarrow> hr_healthy (detailed_status (os_health state))) \<and>
   hr_ready (detailed_status (os_health state)) = hr_healthy (detailed_status (os_health state))"
  by (simp add: health_handler_def ready_handler_def is_healthy_def is_ready_def detailed_status_def can_serve_writes_def
      status_only_def Let_def)

text \<open>A vector is built with so many labels and has a metric for every list of so many values.\<close>

definition prom_law :: "('v, 'h, 'r) prom_ext \<Rightarrow> ('v \<Rightarrow> nat) \<Rightarrow> bool" where
  "prom_law P arity \<longleftrightarrow>
    (\<forall>kind name help ls v. pr_new_vec P kind name help ls = Ok v \<longrightarrow> arity v = length ls) \<and>
    (\<forall>v vals. isl (pr_get_metric P v vals) \<longleftrightarrow> length vals \<noteq> arity v)"

lemma metric_of_Some:
  assumes "prom_law P arity" "metric_of P kind name ls m = (Some h, m')"
  shows "\<exists>v. mr_defs m' kind name = Some v \<and> arity v = length ls \<and> \<not> mr_poisoned m' kind"
proof -
  have "\<exists>v h'. mr_defs m' kind name = Some v \<and> pr_get_metric P v (map snd ls) = Ok h' \<and> \<not> mr_poisoned m' kind"
    using assms(2) by (auto simp: metric_of_def Let_def split: if_splits option.splits sum.splits)
  thus ?thesis using assms(1) by (auto simp: prom_law_def) (metis isl_def sum.disc(2) length_map)
qed

text \<open>
  A metric asked for with the wrong number of labels takes its kind down.  Once a metric has been handed out, asking for
  the same name with another number of labels panics while the lock is held, and from then on every request for a
  metric of that kind, under whatever name, panics too.
\<close>

theorem label_mismatch_poisons:
  assumes "prom_law P arity" "metric_of P kind name ls m = (Some h, m1)" "length ls' \<noteq> length ls"
  shows "\<exists>m2. metric_of P kind name ls' m1 = (None, m2) \<and> (\<forall>n l. metric_of P kind n l m2 = (None, m2))"
proof -
  obtain v where v: "mr_defs m1 kind name = Some v" "arity v = length ls" "\<not> mr_poisoned m1 kind"
    using metric_of_Some [OF assms(1,2)] by blast
  hence "isl (pr_get_metric P v (map snd ls'))" using assms(1,3) by (simp add: prom_law_def)
  then obtain e where "pr_get_metric P v (map snd ls') = Err e" by (auto simp: isl_def)
  hence "metric_of P kind name ls' m1 = (None, poison kind m1)" using v by (simp add: metric_of_def)
  moreover have "metric_of P kind n l (poison kind m1) = (None, poison kind m1)" for n l
    by (simp add: metric_of_def poison_def)
  ultimately show ?thesis by blast
qed

definition label_prom :: "(nat, string list, unit) prom_ext" where
  "label_prom = \<lparr>pr_new_vec = (\<lambda>kind name help ls. Ok (length ls)), pr_register = (\<lambda>v r. (Ok (), r)),
    pr_get_metric = (\<lambda>v vals. if length vals = v then Ok vals else Err ''inconsistent cardinality''),
    pr_encode = (\<lambda>r. Ok []), pr_registry_new = (), pr_utf8_error = (\<lambda>_. [])\<rparr>"

theorem label_mismatch_poisons_witness:
  "\<exists>m1 m2. counter label_prom ''a'' [] (metrics_new label_prom) = (Some [], m1) \<and>
    counter label_prom ''a'' [(''k'', ''v'')] m1 = (None, m2) \<and> counter label_prom ''b'' [] m2 = (None, m2)"
proof -
  have law: "prom_law label_prom id" by (auto simp: prom_law_def label_prom_def)
  obtain m1 where m1: "metric_of label_prom CounterMetric ''a'' [] (metrics_new label_prom) = (Some [], m1)"
    by (simp add: metric_of_def label_prom_def metrics_new_def)
  show ?thesis using label_mismatch_poisons [OF law m1, of "[(''k'', ''v'')]"] m1 unfolding counter_def by auto
qed

text \<open>
  A standalone node cannot restore.  With the membership meant for standalone use and the configuration
  \<open>BackupConfig::new\<close> makes, no restore ever succeeds, whatever the snapshot and the storage: the quorum of
  two healthy nodes its validation asks for cannot be met by one.
\<close>

theorem standalone_restore_fails:
  assumes "bm_all_nodes M = standalone_all_nodes sm" "bm_node_state M = standalone_node_state sm"
    and "bm_config M = backup_config_new"
  shows "fst (restore_snapshot X M name w) \<noteq> Some (Ok r)"
proof -
  have "\<not> quorum_ok M"
    using assms by (simp add: quorum_ok_def backup_config_new_def standalone_all_nodes_def standalone_node_state_def)
  hence "\<not> vr_quorum_ok v" if "validate_snapshot X M name a = (Some (Ok v), b)" for a b v
    using that by (auto simp: validate_snapshot_def act_bind_Ok_iff act_run split: prod.splits)
  thus ?thesis
    by (cases "restore_snapshot X M name w")
      (auto simp: restore_snapshot_def act_bind_Ok_iff act_run split: prod.splits if_splits)
qed

theorem standalone_restore_fails_witness:
  "fst (restore_snapshot (known_ext filled_dump \<lparr>sm_created_at = 6, sm_checksums = encode_dump filled_dump\<rparr>)
      (pair_manager\<lparr>bm_all_nodes := [node_nil], bm_node_state := standalone_node_state \<lparr>sa_local = node_nil\<rparr>,
        bm_config := backup_config_new\<rparr>) ''5''
      \<lparr>bw_storage = mem_new, bw_dirs = [(''5'', \<lparr>sd_data = Some [0], sd_manifest = Some [1]\<rparr>)], bw_faults = []\<rparr>) \<noteq>
    Some (Ok \<lparr>rp_restored_rows = 1, rp_validation =
        \<lparr>vr_checksum_ok = True, vr_schema_ok = True, vr_quorum_ok = True, vr_smoke_ok = True\<rparr>\<rparr>)"
  by (rule standalone_restore_fails [of _ "\<lparr>sa_local = node_nil\<rparr>"]) (simp_all add: standalone_all_nodes_def)

end
