(* ===== verification/F64.thy ===== *)
theory F64
  imports Complex_Main "HOL-Library.Log_Nat"
begin

text \<open>
  The 64-bit floating point numbers of IEEE 754, as far as the sources use them: finite numbers
  that are not negative, each the rational it denotes, with the result of every operation rounded to the
  nearest double, ties to the even one.  The sums, means, ratios and products computed here stay
  far below the largest double, so no operation overflows.  A number that a caller chooses, such as a threshold,
  may also be infinite or not a number.
\<close>

section \<open>Rounding\<close>

definition round_half_even :: "rat \<Rightarrow> int" where
  "round_half_even x =
    (let f = \<lfloor>x\<rfloor>; d = x - of_int f in if d < 1 / 2 \<or> (d = 1 / 2 \<and> even f) then f else f + 1)"

text \<open>The binary exponent of a positive number, and the distance of the doubles around it.\<close>

definition f64_exponent :: "rat \<Rightarrow> int" where
  "f64_exponent x =
    (let (p, q) = quotient_of x; k = bitlen p - bitlen q in if 2 powi k \<le> x then k else k - 1)"

definition f64_ulp :: "rat \<Rightarrow> rat" where
  "f64_ulp x = 2 powi (max (f64_exponent x) (- 1022) - 52)"

definition f64_round :: "rat \<Rightarrow> rat" where
  "f64_round x = (if x \<le> 0 then 0 else of_int (round_half_even (x / f64_ulp x)) * f64_ulp x)"

definition f64_of_nat :: "nat \<Rightarrow> rat" where
  "f64_of_nat n = f64_round (of_nat n)"

definition f64_add :: "rat \<Rightarrow> rat \<Rightarrow> rat" where
  "f64_add x y = f64_round (x + y)"

definition f64_mul :: "rat \<Rightarrow> rat \<Rightarrow> rat" where
  "f64_mul x y = f64_round (x * y)"

definition f64_div :: "rat \<Rightarrow> rat \<Rightarrow> rat" where
  "f64_div x y = f64_round (x / y)"

definition f64_sum :: "rat list \<Rightarrow> rat" where
  "f64_sum xs = foldl f64_add 0 xs"

text \<open>Comparison with a number that need not be finite.\<close>

datatype f64 = Finite rat | PosInf | NegInf | NaN

fun f64_ge :: "rat \<Rightarrow> f64 \<Rightarrow> bool" where
  "f64_ge x (Finite y) \<longleftrightarrow> y \<le> x"
| "f64_ge x NegInf \<longleftrightarrow> True"
| "f64_ge x _ \<longleftrightarrow> False"

fun f64_gt :: "rat \<Rightarrow> f64 \<Rightarrow> bool" where
  "f64_gt x (Finite y) \<longleftrightarrow> y < x"
| "f64_gt x NegInf \<longleftrightarrow> True"
| "f64_gt x _ \<longleftrightarrow> False"

named_theorems f64_ops "The arithmetic of doubles, as rounded rationals"

lemmas [f64_ops] = f64_of_nat_def f64_add_def f64_mul_def f64_div_def

section \<open>Laws\<close>

lemma round_half_even_int: "round_half_even (of_int z) = z"
  by (simp add: round_half_even_def)

lemma round_half_even_near: "\<bar>of_int (round_half_even x) - x\<bar> \<le> 1 / 2"
  using of_int_floor_le [of x] floor_correct [of x] by (auto simp: round_half_even_def Let_def abs_le_iff)

lemma round_half_even_mono: "x \<le> y \<Longrightarrow> round_half_even x \<le> round_half_even y"
proof -
  assume "x \<le> y"
  show ?thesis
  proof (cases "\<lfloor>x\<rfloor> = \<lfloor>y\<rfloor>")
    case True
    thus ?thesis using \<open>x \<le> y\<close> by (auto simp: round_half_even_def Let_def)
  next
    case False
    hence "\<lfloor>x\<rfloor> + 1 \<le> \<lfloor>y\<rfloor>" using floor_mono [OF \<open>x \<le> y\<close>] by simp
    moreover have "round_half_even x \<le> \<lfloor>x\<rfloor> + 1" "\<lfloor>y\<rfloor> \<le> round_half_even y"
      by (simp_all add: round_half_even_def Let_def)
    ultimately show ?thesis by simp
  qed
qed

lemma bitlen_pow: "0 < x \<Longrightarrow> (2 :: rat) powi (bitlen x - 1) \<le> of_int x \<and> of_int x < (2 :: rat) powi (bitlen x)"
proof -
  assume x: "0 < x"
  have "bitlen x \<noteq> 0" using bitlen_bounds [OF x] x by auto
  hence "0 < bitlen x" using bitlen_nonneg [of x] by simp
  hence "(2 :: rat) powi (bitlen x - 1) = of_int (2 ^ nat (bitlen x - 1))"
    "(2 :: rat) powi (bitlen x) = of_int (2 ^ nat (bitlen x))"
    by (simp_all add: power_int_def)
  thus ?thesis using bitlen_bounds [OF x] by (simp only: of_int_le_iff of_int_less_iff)
qed

lemma f64_exponent_bounds:
  assumes "0 < x"
  shows "2 powi f64_exponent x \<le> x" "x < 2 powi (f64_exponent x + 1)"
proof -
  obtain p q where pq: "quotient_of x = (p, q)" by fastforce
  have q: "0 < q" and x: "x = of_int p / of_int q"
    using quotient_of_denom_pos [OF pq] quotient_of_div [OF pq] by auto
  have p: "0 < p" using assms q by (simp add: x zero_less_divide_iff)
  let ?k = "bitlen p - bitlen q"
  have "2 powi (bitlen p - 1) / 2 powi bitlen q < x" "x < 2 powi bitlen p / 2 powi (bitlen q - 1)"
    unfolding x using bitlen_pow [OF p] bitlen_pow [OF q] q p
    by (auto intro: frac_less2 [of "2 powi (bitlen p - 1)"] frac_less [of "of_int p"])
  moreover have "(2 :: rat) powi (bitlen p - 1) / 2 powi bitlen q = 2 powi (?k - 1)"
    "(2 :: rat) powi bitlen p / 2 powi (bitlen q - 1) = 2 powi (?k + 1)"
    by (simp_all add: power_int_diff [symmetric] algebra_simps)
  ultimately show "2 powi f64_exponent x \<le> x" "x < 2 powi (f64_exponent x + 1)"
    by (auto simp: f64_exponent_def pq Let_def)
qed

lemma f64_exponent_mono: "0 < x \<Longrightarrow> x \<le> y \<Longrightarrow> f64_exponent x \<le> f64_exponent y"
proof (rule ccontr)
  assume x: "0 < x" "x \<le> y" and "\<not> f64_exponent x \<le> f64_exponent y"
  hence "(2 :: rat) powi (f64_exponent y + 1) \<le> 2 powi f64_exponent x" by (simp add: power_int_increasing)
  also have "\<dots> \<le> x" using f64_exponent_bounds(1) [OF x(1)] .
  finally show False using f64_exponent_bounds(2) [of y] x by simp
qed

lemma f64_ulp_pos: "0 < f64_ulp x"
  by (simp add: f64_ulp_def)

text \<open>The doubles between zero and the next power of two are multiples of the distance.\<close>

lemma f64_round_ge:
  assumes "0 < x" "of_int z * f64_ulp x \<le> x"
  shows "of_int z * f64_ulp x \<le> f64_round x"
proof -
  have "of_int z \<le> x / f64_ulp x" using assms(2) f64_ulp_pos [of x] by (simp add: pos_le_divide_eq)
  hence "z \<le> round_half_even (x / f64_ulp x)" using round_half_even_mono round_half_even_int by metis
  thus ?thesis using assms(1) f64_ulp_pos [of x] by (simp add: f64_round_def)
qed

lemma f64_round_le:
  assumes "0 < x" "x \<le> of_int z * f64_ulp x"
  shows "f64_round x \<le> of_int z * f64_ulp x"
proof -
  have "x / f64_ulp x \<le> of_int z" using assms(2) f64_ulp_pos [of x] by (simp add: pos_divide_le_eq)
  hence "round_half_even (x / f64_ulp x) \<le> z" using round_half_even_mono round_half_even_int by metis
  thus ?thesis using assms(1) f64_ulp_pos [of x] by (simp add: f64_round_def)
qed

lemma powi_multiple: "e \<le> k \<Longrightarrow> (2 :: rat) powi k = of_int (2 ^ nat (k - e)) * 2 powi e"
proof -
  assume "e \<le> k"
  hence "(2 :: rat) powi k = 2 powi (k - e) * 2 powi e" by (simp add: power_int_add [symmetric])
  also have "(2 :: rat) powi (k - e) = of_int (2 ^ nat (k - e))" using \<open>e \<le> k\<close> by (simp add: power_int_def)
  finally show ?thesis .
qed

lemma f64_round_nonneg: "0 \<le> f64_round x"
  using f64_round_ge [of x 0] by (cases "0 < x") (simp_all add: f64_round_def)

lemma f64_round_mono: "x \<le> y \<Longrightarrow> f64_round x \<le> f64_round y"
proof (cases "0 < x")
  case True
  assume xy: "x \<le> y"
  let ?e = "\<lambda>z. max (f64_exponent z) (- 1022)"
  have "?e x \<le> ?e y" using f64_exponent_mono [OF True xy] by simp
  show ?thesis
  proof (cases "?e x = ?e y")
    case same: True
    hence "f64_ulp x = f64_ulp y" by (simp add: f64_ulp_def)
    thus ?thesis
      using True xy f64_ulp_pos [of y]
      by (auto simp: f64_round_def intro!: round_half_even_mono divide_right_mono)
  next
    case False
    hence e: "?e x < f64_exponent y" "?e y = f64_exponent y" using \<open>?e x \<le> ?e y\<close> by auto
    let ?b = "(2 :: rat) powi f64_exponent y"
    have "x < 2 powi (f64_exponent x + 1)" by (rule f64_exponent_bounds(2) [OF True])
    also have "\<dots> \<le> ?b" using e(1) by (intro power_int_increasing) auto
    finally have "x \<le> ?b" by simp
    moreover have "?b = of_int (2 ^ nat (f64_exponent y - (?e x - 52))) * f64_ulp x"
      unfolding f64_ulp_def using e(1) by (intro powi_multiple) linarith
    ultimately have "f64_round x \<le> ?b" using f64_round_le [OF True] by metis
    also have "?b \<le> f64_round y"
    proof -
      have b: "?b = of_int (2 ^ nat (f64_exponent y - (?e y - 52))) * f64_ulp y"
        unfolding f64_ulp_def using e(2) by (intro powi_multiple) simp
      have "0 < y" using True xy by simp
      thus ?thesis using f64_round_ge [of y] f64_exponent_bounds(1) [of y] unfolding b by blast
    qed
    finally show ?thesis .
  qed
next
  case False
  hence "f64_round x = 0" by (simp add: f64_round_def)
  thus ?thesis by (simp add: f64_round_nonneg)
qed

lemma f64_round_error:
  assumes "2 powi (- 1022) \<le> x"
  shows "\<bar>f64_round x - x\<bar> \<le> x / 2 ^ 53"
proof -
  have x: "0 < x" using assms by (rule less_le_trans [rotated]) simp
  have "- 1022 \<le> f64_exponent x"
  proof (rule ccontr)
    assume "\<not> - 1022 \<le> f64_exponent x"
    hence "(2 :: rat) powi (f64_exponent x + 1) \<le> 2 powi (- 1022)" by (intro power_int_increasing) auto
    thus False using f64_exponent_bounds(2) [OF x] assms by simp
  qed
  hence u: "f64_ulp x = 2 powi f64_exponent x / 2 ^ 52"
    by (simp add: f64_ulp_def power_int_diff)
  have "f64_round x - x = (of_int (round_half_even (x / f64_ulp x)) - x / f64_ulp x) * f64_ulp x"
    using x f64_ulp_pos [of x] by (simp add: f64_round_def left_diff_distrib)
  hence "\<bar>f64_round x - x\<bar> = \<bar>of_int (round_half_even (x / f64_ulp x)) - x / f64_ulp x\<bar> * f64_ulp x"
    using f64_ulp_pos [of x] by (simp add: abs_mult)
  also have "\<dots> \<le> 1 / 2 * f64_ulp x"
    using round_half_even_near [of "x / f64_ulp x"] f64_ulp_pos [of x] by (intro mult_right_mono) auto
  also have "\<dots> \<le> x / 2 ^ 53" using f64_exponent_bounds(1) [OF x] by (simp add: u)
  finally show ?thesis .
qed

lemma f64_round_of_nat:
  assumes "n < 2 ^ 53"
  shows "f64_round (of_nat n) = of_nat n"
proof (cases "n = 0")
  case False
  hence x: "0 < (of_nat n :: rat)" by simp
  let ?e = "f64_exponent (of_nat n)"
  have "\<not> 53 \<le> ?e"
  proof
    assume "53 \<le> ?e"
    hence "(2 :: rat) powi 53 \<le> 2 powi ?e" by (intro power_int_increasing) auto
    also have "\<dots> \<le> of_nat n" by (rule f64_exponent_bounds(1) [OF x])
    finally have "of_nat (2 ^ 53) \<le> (of_nat n :: rat)" by simp
    thus False using assms by (simp only: of_nat_le_iff)
  qed
  moreover have "0 \<le> ?e"
  proof (rule ccontr)
    assume "\<not> 0 \<le> ?e"
    hence "(2 :: rat) powi (?e + 1) \<le> 2 powi 0" by (intro power_int_increasing) auto
    thus False using f64_exponent_bounds(2) [OF x] False by simp
  qed
  ultimately have u: "f64_ulp (of_nat n) = 2 powi (?e - 52)" "?e - 52 \<le> 0" by (simp_all add: f64_ulp_def)
  have "of_nat n = of_int (int n * 2 ^ nat (0 - (?e - 52))) * f64_ulp (of_nat n)"
    using powi_multiple [OF u(2)] by (simp add: u(1))
  thus ?thesis using f64_round_ge [OF x] f64_round_le [OF x] by (metis order_antisym order_refl)
qed (simp add: f64_round_def)

text \<open>Rounding never crosses a small natural number.\<close>

lemma f64_round_le_nat: "x \<le> of_nat n \<Longrightarrow> n < 2 ^ 53 \<Longrightarrow> f64_round x \<le> of_nat n"
  using f64_round_mono [of x "of_nat n"] f64_round_of_nat [of n] by simp

lemma f64_round_ge_nat: "of_nat n \<le> x \<Longrightarrow> n < 2 ^ 53 \<Longrightarrow> of_nat n \<le> f64_round x"
  using f64_round_mono [of "of_nat n" x] f64_round_of_nat [of n] by simp

lemma f64_round_close:
  assumes "1 / 2048 \<le> x"
  shows "x - x / 2 ^ 53 \<le> f64_round x"
proof -
  have "(2 :: rat) powi (- 1022) \<le> 2 powi (- 11)" by (intro power_int_increasing) auto
  also have "(2 :: rat) powi (- 11) = 1 / 2 ^ 11" by (simp add: power_int_def power_one_over)
  also have "\<dots> \<le> x" using assms by simp
  finally show ?thesis using f64_round_error [of x] by linarith
qed

end
