(* ===== verification/Slo.thy ===== *)
theory Slo
  imports F64 Prelude
begin

text \<open>
  The service-level tracker of \<open>crates/bashfuldb-ops/src/lib.rs\<close>: a sliding window of requests for
  each latency class, the 95th percentile of their latencies, the share of violations, and the rollback events
  emitted when the share exceeds the error budget.  A \<open>Duration\<close> is its number of nanoseconds;
  the broadcast channel is the list of the events sent.
\<close>

section \<open>The tracker\<close>

datatype latency_class = Interactive | Background

record rollback_event =
  rb_class :: latency_class
  rb_error_budget_ratio :: rat
  rb_threshold :: f64

record request_sample =
  rs_latency :: nat
  rs_violation :: bool

record slo_tracker =
  slo_thresholds :: "latency_class \<rightharpoonup> nat"
  slo_windows :: "latency_class \<rightharpoonup> request_sample list"
  slo_window_size :: nat
  slo_error_budget_threshold :: f64
  slo_rollbacks :: "rollback_event list"
  slo_poisoned :: bool

definition slo_new :: "nat \<Rightarrow> nat \<Rightarrow> nat \<Rightarrow> f64 \<Rightarrow> slo_tracker" where
  "slo_new interactive_p95 background_p95 window_size error_budget_threshold =
    \<lparr>slo_thresholds = [Interactive \<mapsto> interactive_p95, Background \<mapsto> background_p95], slo_windows = Map.empty,
     slo_window_size = window_size, slo_error_budget_threshold = error_budget_threshold, slo_rollbacks = [],
     slo_poisoned = False\<rparr>"

definition error_budget_ratio :: "request_sample list \<Rightarrow> rat" where
  "error_budget_ratio queue =
    (if queue = [] then 0
     else let violations = length (filter rs_violation queue)
          in f64_div (f64_of_nat violations) (f64_of_nat (length queue)))"

text \<open>The loop that shortens the queue.\<close>

function pop_excess :: "nat \<Rightarrow> 'a list \<Rightarrow> 'a list" where
  "pop_excess window_size queue = (if window_size < length queue then pop_excess window_size (tl queue) else queue)"
  by auto
termination by (relation "measure (length \<circ> snd)") auto

declare pop_excess.simps [simp del]

definition record_request :: "latency_class \<Rightarrow> nat \<Rightarrow> bool \<Rightarrow> slo_tracker \<Rightarrow> slo_tracker" where
  "record_request class latency error t =
    (case slo_thresholds t class of
       None \<Rightarrow> t
     | Some threshold \<Rightarrow>
         let violation = (error \<or> threshold < latency)
         in if slo_poisoned t then t
            else
              let queue = (case slo_windows t class of None \<Rightarrow> [] | Some q \<Rightarrow> q)
                    @ [\<lparr>rs_latency = latency, rs_violation = violation\<rparr>];
                  queue = pop_excess (slo_window_size t) queue;
                  ratio = error_budget_ratio queue;
                  t = t\<lparr>slo_windows := (slo_windows t)(class \<mapsto> queue)\<rparr>
              in if f64_gt ratio (slo_error_budget_threshold t)
                 then t\<lparr>slo_rollbacks := slo_rollbacks t @ [\<lparr>rb_class = class, rb_error_budget_ratio = ratio,
                   rb_threshold = slo_error_budget_threshold t\<rparr>]\<rparr>
                 else t)"

definition p95_index :: "nat \<Rightarrow> nat" where
  "p95_index n = (let idx = nat \<lceil>f64_mul (f64_of_nat n) (f64_round (95 / 100))\<rceil> in min (idx - 1) (n - 1))"

definition p95_latency :: "latency_class \<Rightarrow> slo_tracker \<Rightarrow> nat option" where
  "p95_latency class t =
    (if slo_poisoned t then None
     else case slo_windows t class of
         None \<Rightarrow> None
       | Some queue \<Rightarrow>
           if queue = [] then None
           else let latencies = sort (map rs_latency queue)
                in (let selected = p95_index (length latencies)
                    in if selected < length latencies then Some (latencies ! selected) else None))"

definition error_budget_ratio_for :: "latency_class \<Rightarrow> slo_tracker \<Rightarrow> rat option" where
  "error_budget_ratio_for class t =
    (if slo_poisoned t then None else map_option error_budget_ratio (slo_windows t class))"

section \<open>Windows\<close>

type_synonym request = "latency_class \<times> nat \<times> bool"

definition record_all :: "request list \<Rightarrow> slo_tracker \<Rightarrow> slo_tracker" where
  "record_all reqs = fold (\<lambda>(class, latency, error). record_request class latency error) reqs"

definition sample_of :: "nat \<Rightarrow> request \<Rightarrow> request_sample" where
  "sample_of threshold = (\<lambda>(_, latency, error). \<lparr>rs_latency = latency, rs_violation = (error \<or> threshold < latency)\<rparr>)"

definition samples :: "slo_tracker \<Rightarrow> latency_class \<Rightarrow> request list \<Rightarrow> request_sample list" where
  "samples t class reqs = map (sample_of (the (slo_thresholds t class))) (filter (\<lambda>r. fst r = class) reqs)"

text \<open>The last \<open>n\<close> elements of a list.\<close>

definition last_n :: "nat \<Rightarrow> 'a list \<Rightarrow> 'a list" where
  "last_n n xs = drop (length xs - n) xs"

lemma pop_excess_last: "pop_excess n xs = last_n n xs"
proof (induction n xs rule: pop_excess.induct)
  case (1 n xs)
  show ?case
  proof (cases "n < length xs")
    case True
    then obtain y ys where xs: "xs = y # ys" by (cases xs) auto
    hence "length xs - n = Suc (length ys - n)" using True by simp
    hence "last_n n xs = last_n n ys" by (simp add: xs last_n_def)
    moreover have "pop_excess n xs = pop_excess n ys" using True by (simp add: xs pop_excess.simps [of n "y # ys"])
    ultimately show ?thesis using 1 True xs by simp
  qed (simp add: pop_excess.simps [of n xs] last_n_def)
qed

lemma last_n_last_n: "last_n n (last_n n xs @ ys) = last_n n (xs @ ys)"
  by (cases "n \<le> length xs") (auto simp: last_n_def intro!: arg_cong2 [where f = drop])

lemma length_last_n: "length (last_n n xs) = min n (length xs)"
  by (simp add: last_n_def)

lemma record_window:
  assumes "slo_thresholds t class = Some thr" "\<not> slo_poisoned t"
  shows "slo_windows (record_request class latency error t) =
      (slo_windows t)(class \<mapsto> last_n (slo_window_size t) ((case slo_windows t class of None \<Rightarrow> [] | Some q \<Rightarrow> q)
        @ [sample_of thr (class, latency, error)]))"
    and "slo_thresholds (record_request class latency error t) = slo_thresholds t"
    "slo_window_size (record_request class latency error t) = slo_window_size t"
    "slo_error_budget_threshold (record_request class latency error t) = slo_error_budget_threshold t"
    "slo_poisoned (record_request class latency error t) = slo_poisoned t"
  using assms by (simp_all add: record_request_def Let_def pop_excess_last sample_of_def)

definition tracks :: "slo_tracker \<Rightarrow> request list \<Rightarrow> slo_tracker \<Rightarrow> bool" where
  "tracks t0 past t \<longleftrightarrow> slo_thresholds t = slo_thresholds t0 \<and> slo_window_size t = slo_window_size t0 \<and>
    slo_error_budget_threshold t = slo_error_budget_threshold t0 \<and> \<not> slo_poisoned t \<and>
    (\<forall>class. slo_windows t class = (if \<exists>r \<in> set past. fst r = class
      then Some (last_n (slo_window_size t0) (samples t0 class past)) else None))"

lemma tracks_request:
  assumes "tracks t0 past t" "\<forall>class. slo_thresholds t0 class \<noteq> None"
  shows "tracks t0 (past @ [(class, latency, error)]) (record_request class latency error t)"
proof -
  obtain thr where thr: "slo_thresholds t class = Some thr" using assms by (auto simp: tracks_def)
  have t: "\<not> slo_poisoned t" using assms by (simp add: tracks_def)
  have "the (slo_thresholds t0 class) = thr" using thr assms(1) by (simp add: tracks_def)
  moreover have "\<not> (\<exists>r \<in> set past. fst r = class) \<Longrightarrow> samples t0 class past = []"
    by (auto simp: samples_def filter_empty_conv)
  ultimately show ?thesis
    using assms(1) record_window [OF thr t]
    by (auto simp: tracks_def samples_def last_n_last_n split: option.splits)
qed

lemma tracks_all:
  "\<forall>class. slo_thresholds t0 class \<noteq> None \<Longrightarrow> tracks t0 past t \<Longrightarrow> tracks t0 (past @ reqs) (record_all reqs t)"
proof (induction reqs arbitrary: past t)
  case (Cons r reqs)
  obtain c l e where r: "r = (c, l, e)" by (cases r)
  have "tracks t0 (past @ [r]) (record_request c l e t)" using tracks_request [OF Cons.prems(2,1)] r by simp
  from Cons.IH [OF Cons.prems(1) this] show ?case using r by (simp add: record_all_def)
qed (simp add: record_all_def)

lemma new_thresholds: "\<forall>c. slo_thresholds (slo_new i b w th) c \<noteq> None"
proof
  show "slo_thresholds (slo_new i b w th) c \<noteq> None" for c by (cases c) (simp_all add: slo_new_def)
qed

lemma tracks_new: "tracks (slo_new i b w th) reqs (record_all reqs (slo_new i b w th))"
  using tracks_all [OF new_thresholds, where past = "[]"] by (simp add: tracks_def slo_new_def)

section \<open>Percentiles\<close>

text \<open>The index the code computes in floating point is the exact one.\<close>

lemma p95_constant: "95 / 100 - 1 / 2 ^ 53 \<le> f64_round (95 / 100)" "f64_round (95 / 100) \<le> 95 / 100"
proof -
  show "f64_round (95 / 100) \<le> 95 / 100" by code_simp
  show "95 / 100 - 1 / 2 ^ 53 \<le> f64_round (95 / 100)" by code_simp
qed

lemma p95_position:
  assumes "0 < n" "i = (95 * n + 99) div 100 - 1"
  shows "i < n" "95 * n \<le> 100 * Suc i" "100 * i < 95 * n"
proof -
  define K where "K = (95 * n + 99) div 100"
  have "95 * n \<le> 100 * K" "100 * K \<le> 95 * n + 99" "0 < K" using assms(1) unfolding K_def by linarith+
  thus "i < n" "95 * n \<le> 100 * Suc i" "100 * i < 95 * n" using assms unfolding K_def [symmetric] by simp_all
qed

lemma p95_rounding:
  assumes "m < 2 ^ 40" "x \<le> m * (95 / 100)" "m * (95 / 100 - 1 / 2 ^ 53) \<le> x" "x - x / 2 ^ 53 \<le> r" "100 * k \<le> 95 * m + 99"
  shows "k - 1 < (r :: rat)"
  using assms by (simp add: field_simps)

lemma p95_index_exact:
  assumes "0 < n" "n < 2 ^ 40"
  shows "p95_index n = (95 * n + 99) div 100 - 1"
proof -
  let ?K = "(95 * n + 99) div 100" and ?c = "f64_round (95 / 100)"
  let ?x = "of_nat n * ?c"
  have K: "95 * n \<le> 100 * ?K" "100 * ?K \<le> 95 * n + 99" "0 < ?K" "?K \<le> n" using assms(1) by linarith+
  have K': "95 * of_nat n \<le> 100 * (of_nat ?K :: rat)" "100 * (of_nat ?K :: rat) \<le> 95 * of_nat n + 99"
    using K(1,2) by (metis (no_types) of_nat_add of_nat_le_iff of_nat_mult of_nat_numeral)+
  have "(of_nat n :: rat) < of_nat (2 ^ 40)" using assms(2) by (simp only: of_nat_less_iff)
  hence n: "(1 :: rat) \<le> of_nat n" "(of_nat n :: rat) < 2 ^ 40" using assms(1) by (simp_all add: Suc_leI)
  have x_le: "?x \<le> of_nat n * (95 / 100)" and x_ge: "of_nat n * (95 / 100 - 1 / 2 ^ 53) \<le> ?x"
    using p95_constant by (intro mult_left_mono; simp)+
  have "?x \<le> of_nat ?K" using x_le K'(1) by simp
  moreover have "?K < 2 ^ 53" using K(4) assms(2) by simp
  ultimately have le: "f64_round ?x \<le> of_nat ?K" by (rule f64_round_le_nat)
  have "1 / 2048 \<le> 1 * (95 / 100 - 1 / 2 ^ 53 :: rat)" by simp
  also have "\<dots> \<le> of_nat n * (95 / 100 - 1 / 2 ^ 53)" by (rule mult_right_mono [OF n(1)]) simp
  also have "\<dots> \<le> ?x" by (rule x_ge)
  finally have "?x - ?x / 2 ^ 53 \<le> f64_round ?x" by (rule f64_round_close)
  hence gt: "of_nat ?K - 1 < f64_round ?x" using p95_rounding [OF n(2) x_le x_ge _ K'(2)] by blast
  have "\<lceil>f64_round ?x\<rceil> = int ?K"
    by (rule ceiling_unique) (use le gt in simp_all)
  moreover have "f64_of_nat n = of_nat n" using assms(2) by (simp add: f64_of_nat_def f64_round_of_nat)
  ultimately show ?thesis using K(3,4) by (simp add: p95_index_def f64_mul_def Let_def)
qed

lemma sorted_counts:
  fixes ys :: "'a::linorder list"
  assumes "sorted ys" "i < length ys"
  shows "Suc i \<le> length (filter (\<lambda>y. y \<le> ys ! i) ys)" "length (filter (\<lambda>y. y < ys ! i) ys) \<le> i"
proof -
  have "\<forall>y \<in> set (take (Suc i) ys). y \<le> ys ! i"
    using assms by (auto simp: in_set_conv_nth sorted_iff_nth_mono)
  hence "take (Suc i) ys = filter (\<lambda>y. y \<le> ys ! i) (take (Suc i) ys)" by simp
  hence "Suc i = length (filter (\<lambda>y. y \<le> ys ! i) (take (Suc i) ys))" using assms(2) by (metis Suc_leI length_take min.absorb2)
  also have "\<dots> \<le> length (filter (\<lambda>y. y \<le> ys ! i) (take (Suc i) ys @ drop (Suc i) ys))"
    by (simp only: filter_append length_append le_add1)
  finally show "Suc i \<le> length (filter (\<lambda>y. y \<le> ys ! i) ys)" by simp
  have "\<forall>y \<in> set (drop i ys). ys ! i \<le> y"
    using assms by (auto simp: in_set_conv_nth sorted_iff_nth_mono)
  hence "filter (\<lambda>y. y < ys ! i) (drop i ys) = []" by (auto simp: filter_empty_conv not_less)
  moreover have "filter (\<lambda>y. y < ys ! i) ys = filter (\<lambda>y. y < ys ! i) (take i ys) @ filter (\<lambda>y. y < ys ! i) (drop i ys)"
    by (metis append_take_drop_id filter_append)
  ultimately show "length (filter (\<lambda>y. y < ys ! i) ys) \<le> i"
    using length_filter_le [of "\<lambda>y. y < ys ! i" "take i ys"] by simp
qed

lemma sort_counts:
  "length (filter P (sort xs)) = length (filter P xs)" for xs :: "'a::linorder list"
  by (simp add: filter_sort)

text \<open>
  C31: the percentile is right.  After any requests, with a window of at most \<open>2 ^ 40\<close> samples that is not zero,
  the 95th percentile of a class that has seen a request is the latency of one of the last \<open>w\<close> requests of the class such that
  at least 95 percent of them took no longer and fewer than 95 percent took less time:
  the index computed in floating point is never off by one.
\<close>

theorem p95_correct:
  assumes "0 < w" "w < 2 ^ 40" "(class, latency, error) \<in> set reqs"
  shows "\<exists>x. p95_latency class (record_all reqs (slo_new i b w th)) = Some x \<and>
    (let ls = map rs_latency (last_n w (samples (slo_new i b w th) class reqs))
     in x \<in> set ls \<and> 95 * length ls \<le> 100 * length (filter (\<lambda>l. l \<le> x) ls) \<and>
        100 * length (filter (\<lambda>l. l < x) ls) < 95 * length ls)"
proof -
  let ?t0 = "slo_new i b w th"
  let ?ls = "map rs_latency (last_n w (samples ?t0 class reqs))"
  have t: "tracks ?t0 reqs (record_all reqs ?t0)" by (rule tracks_new)
  have "slo_window_size ?t0 = w" by (simp add: slo_new_def)
  with t assms(3) have win: "slo_windows (record_all reqs ?t0) class = Some (last_n w (samples ?t0 class reqs))"
    "\<not> slo_poisoned (record_all reqs ?t0)" by (force simp: tracks_def)+
  have "samples ?t0 class reqs \<noteq> []" using assms(3) by (force simp: samples_def filter_empty_conv)
  hence n: "0 < length ?ls" "length ?ls < 2 ^ 40" using assms(1,2) by (auto simp: length_last_n min_def)
  let ?n = "length ?ls" and ?i = "(95 * length ?ls + 99) div 100 - 1"
  have i: "?i < ?n" "95 * ?n \<le> 100 * Suc ?i" "100 * ?i < 95 * ?n" using p95_position [OF n(1) refl] .
  have idx: "p95_index ?n = ?i" by (rule p95_index_exact [OF n])
  let ?x = "sort ?ls ! ?i"
  have "?i < length (sort ?ls)" using i(1) by simp
  from sorted_counts [OF sorted_sort this]
  have "Suc ?i \<le> length (filter (\<lambda>l. l \<le> ?x) ?ls)" "length (filter (\<lambda>l. l < ?x) ?ls) \<le> ?i"
    by (simp_all only: sort_counts)
  hence "95 * ?n \<le> 100 * length (filter (\<lambda>l. l \<le> ?x) ?ls)" "100 * length (filter (\<lambda>l. l < ?x) ?ls) < 95 * ?n"
    using i(2,3) by linarith+
  moreover have "?x \<in> set ?ls" using i(1) nth_mem [of ?i "sort ?ls"] by simp
  moreover have "p95_latency class (record_all reqs ?t0) = Some ?x"
    using win n(1) idx i(1) by (auto simp: p95_latency_def Let_def)
  ultimately show ?thesis by (simp add: Let_def)
qed

theorem p95_correct_witness:
  "\<exists>x. p95_latency Interactive (record_all [(Interactive, 7, False), (Background, 9, False), (Interactive, 3, True)]
    (slo_new 5 5 10 (Finite 1))) = Some x \<and> x \<in> {7, 3}"
proof -
  let ?reqs = "[(Interactive, 7, False), (Background, 9, False), (Interactive, 3, True)]"
  have "map rs_latency (last_n 10 (samples (slo_new 5 5 10 (Finite 1)) Interactive ?reqs)) = [7, 3]"
    by (simp add: samples_def sample_of_def last_n_def)
  thus ?thesis using p95_correct [of 10 Interactive 7 False ?reqs 5 5 "Finite 1"] by (auto simp: Let_def)
qed

section \<open>Rollbacks\<close>

lemma ratio_bounds:
  assumes "0 < n" "n < 2 ^ 53" "v \<le> n" "f64_round x = x"
  shows "x < f64_round (of_nat v / of_nat n) \<Longrightarrow> x * of_nat n < of_nat v"
    and "f64_round (of_nat v / of_nat n) \<le> x \<Longrightarrow> of_nat v * (1 - 1 / 2 ^ 53) \<le> x * of_nat n"
proof -
  let ?r = "of_nat v / of_nat n :: rat"
  have n: "(0 :: rat) < of_nat n" using assms(1) by simp
  show "x * of_nat n < of_nat v" if "x < f64_round ?r"
  proof (rule ccontr)
    assume "\<not> x * of_nat n < of_nat v"
    hence "?r \<le> x" using n by (simp add: divide_le_eq)
    thus False using f64_round_mono [of ?r x] assms(4) that by simp
  qed
  show "of_nat v * (1 - 1 / 2 ^ 53) \<le> x * of_nat n" if le: "f64_round ?r \<le> x"
  proof (cases "v = 0")
    case True
    thus ?thesis using le f64_round_nonneg [of ?r] n by simp
  next
    case False
    have "(2 :: rat) powi (- 1022) \<le> 2 powi (- 53)" by (intro power_int_increasing) auto
    also have "(2 :: rat) powi (- 53) = 1 / 2 ^ 53" by (simp add: power_int_def power_one_over)
    also have "(of_nat n :: rat) < of_nat (2 ^ 53)" using assms(2) by (simp only: of_nat_less_iff)
    hence "1 / 2 ^ 53 \<le> (1 :: rat) / of_nat n" using n by (intro divide_left_mono) simp_all
    also have "\<dots> \<le> ?r" using False n by (intro divide_right_mono) (simp_all add: Suc_leI)
    finally have "?r - ?r / 2 ^ 53 \<le> f64_round ?r" using f64_round_error [of ?r] by linarith
    hence "?r * (1 - 1 / 2 ^ 53) \<le> x" using le by (simp only: right_diff_distrib) simp
    thus ?thesis using n by (simp add: field_simps)
  qed
qed

text \<open>
  C32: a rollback is never spurious.  With an error budget that is a double, recording a request emits an event only if the
  exact share of violations in the window then exceeds the budget, and when none is emitted
  the share exceeds it by less than one part in \<open>2 ^ 53\<close>.
\<close>

theorem rollback_exact:
  assumes "0 < w" "w < 2 ^ 53" "f64_round x = x"
  shows "let t = record_all reqs (slo_new i b w (Finite x)); t' = record_request class latency error t;
      q = last_n w (samples t class (reqs @ [(class, latency, error)])); v = length (filter rs_violation q)
    in (slo_rollbacks t' \<noteq> slo_rollbacks t \<longrightarrow> x * of_nat (length q) < of_nat v) \<and>
      (slo_rollbacks t' = slo_rollbacks t \<longrightarrow> of_nat v * (1 - 1 / 2 ^ 53) \<le> x * of_nat (length q))"
proof -
  let ?fresh = "slo_new i b w (Finite x)"
  let ?t = "record_all reqs ?fresh"
  let ?t' = "record_request class latency error ?t"
  let ?q = "last_n w (samples ?t class (reqs @ [(class, latency, error)]))" and ?v = "\<lambda>q. length (filter rs_violation q)"
  have "slo_window_size ?fresh = w" "slo_error_budget_threshold ?fresh = Finite x" by (simp_all add: slo_new_def)
  with tracks_new [of i b w "Finite x" reqs] tracks_new [of i b w "Finite x" "reqs @ [(class, latency, error)]"]
  have t: "slo_error_budget_threshold ?t = Finite x" "slo_windows ?t' class = Some ?q"
    "\<not> slo_poisoned ?t" "slo_thresholds ?t class \<noteq> None"
    using new_thresholds by (auto simp: tracks_def samples_def record_all_def)
  hence "slo_rollbacks ?t' \<noteq> slo_rollbacks ?t \<longleftrightarrow> x < error_budget_ratio ?q"
    by (auto simp: record_request_def Let_def split: option.splits if_splits)
  moreover have len: "0 < length ?q" "length ?q < 2 ^ 53" using assms(1,2) by (auto simp: length_last_n samples_def min_def)
  hence "error_budget_ratio ?q = f64_round (of_nat (?v ?q) / of_nat (length ?q))"
    using le_less_trans [OF length_filter_le, of ?q "2 ^ 53" rs_violation]
    by (auto simp: error_budget_ratio_def f64_ops f64_round_of_nat Let_def)
  ultimately have emitted: "slo_rollbacks ?t' \<noteq> slo_rollbacks ?t \<longleftrightarrow> x < f64_round (of_nat (?v ?q) / of_nat (length ?q))"
    by (simp only:)
  note bounds = ratio_bounds [OF len length_filter_le assms(3), of rs_violation]
  show ?thesis unfolding Let_def using emitted bounds by (meson not_less)
qed

theorem rollback_exact_witness:
  "let t = slo_new 5 5 10 (Finite (1 / 2)); t' = record_request Interactive 9 False t
   in slo_rollbacks t' \<noteq> slo_rollbacks t \<and> (1 / 2 :: rat) * of_nat 1 < of_nat 1"
proof -
  have "f64_round (1 / 2) = 1 / 2" by code_simp
  from rollback_exact [of 10 _ "[]" 5 5 Interactive 9 False, OF _ _ this]
  have "slo_rollbacks (record_request Interactive 9 False (slo_new 5 5 10 (Finite (1 / 2)))) \<noteq>
      slo_rollbacks (slo_new 5 5 10 (Finite (1 / 2)))"
    by (auto simp: Let_def record_all_def samples_def sample_of_def last_n_def slo_new_def split: if_splits)
  thus ?thesis by simp
qed

end
