(* ===== verification/Traffic.thy ===== *)
theory Traffic
  imports Prelude
begin

text \<open>
  \<open>TrafficPriorityController\<close> of \<open>crates/bashfuldb-ops/src/lib.rs\<close>: client requests in flight, background operations that
  wait for them, and the notifications between the two.  Every access to an atomic counter and every call
  on the \<open>Notify\<close> is a step of its own, and the steps of different tasks interleave freely.  The counters
  count live guards and running operations, so they are natural numbers.
\<close>

section \<open>Tasks\<close>

text \<open>
  Where a background operation is: about to read the first counter, between the two reads, refused but not yet
  waiting, waiting for a notification, past the check, running, done but not yet notifying, gone.
\<close>

datatype bg_phase = Checking | Loaded nat | Refused | Asleep | Admitted | Running | Finished | Gone

record traffic_controller =
  tc_client_in_flight :: nat
  tc_background_limit_while_busy :: nat
  tc_active_background :: nat
  tc_tasks :: "bg_phase list"
  tc_dropped :: nat

definition traffic_new :: "nat \<Rightarrow> traffic_controller" where
  "traffic_new limit = \<lparr>tc_client_in_flight = 0, tc_background_limit_while_busy = limit, tc_active_background = 0,
    tc_tasks = [], tc_dropped = 0\<rparr>"

definition set_phase :: "nat \<Rightarrow> bg_phase \<Rightarrow> traffic_controller \<Rightarrow> traffic_controller" where
  "set_phase i p s = s\<lparr>tc_tasks := (tc_tasks s)[i := p]\<rparr>"

text \<open>\<open>Notify::notify_waiters\<close> wakes the tasks that wait at that moment, and no others.\<close>

definition notify_waiters :: "traffic_controller \<Rightarrow> traffic_controller" where
  "notify_waiters s = s\<lparr>tc_tasks := map (\<lambda>p. if p = Asleep then Checking else p) (tc_tasks s)\<rparr>"

definition acquire_client :: "traffic_controller \<Rightarrow> traffic_controller" where
  "acquire_client s = s\<lparr>tc_client_in_flight := tc_client_in_flight s + 1\<rparr>"

text \<open>The two statements of \<open>ClientTrafficGuard::drop\<close>.\<close>

definition drop_client :: "traffic_controller \<Rightarrow> traffic_controller option" where
  "drop_client s =
    (if tc_client_in_flight s = 0 then None
     else Some (s\<lparr>tc_client_in_flight := tc_client_in_flight s - 1, tc_dropped := tc_dropped s + 1\<rparr>))"

definition drop_notify :: "traffic_controller \<Rightarrow> traffic_controller option" where
  "drop_notify s = (if tc_dropped s = 0 then None else Some (notify_waiters (s\<lparr>tc_dropped := tc_dropped s - 1\<rparr>)))"

text \<open>\<open>background_yield_if_needed\<close>, one statement at a time.\<close>

fun yield_step :: "nat \<Rightarrow> bg_phase \<Rightarrow> traffic_controller \<Rightarrow> traffic_controller option" where
  "yield_step i Checking s = Some (set_phase i (Loaded (tc_client_in_flight s)) s)"
| "yield_step i (Loaded clients) s =
    Some (set_phase i (if clients = 0 \<or> tc_active_background s < tc_background_limit_while_busy s
      then Admitted else Refused) s)"
| "yield_step i Refused s = Some (set_phase i Asleep s)"
| "yield_step i _ s = None"

text \<open>\<open>run_background\<close>: the yield, then the operation between the two counter updates.\<close>

fun background_step :: "nat \<Rightarrow> traffic_controller \<Rightarrow> traffic_controller option" where
  "background_step i s =
    (if length (tc_tasks s) \<le> i then None
     else case tc_tasks s ! i of
         Admitted \<Rightarrow> Some (set_phase i Running (s\<lparr>tc_active_background := tc_active_background s + 1\<rparr>))
       | Running \<Rightarrow> Some (set_phase i Finished (s\<lparr>tc_active_background := tc_active_background s - 1\<rparr>))
       | Finished \<Rightarrow> Some (notify_waiters (set_phase i Gone s))
       | p \<Rightarrow> yield_step i p s)"

declare background_step.simps [simp del]

datatype traffic_op = AcquireClient | DropClient | NotifyDropped | SpawnBackground | BackgroundStep nat

fun traffic_exec :: "traffic_op \<Rightarrow> traffic_controller \<Rightarrow> traffic_controller option" where
  "traffic_exec AcquireClient s = Some (acquire_client s)"
| "traffic_exec DropClient s = drop_client s"
| "traffic_exec NotifyDropped s = drop_notify s"
| "traffic_exec SpawnBackground s = Some (s\<lparr>tc_tasks := tc_tasks s @ [Checking]\<rparr>)"
| "traffic_exec (BackgroundStep i) s = background_step i s"

primrec traffic_run :: "traffic_op list \<Rightarrow> traffic_controller \<Rightarrow> traffic_controller option" where
  "traffic_run [] s = Some s"
| "traffic_run (op # ops) s = Option.bind (traffic_exec op s) (traffic_run ops)"

section \<open>Counters\<close>

lemma traffic_run_append: "traffic_run (ops @ ops') s = Option.bind (traffic_run ops s) (traffic_run ops')"
  by (induction ops arbitrary: s) (auto split: bind_splits)

definition running :: "traffic_controller \<Rightarrow> nat" where
  "running s = length (filter (\<lambda>p. p = Running) (tc_tasks s))"

lemma filter_update:
  "i < length xs \<Longrightarrow> length (filter P (xs[i := x])) + (if P (xs ! i) then 1 else 0) =
    length (filter P xs) + (if P x then 1 else 0)"
proof (induction xs arbitrary: i)
  case (Cons y ys)
  show ?case
  proof (cases i)
    case (Suc j)
    thus ?thesis using Cons.IH [of j] Cons.prems by simp
  qed simp
qed simp

lemma notify_running: "running (notify_waiters s) = running s"
  by (auto simp: running_def notify_waiters_def filter_map comp_def intro!: arg_cong [where f = length] filter_cong)

lemma set_phase_running:
  "i < length (tc_tasks s) \<Longrightarrow> running (set_phase i p s) + (if tc_tasks s ! i = Running then 1 else 0) =
    running s + (if p = Running then 1 else 0)"
  using filter_update [of i "tc_tasks s" "\<lambda>p. p = Running" p] by (simp add: running_def set_phase_def)

lemma active_running: "traffic_exec op s = Some s' \<Longrightarrow> tc_active_background s = running s \<Longrightarrow> tc_active_background s' = running s'"
proof (cases op)
  case (BackgroundStep i)
  assume e: "traffic_exec op s = Some s'" "tc_active_background s = running s"
  hence i: "i < length (tc_tasks s)" using BackgroundStep by (auto simp: background_step.simps split: if_splits)
  have upd: "running (set_phase i p (s\<lparr>tc_active_background := a\<rparr>)) = running (set_phase i p s)" for p a
    by (simp add: running_def set_phase_def)
  note count = set_phase_running [OF i]
  show ?thesis
    using e i count [of Running] count [of Finished] count [of Gone] count [of Asleep] count [of Admitted] count [of Refused]
      count [of "Loaded (tc_client_in_flight s)"] BackgroundStep
    by (auto simp: background_step.simps upd notify_running split: bg_phase.splits)
      (auto simp: set_phase_def notify_waiters_def)
next
  case NotifyDropped
  assume "traffic_exec op s = Some s'" "tc_active_background s = running s"
  moreover have "running (s\<lparr>tc_dropped := d\<rparr>) = running s" for d by (simp add: running_def)
  ultimately show ?thesis
    using NotifyDropped by (auto simp: drop_notify_def notify_running split: if_splits) (simp add: notify_waiters_def)
qed (auto simp: acquire_client_def drop_client_def running_def split: if_splits)

lemma active_running_run:
  "traffic_run ops s = Some s' \<Longrightarrow> tc_active_background s = running s \<Longrightarrow> tc_active_background s' = running s'"
  by (induction ops arbitrary: s) (auto intro: active_running split: bind_splits)

section \<open>Interleaved entries\<close>

definition admit_ops :: "nat \<Rightarrow> traffic_op list" where
  "admit_ops n = concat (map (\<lambda>i. [SpawnBackground, BackgroundStep i, BackgroundStep i]) [0..<n])"

definition start_ops :: "nat \<Rightarrow> traffic_op list" where
  "start_ops n = map BackgroundStep [0..<n]"

definition busy :: "nat \<Rightarrow> nat \<Rightarrow> bg_phase list \<Rightarrow> traffic_controller" where
  "busy limit k ps = \<lparr>tc_client_in_flight = 1, tc_background_limit_while_busy = limit, tc_active_background = k,
    tc_tasks = ps, tc_dropped = 0\<rparr>"

lemma admitted_many: "0 < limit \<Longrightarrow> traffic_run (admit_ops n) (busy limit 0 []) = Some (busy limit 0 (replicate n Admitted))"
proof (induction n)
  case (Suc n)
  have "replicate n Admitted @ [Admitted] = Admitted # replicate n Admitted" by (simp add: replicate_append_same)
  thus ?case
    using Suc by (simp add: admit_ops_def traffic_run_append busy_def background_step.simps nth_append set_phase_def
        list_update_append)
qed (simp add: admit_ops_def)

lemma running_many:
  "k \<le> n \<Longrightarrow> traffic_run (start_ops k) (busy limit 0 (replicate n Admitted)) =
    Some (busy limit k (replicate k Running @ replicate (n - k) Admitted))"
proof (induction k)
  case (Suc k)
  have "replicate (n - k) Admitted = Admitted # replicate (n - Suc k) Admitted"
    using Suc.prems by (simp add: Suc_diff_Suc flip: replicate_Suc)
  moreover have "replicate k Running @ Running # ps = Running # replicate k Running @ ps" for ps
    using replicate_append_same [of k Running] by (metis append_Cons append_assoc append_Nil)
  ultimately show ?case
    using Suc by (simp add: start_ops_def traffic_run_append busy_def background_step.simps nth_append set_phase_def
        list_update_append)
qed (simp add: start_ops_def)

section \<open>Entries one at a time\<close>

text \<open>The tasks between reading the first counter and raising the second.\<close>

definition entering :: "bg_phase \<Rightarrow> bool" where
  "entering p = (case p of Loaded _ \<Rightarrow> True | Admitted \<Rightarrow> True | _ \<Rightarrow> False)"

definition serial_state :: "traffic_controller \<Rightarrow> bool" where
  "serial_state s \<longleftrightarrow> 0 < tc_client_in_flight s \<and> length (filter entering (tc_tasks s)) \<le> 1"

text \<open>A run in all of whose states a client is in flight and at most one task is between the check and the increment.\<close>

fun serial_run :: "traffic_op list \<Rightarrow> traffic_controller \<Rightarrow> bool" where
  "serial_run [] s = serial_state s"
| "serial_run (op # ops) s =
    (serial_state s \<and> (case traffic_exec op s of None \<Rightarrow> True | Some s' \<Rightarrow> serial_run ops s'))"

definition admitted :: "traffic_controller \<Rightarrow> nat" where
  "admitted s = length (filter (\<lambda>p. p = Admitted) (tc_tasks s))"

definition within_limit :: "traffic_controller \<Rightarrow> bool" where
  "within_limit s \<longleftrightarrow> tc_active_background s + admitted s \<le> tc_background_limit_while_busy s \<and> Loaded 0 \<notin> set (tc_tasks s)"

lemma set_phase_admitted:
  "i < length (tc_tasks s) \<Longrightarrow> admitted (set_phase i p s) + (if tc_tasks s ! i = Admitted then 1 else 0) =
    admitted s + (if p = Admitted then 1 else 0)"
  using filter_update [of i "tc_tasks s" "\<lambda>p. p = Admitted" p] by (simp add: admitted_def set_phase_def)

lemma notify_within: "within_limit s \<Longrightarrow> within_limit (notify_waiters s)"
proof -
  have "admitted (notify_waiters s) = admitted s"
    by (auto simp: admitted_def notify_waiters_def filter_map comp_def intro!: arg_cong [where f = length] filter_cong)
  thus "within_limit s \<Longrightarrow> within_limit (notify_waiters s)"
    by (auto simp: within_limit_def notify_waiters_def)
qed

lemma set_phase_within:
  assumes "within_limit s" "i < length (tc_tasks s)" "p \<noteq> Loaded 0"
    and "a + admitted (set_phase i p s) \<le> tc_background_limit_while_busy s"
  shows "within_limit (set_phase i p (s\<lparr>tc_active_background := a\<rparr>))"
  using assms by (auto simp: within_limit_def set_phase_def admitted_def dest: set_update_subset_insert [THEN subsetD])

lemma admitted_entering: "length (filter (\<lambda>p. p = Admitted) ps) \<le> length (filter entering ps)"
  by (induction ps) (auto simp: entering_def)

lemma loaded_alone:
  assumes "serial_state s" "i < length (tc_tasks s)" "tc_tasks s ! i = Loaded c"
  shows "admitted s = 0"
proof -
  have "admitted s = length (filter (\<lambda>p. p = Admitted) ((tc_tasks s)[i := Gone]))"
    using filter_update [OF assms(2), of "\<lambda>p. p = Admitted" Gone] assms(3) by (simp add: admitted_def)
  also have "\<dots> \<le> length (filter entering ((tc_tasks s)[i := Gone]))"
    by (rule admitted_entering)
  finally show ?thesis
    using filter_update [OF assms(2), of entering Gone] assms(1,3) by (simp add: serial_state_def entering_def)
qed

lemma background_step_within:
  assumes step: "background_step i s = Some s'" and inv: "serial_state s" "within_limit s"
  shows "within_limit s'"
proof -
  have i: "i < length (tc_tasks s)" using step by (auto simp: background_step.simps split: if_splits)
  note count = set_phase_admitted [OF i] and keep = set_phase_within [OF inv(2) i]
  have same: "within_limit (set_phase i p s)" if "p \<noteq> Loaded 0" "p \<noteq> Admitted" for p
    using keep [of p "tc_active_background s"] count [of p] inv(2) that by (auto simp: within_limit_def split: if_splits)
  show ?thesis
  proof (cases "tc_tasks s ! i")
    case (Loaded c)
    hence c: "c \<noteq> 0" using inv(2) i by (auto simp: within_limit_def in_set_conv_nth)
    have "admitted (set_phase i Admitted s) = 1"
      using count [of Admitted] Loaded loaded_alone [OF inv(1) i Loaded] by simp
    hence "within_limit (set_phase i Admitted s)" if "tc_active_background s < tc_background_limit_while_busy s"
      using keep [of Admitted "tc_active_background s"] that by simp
    thus ?thesis using step i Loaded c same [of Refused] by (auto simp: background_step.simps)
  next
    case Admitted
    thus ?thesis
      using step i keep [of Running "tc_active_background s + 1"] count [of Running] inv(2)
      by (auto simp: background_step.simps within_limit_def)
  next
    case Running
    hence "tc_active_background s - 1 + admitted (set_phase i Finished s) \<le> tc_background_limit_while_busy s"
      using count [of Finished] inv(2) Running by (auto simp: within_limit_def)
    thus ?thesis using step i Running keep [of Finished] by (auto simp: background_step.simps)
  next
    case Checking
    thus ?thesis using step i same [of "Loaded (tc_client_in_flight s)"] inv(1) by (auto simp: background_step.simps serial_state_def)
  qed (use step i same [of Asleep] same [of Gone] in \<open>auto simp: background_step.simps notify_within\<close>)
qed

lemma traffic_exec_within:
  "traffic_exec op s = Some s' \<Longrightarrow> serial_state s \<Longrightarrow> within_limit s \<Longrightarrow> within_limit s'"
proof (cases op)
  case NotifyDropped
  assume "traffic_exec op s = Some s'" "within_limit s"
  moreover from this have "within_limit (s\<lparr>tc_dropped := tc_dropped s - 1\<rparr>)" by (simp add: within_limit_def admitted_def)
  ultimately show ?thesis using NotifyDropped notify_within by (auto simp: drop_notify_def split: if_splits)
next
  case (BackgroundStep i)
  assume "traffic_exec op s = Some s'" "serial_state s" "within_limit s"
  thus ?thesis using BackgroundStep background_step_within by simp
qed (auto simp: acquire_client_def drop_client_def within_limit_def admitted_def split: if_splits)

lemma serial_run_within:
  "serial_run ops s \<Longrightarrow> traffic_run ops s = Some s' \<Longrightarrow> within_limit s \<Longrightarrow> within_limit s'"
  by (induction ops arbitrary: s) (auto split: bind_splits intro: traffic_exec_within)

lemma traffic_exec_limit:
  "traffic_exec op s = Some s' \<Longrightarrow> tc_background_limit_while_busy s' = tc_background_limit_while_busy s"
  by (cases op) (auto simp: background_step.simps set_phase_def drop_notify_def notify_waiters_def acquire_client_def
      drop_client_def split: if_splits bg_phase.splits)

lemma traffic_run_limit:
  "traffic_run ops s = Some s' \<Longrightarrow> tc_background_limit_while_busy s' = tc_background_limit_while_busy s"
  by (induction ops arbitrary: s) (auto split: bind_splits dest: traffic_exec_limit)

text \<open>
  C39: the limit on background work binds entries that come one at a time, and only those.  A client is in flight
  from the first step on.  Reading the counters and raising them are separate steps, so however many operations are
  asked for, all of them can pass the check before any of them counts: for every limit above zero and every
  \<open>n\<close>, there is a run, without a further client and without the end of the first, after which \<open>n\<close> background
  operations run beside it.  In every run that has a client in flight throughout and never two operations between
  the check and the increment, at most \<open>limit\<close> run.
\<close>

theorem background_limit_overrun:
  assumes "0 < limit"
  shows "(\<exists>ops s. AcquireClient \<notin> set ops \<and> DropClient \<notin> set ops \<and>
      traffic_run (AcquireClient # ops) (traffic_new limit) = Some s \<and> running s = n \<and> tc_active_background s = n) \<and>
    (\<forall>ops s. serial_run ops (acquire_client (traffic_new limit)) \<longrightarrow>
      traffic_run (AcquireClient # ops) (traffic_new limit) = Some s \<longrightarrow> running s \<le> limit \<and> tc_active_background s = running s)"
    (is "?overrun \<and> (\<forall>ops s. ?serial ops s)")
proof (intro conjI allI)
  have start: "acquire_client (traffic_new limit) = busy limit 0 []"
    by (simp add: acquire_client_def traffic_new_def busy_def)
  let ?ops = "admit_ops n @ start_ops n"
  have "traffic_run (AcquireClient # ?ops) (traffic_new limit) = Some (busy limit n (replicate n Running))"
    using admitted_many [OF assms, of n] running_many [of n n limit] by (simp add: traffic_run_append start)
  moreover have "AcquireClient \<notin> set ?ops" "DropClient \<notin> set ?ops" by (auto simp: admit_ops_def start_ops_def)
  moreover have "running (busy limit n (replicate n Running)) = n" "tc_active_background (busy limit n (replicate n Running)) = n"
    by (simp_all add: running_def busy_def)
  ultimately show ?overrun by blast
  show "?serial ops s" for ops s
  proof (intro impI)
    assume run: "serial_run ops (acquire_client (traffic_new limit))" "traffic_run (AcquireClient # ops) (traffic_new limit) = Some s"
    have "within_limit (busy limit 0 [])" by (simp add: within_limit_def busy_def admitted_def)
    with run have "within_limit s" by (auto simp: start intro: serial_run_within)
    moreover have "tc_active_background s = running s"
      using run(2) active_running_run [of ops "busy limit 0 []" s] by (simp add: start running_def busy_def)
    moreover have "tc_background_limit_while_busy s = limit"
      using traffic_run_limit [OF run(2)] by (simp add: traffic_new_def)
    ultimately show "running s \<le> limit \<and> tc_active_background s = running s" by (simp add: within_limit_def)
  qed
qed

theorem background_limit_overrun_witness:
  "(\<exists>ops s. traffic_run (AcquireClient # ops) (traffic_new 1) = Some s \<and> running s = 3) \<and>
   running (busy 1 1 [Running, Asleep]) \<le> 1"
proof
  show "\<exists>ops s. traffic_run (AcquireClient # ops) (traffic_new 1) = Some s \<and> running s = 3"
    using background_limit_overrun [of 1 3] by auto
  let ?ops = "[SpawnBackground, SpawnBackground, BackgroundStep 0, BackgroundStep 0, BackgroundStep 0,
    BackgroundStep 1, BackgroundStep 1, BackgroundStep 1]"
  have "traffic_run (AcquireClient # ?ops) (traffic_new 1) = Some (busy 1 1 [Running, Asleep])"
    and "serial_run ?ops (acquire_client (traffic_new 1))"
    by (simp_all add: traffic_new_def acquire_client_def background_step.simps set_phase_def busy_def serial_state_def entering_def)
  thus "running (busy 1 1 [Running, Asleep]) \<le> 1"
    using background_limit_overrun [OF zero_less_one] by blast
qed

text \<open>
  A wakeup can be lost.  A background operation that was refused because of a client starts to wait only after the
  check; when the client's guard is dropped and notifies in between, nobody is woken, and the operation
  waits although no client is in flight, no background work runs and no notification is under way: nothing but a
  new client or a new background operation can happen any more.
\<close>

theorem background_wakeup_lost:
  "\<exists>ops s. traffic_run ops (traffic_new 0) = Some s \<and> tc_client_in_flight s = 0 \<and> tc_active_background s = 0 \<and>
    tc_tasks s = [Asleep] \<and> {op. traffic_exec op s \<noteq> None} = {AcquireClient, SpawnBackground}"
proof -
  let ?ops = "[SpawnBackground, AcquireClient, BackgroundStep 0, BackgroundStep 0, DropClient, NotifyDropped, BackgroundStep 0]"
  let ?s = "\<lparr>tc_client_in_flight = 0, tc_background_limit_while_busy = 0, tc_active_background = 0,
    tc_tasks = [Asleep], tc_dropped = 0\<rparr>"
  have "traffic_run ?ops (traffic_new 0) = Some ?s"
    by (simp add: traffic_new_def acquire_client_def background_step.simps set_phase_def drop_client_def drop_notify_def
        notify_waiters_def)
  moreover have "{op. traffic_exec op ?s \<noteq> None} = {AcquireClient, SpawnBackground}"
  proof -
    have "traffic_exec op ?s \<noteq> None \<longleftrightarrow> op \<in> {AcquireClient, SpawnBackground}" for op
      by (cases op) (auto simp: drop_client_def drop_notify_def background_step.simps not_le less_Suc0)
    thus ?thesis by blast
  qed
  ultimately show ?thesis by (intro exI [of _ ?ops] exI [of _ ?s]) simp
qed

end
