(* ===== verification/Failure_Detector.thy ===== *)
theory Failure_Detector
  imports F64 Hlc
begin

text \<open>
  \<open>bashfuldb-cluster/src/failure_detector.rs\<close>: the phi accrual failure detector.  An \<open>Instant\<close> is the
  number of nanoseconds since some fixed moment; every reading of the clock is an argument.
\<close>

section \<open>Heartbeat histories\<close>

definition DEFAULT_PHI_THRESHOLD :: f64 where "DEFAULT_PHI_THRESHOLD = Finite 8"

definition MAX_SAMPLES :: nat where "MAX_SAMPLES = 100"

definition MIN_MEAN_INTERVAL_SECONDS :: rat where "MIN_MEAN_INTERVAL_SECONDS = f64_round (1 / 1000)"

definition LOG10_E :: rat where
  "LOG10_E = f64_round (434294481903251827651128918916605082294 / 10 ^ 39)"

text \<open>\<open>Duration::as_secs_f64\<close>.\<close>

definition as_secs_f64 :: "nat \<Rightarrow> rat" where
  "as_secs_f64 d = f64_add (f64_of_nat (d div 10 ^ 9)) (f64_div (f64_of_nat (d mod 10 ^ 9)) (f64_of_nat (10 ^ 9)))"

record heartbeat_history =
  hh_last_seen :: "nat option"
  hh_inter_arrivals :: "rat list"

definition history_new :: heartbeat_history where
  "history_new = \<lparr>hh_last_seen = None, hh_inter_arrivals = []\<rparr>"

definition record_heartbeat :: "nat \<Rightarrow> heartbeat_history \<Rightarrow> heartbeat_history" where
  "record_heartbeat now h =
    (let h = (case hh_last_seen h of
           None \<Rightarrow> h
         | Some prev \<Rightarrow>
             let interval = as_secs_f64 (now - prev);
                 q = hh_inter_arrivals h @ [max interval MIN_MEAN_INTERVAL_SECONDS]
             in h\<lparr>hh_inter_arrivals := (if MAX_SAMPLES < length q then tl q else q)\<rparr>)
     in h\<lparr>hh_last_seen := Some now\<rparr>)"

definition history_phi :: "nat \<Rightarrow> heartbeat_history \<Rightarrow> rat" where
  "history_phi now h =
    (case hh_last_seen h of
       None \<Rightarrow> 0
     | Some last_seen \<Rightarrow>
         if hh_inter_arrivals h = [] then 0
         else
           let elapsed = as_secs_f64 (now - last_seen);
               mean = f64_div (f64_sum (hh_inter_arrivals h)) (f64_of_nat (length (hh_inter_arrivals h)))
           in f64_mul (f64_div elapsed (max mean MIN_MEAN_INTERVAL_SECONDS)) LOG10_E)"

section \<open>The detector\<close>

record detector_state =
  ds_threshold :: f64
  ds_nodes :: "node_id \<rightharpoonup> heartbeat_history"

definition with_threshold :: "f64 \<Rightarrow> detector_state" where
  "with_threshold threshold = \<lparr>ds_threshold = threshold, ds_nodes = Map.empty\<rparr>"

definition detector_new :: detector_state where
  "detector_new = with_threshold DEFAULT_PHI_THRESHOLD"

definition detector_heartbeat :: "nat \<Rightarrow> node_id \<Rightarrow> detector_state \<Rightarrow> detector_state" where
  "detector_heartbeat now node state =
    (let history = (case ds_nodes state node of None \<Rightarrow> history_new | Some h \<Rightarrow> h)
     in state\<lparr>ds_nodes := (ds_nodes state)(node \<mapsto> record_heartbeat now history)\<rparr>)"

definition detector_phi :: "nat \<Rightarrow> node_id \<Rightarrow> detector_state \<Rightarrow> rat" where
  "detector_phi now node state = (case ds_nodes state node of None \<Rightarrow> 0 | Some h \<Rightarrow> history_phi now h)"

definition is_suspect :: "nat \<Rightarrow> node_id \<Rightarrow> detector_state \<Rightarrow> bool" where
  "is_suspect now node state \<longleftrightarrow>
    f64_ge (case ds_nodes state node of None \<Rightarrow> 0 | Some h \<Rightarrow> history_phi now h) (ds_threshold state)"

definition set_threshold :: "f64 \<Rightarrow> detector_state \<Rightarrow> detector_state" where
  "set_threshold threshold state = state\<lparr>ds_threshold := threshold\<rparr>"

section \<open>Runs\<close>

text \<open>The heartbeats of a node among those of all nodes, and the history they leave.\<close>

definition beats :: "node_id \<Rightarrow> (nat \<times> node_id) list \<Rightarrow> nat list" where
  "beats node evs = map fst (filter (\<lambda>e. snd e = node) evs)"

definition observe :: "(nat \<times> node_id) list \<Rightarrow> detector_state \<Rightarrow> detector_state" where
  "observe evs = fold (\<lambda>(t, n). detector_heartbeat t n) evs"

lemma observe_history:
  "ds_nodes (observe evs s) node =
    (if beats node evs = [] then ds_nodes s node
     else Some (fold record_heartbeat (beats node evs)
       (case ds_nodes s node of None \<Rightarrow> history_new | Some h \<Rightarrow> h)))"
  "ds_threshold (observe evs s) = ds_threshold s"
  by (induction evs arbitrary: s) (auto simp: observe_def beats_def detector_heartbeat_def Let_def)

lemma observe_new:
  "is_suspect now node (observe evs detector_new) \<longleftrightarrow> 8 \<le> history_phi now (fold record_heartbeat (beats node evs) history_new)"
  by (simp add: is_suspect_def observe_history detector_new_def with_threshold_def DEFAULT_PHI_THRESHOLD_def
      history_phi_def history_new_def)

text \<open>Durations in seconds.\<close>

lemma as_secs_ge: "s * 10 ^ 9 \<le> d \<Longrightarrow> s < 2 ^ 53 \<Longrightarrow> of_nat s \<le> as_secs_f64 d"
proof -
  assume d: "s * 10 ^ 9 \<le> d" and s: "s < 2 ^ 53"
  have "s \<le> d div 10 ^ 9" using d by (simp add: less_eq_div_iff_mult_less_eq)
  hence "of_nat s \<le> f64_of_nat (d div 10 ^ 9)" using s by (simp add: f64_ops f64_round_ge_nat)
  thus ?thesis
    unfolding as_secs_f64_def f64_add_def f64_div_def
    by (intro f64_round_ge_nat s) (simp add: add_increasing2 f64_round_nonneg)
qed

lemma as_secs_le: "d \<le> s * 10 ^ 9 \<Longrightarrow> s < 2 ^ 53 \<Longrightarrow> as_secs_f64 d \<le> of_nat s"
proof -
  assume d: "d \<le> s * 10 ^ 9" and s: "s < 2 ^ 53"
  have ns: "f64_of_nat (10 ^ 9) = 10 ^ 9" "f64_of_nat (d mod 10 ^ 9) = of_nat (d mod 10 ^ 9)"
    using f64_round_of_nat [of "10 ^ 9"] f64_round_of_nat [of "d mod 10 ^ 9"]
      mod_less_divisor [of "10 ^ 9" d] by (simp_all add: f64_ops)
  have le: "d div 10 ^ 9 \<le> s" using d by (simp add: div_le_mono [of d "s * 10 ^ 9" "10 ^ 9", simplified])
  hence whole: "f64_of_nat (d div 10 ^ 9) = of_nat (d div 10 ^ 9)" using s by (simp add: f64_ops f64_round_of_nat)
  have part: "f64_div (of_nat (d mod 10 ^ 9)) (10 ^ 9) \<le> of_nat (s - d div 10 ^ 9)"
  proof (cases "d div 10 ^ 9 = s")
    case True
    hence "d mod 10 ^ 9 = 0" using d by (metis mult_div_mod_eq add_le_same_cancel1 le_zero_eq mult.commute)
    thus ?thesis by (simp add: f64_div_def f64_round_def)
  next
    case False
    have "(of_nat (d mod 10 ^ 9) :: rat) / 10 ^ 9 \<le> of_nat 1"
      using mod_less_divisor [of "10 ^ 9" d] by (simp add: divide_le_eq)
    hence "f64_div (of_nat (d mod 10 ^ 9)) (10 ^ 9) \<le> of_nat 1"
      unfolding f64_div_def by (rule f64_round_le_nat) simp
    also have "(of_nat 1 :: rat) \<le> of_nat (s - d div 10 ^ 9)"
      using False le by (simp only: of_nat_le_iff)
    finally show ?thesis .
  qed
  show ?thesis
    unfolding as_secs_f64_def ns whole f64_add_def
    using part le by (intro f64_round_le_nat s) (simp add: of_nat_diff)
qed

lemma as_secs_mono: "d \<le> d' \<Longrightarrow> d' < 2 ^ 53 * 10 ^ 9 \<Longrightarrow> as_secs_f64 d \<le> as_secs_f64 d'"
proof -
  assume d: "d \<le> d'" and d': "d' < 2 ^ 53 * 10 ^ 9"
  show ?thesis
  proof (cases "d div 10 ^ 9 = d' div 10 ^ 9")
    case True
    hence "d mod 10 ^ 9 \<le> d' mod 10 ^ 9" using d by (metis add_le_cancel_left mult_div_mod_eq)
    thus ?thesis
      unfolding as_secs_f64_def f64_add_def f64_div_def f64_of_nat_def True
      by (intro f64_round_mono add_left_mono divide_right_mono) (simp_all add: f64_round_nonneg)
  next
    case False
    hence lt: "Suc (d div 10 ^ 9) \<le> d' div 10 ^ 9" using div_le_mono [OF d, of "10 ^ 9"] by simp
    have small: "d' div 10 ^ 9 < 2 ^ 53" using d' by (simp add: less_mult_imp_div_less)
    have "d \<le> Suc (d div 10 ^ 9) * 10 ^ 9" using dividend_less_div_times [of "10 ^ 9" d] by simp
    hence "as_secs_f64 d \<le> of_nat (Suc (d div 10 ^ 9))" using lt small by (intro as_secs_le) auto
    also have "(of_nat (Suc (d div 10 ^ 9)) :: rat) \<le> of_nat (d' div 10 ^ 9)" using lt by (simp only: of_nat_le_iff)
    also have "\<dots> \<le> as_secs_f64 d'" using small by (intro as_secs_ge) (simp_all add: div_times_less_eq_dividend)
    finally show ?thesis .
  qed
qed

lemma constant_bounds: "0 < MIN_MEAN_INTERVAL_SECONDS" "MIN_MEAN_INTERVAL_SECONDS \<le> 1" "43 / 100 \<le> LOG10_E"
  using f64_round_close [of "434294481903251827651128918916605082294 / 10 ^ 39"]
    f64_round_close [of "1 / 1000"] f64_round_le_nat [of "1 / 1000" 1]
  by (simp_all add: MIN_MEAN_INTERVAL_SECONDS_def LOG10_E_def)

section \<open>Histories\<close>

definition history_wf :: "rat \<Rightarrow> heartbeat_history \<Rightarrow> bool" where
  "history_wf b h \<longleftrightarrow> length (hh_inter_arrivals h) \<le> MAX_SAMPLES \<and>
    (\<forall>x \<in> set (hh_inter_arrivals h). MIN_MEAN_INTERVAL_SECONDS \<le> x \<and> x \<le> b)"

lemma record_wf:
  assumes "history_wf b h" "MIN_MEAN_INTERVAL_SECONDS \<le> b"
    and "\<And>t. hh_last_seen h = Some t \<Longrightarrow> as_secs_f64 (now - t) \<le> b"
  shows "history_wf b (record_heartbeat now h)"
  using assms
  by (auto simp: history_wf_def record_heartbeat_def Let_def MAX_SAMPLES_def tl_append split: option.splits list.splits)

lemma sum_le:
  assumes "\<forall>x \<in> set xs. x \<le> of_nat b" "(length xs + k) * b < 2 ^ 53"
  shows "a \<le> of_nat (k * b) \<Longrightarrow> foldl f64_add a xs \<le> of_nat ((length xs + k) * b)"
  using assms
proof (induction xs arbitrary: a k)
  case (Cons x xs)
  have "k * b + b \<le> (length (x # xs) + k) * b" by (simp add: algebra_simps)
  hence "k * b + b < 2 ^ 53" using Cons.prems(3) by (rule le_less_trans)
  hence "f64_add a x \<le> of_nat (k * b + b)"
    unfolding f64_add_def using Cons.prems(1,2) by (intro f64_round_le_nat) auto
  thus ?case using Cons.IH [of "f64_add a x" "Suc k"] Cons.prems by (simp add: algebra_simps)
qed simp

lemma mean_le:
  assumes "history_wf (of_nat b) h" "hh_inter_arrivals h \<noteq> []" "MAX_SAMPLES * b < 2 ^ 53"
  shows "f64_div (f64_sum (hh_inter_arrivals h)) (f64_of_nat (length (hh_inter_arrivals h))) \<le> of_nat b"
proof -
  let ?n = "length (hh_inter_arrivals h)"
  have n: "?n \<le> MAX_SAMPLES" "0 < ?n" using assms by (auto simp: history_wf_def)
  have nb: "?n * b \<le> MAX_SAMPLES * b" using n(1) by (rule mult_le_mono1)
  hence "?n * b < 2 ^ 53" using assms(3) by (rule le_less_trans)
  hence "f64_sum (hh_inter_arrivals h) \<le> of_nat (?n * b)"
    using sum_le [of "hh_inter_arrivals h" b 0 0] assms(1) by (simp add: history_wf_def f64_sum_def)
  moreover have "f64_of_nat ?n = of_nat ?n" using n by (simp add: f64_of_nat_def f64_round_of_nat MAX_SAMPLES_def)
  moreover have "b < 2 ^ 53" using assms(3) by (simp add: MAX_SAMPLES_def)
  ultimately show ?thesis
    unfolding f64_div_def using n(2) by (intro f64_round_le_nat) (simp_all add: divide_le_eq mult.commute)
qed

lemma phi_ge:
  assumes "history_wf (of_nat b) h" "hh_inter_arrivals h \<noteq> []" "hh_last_seen h = Some t"
    and "0 < b" "MAX_SAMPLES * b < 2 ^ 53" "t + 19 * b * 10 ^ 9 \<le> now"
  shows "8 \<le> history_phi now h"
proof -
  let ?mean = "max (f64_div (f64_sum (hh_inter_arrivals h)) (f64_of_nat (length (hh_inter_arrivals h)))) MIN_MEAN_INTERVAL_SECONDS"
  let ?e = "as_secs_f64 (now - t)"
  have "MIN_MEAN_INTERVAL_SECONDS \<le> of_nat b"
    using constant_bounds(2) assms(4) by (intro order_trans [OF constant_bounds(2)]) (simp add: Suc_leI)
  hence mean: "0 < ?mean" "?mean \<le> of_nat b"
    using mean_le [OF assms(1,2,5)] constant_bounds(1) by (simp_all add: less_max_iff_disj)
  have "of_nat (19 * b) \<le> ?e" using assms(5,6) by (intro as_secs_ge) (simp_all add: MAX_SAMPLES_def)
  hence "of_nat 19 * ?mean \<le> ?e" using mult_left_mono [OF mean(2), of 19] by linarith
  hence "of_nat 19 \<le> ?e / ?mean" using mean(1) by (simp only: pos_le_divide_eq)
  hence "of_nat 19 \<le> f64_div ?e ?mean" unfolding f64_div_def by (rule f64_round_ge_nat) simp
  hence "19 * (43 / 100) \<le> f64_div ?e ?mean * LOG10_E"
    using constant_bounds(3) by (intro mult_mono) simp_all
  hence "of_nat 8 \<le> f64_mul (f64_div ?e ?mean) LOG10_E"
    unfolding f64_mul_def by (intro f64_round_ge_nat) simp_all
  thus ?thesis using assms(2,3) by (simp add: history_phi_def)
qed

lemma phi_mono:
  assumes "now \<le> now'" "\<And>t. hh_last_seen h = Some t \<Longrightarrow> now' - t < 2 ^ 53 * 10 ^ 9"
  shows "history_phi now h \<le> history_phi now' h"
proof (cases "hh_last_seen h")
  case (Some t)
  have "as_secs_f64 (now - t) \<le> as_secs_f64 (now' - t)" using assms Some by (intro as_secs_mono) auto
  thus ?thesis
    using constant_bounds Some
    by (auto simp: history_phi_def f64_mul_def f64_div_def less_max_iff_disj
        intro!: f64_round_mono mult_right_mono divide_right_mono)
qed (simp add: history_phi_def)

lemma record_simps:
  "hh_last_seen (record_heartbeat now h) = Some now"
  "hh_last_seen h \<noteq> None \<Longrightarrow> hh_inter_arrivals (record_heartbeat now h) \<noteq> []"
  "hh_last_seen h = None \<Longrightarrow> hh_inter_arrivals (record_heartbeat now h) = hh_inter_arrivals h"
  by (auto simp: record_heartbeat_def Let_def MAX_SAMPLES_def tl_append split: list.splits if_splits)

lemma beats_run:
  assumes "history_wf (of_nat b) h" "hh_last_seen h = Some t" "0 < b" "b < 2 ^ 53"
    and "successively (\<lambda>s t. t - s \<le> b * 10 ^ 9) (t # ts)"
  shows "history_wf (of_nat b) (fold record_heartbeat ts h) \<and>
    hh_last_seen (fold record_heartbeat ts h) = Some (last (t # ts)) \<and>
    (ts \<noteq> [] \<longrightarrow> hh_inter_arrivals (fold record_heartbeat ts h) \<noteq> [])"
  using assms
proof (induction ts arbitrary: t h)
  case (Cons u us)
  have "MIN_MEAN_INTERVAL_SECONDS \<le> of_nat b"
    using Cons.prems(3) by (intro order_trans [OF constant_bounds(2)]) (simp add: Suc_leI)
  hence "history_wf (of_nat b) (record_heartbeat u h)"
    using Cons.prems by (intro record_wf) (auto intro!: as_secs_le)
  from Cons.IH [OF this record_simps(1) Cons.prems(3,4)] Cons.prems(2,5) show ?case
    by (cases us) (simp_all add: record_simps)
qed simp

lemma silence_noticed:
  assumes "2 \<le> length ts" "successively (\<lambda>s t. t - s \<le> b * 10 ^ 9) ts" "0 < b" "b < 2 ^ 46"
    and "last ts + 19 * b * 10 ^ 9 \<le> now"
  shows "8 \<le> history_phi now (fold record_heartbeat ts history_new)"
proof -
  obtain t u us where ts: "ts = t # u # us" using assms(1) by (metis Suc_le_length_iff numeral_2_eq_2)
  let ?h = "record_heartbeat t history_new" and ?g = "fold record_heartbeat ts history_new"
  have "history_wf (of_nat b) ?h" "hh_last_seen ?h = Some t"
    by (simp_all add: history_wf_def record_heartbeat_def history_new_def)
  with beats_run [of b ?h t "u # us"] assms(2-4) ts
  have "history_wf (of_nat b) ?g" "hh_last_seen ?g = Some (last ts)" "hh_inter_arrivals ?g \<noteq> []" by auto
  thus ?thesis using assms(3-5) by (intro phi_ge) (auto simp: MAX_SAMPLES_def)
qed

section \<open>Properties\<close>

text \<open>
  Silence is noticed.  When the heartbeats of a node are never more than \<open>b\<close> seconds apart, there
  are at least two of them, and the node then stays silent for \<open>19 b\<close> seconds, the detector with its
  default threshold suspects it, however the other nodes behave and however the arithmetic rounds.
\<close>

theorem silence_suspected:
  assumes "2 \<le> length (beats node evs)" "successively (\<lambda>s t. t - s \<le> b * 10 ^ 9) (beats node evs)"
    and "0 < b" "b < 2 ^ 46" "last (beats node evs) + 19 * b * 10 ^ 9 \<le> now"
  shows "is_suspect now node (observe evs detector_new)"
  using silence_noticed [OF assms] by (simp add: observe_new)

theorem silence_suspected_witness:
  "is_suspect (40 * 10 ^ 9) node_nil (observe [(0, node_nil), (10 ^ 9, node_nil)] detector_new)"
  using silence_suspected [of node_nil "[(0, node_nil), (10 ^ 9, node_nil)]" 1] by (simp add: beats_def)

text \<open>
  Suspicion does not fade by itself.  A node suspected at some moment is suspected at every later
  moment before its next heartbeat, for any threshold, as long as the silence fits the 53 bits of
  a double's seconds.
\<close>

theorem suspicion_persists:
  assumes "is_suspect now node s" "now \<le> now'"
    and "\<forall>h t. ds_nodes s node = Some h \<and> hh_last_seen h = Some t \<longrightarrow> now' - t < 2 ^ 53 * 10 ^ 9"
  shows "is_suspect now' node s"
proof (cases "ds_nodes s node")
  case (Some h)
  hence "history_phi now h \<le> history_phi now' h" using assms(2,3) by (intro phi_mono) auto
  thus ?thesis using assms(1) Some by (cases "ds_threshold s") (auto simp: is_suspect_def)
qed (use assms(1) in \<open>simp add: is_suspect_def\<close>)

theorem suspicion_persists_witness:
  "is_suspect (50 * 10 ^ 9) node_nil (observe [(0, node_nil), (10 ^ 9, node_nil)] detector_new)"
proof -
  let ?s = "observe [(0, node_nil), (10 ^ 9, node_nil)] detector_new"
  have "is_suspect (40 * 10 ^ 9) node_nil ?s"
    using silence_noticed [of "[0, 10 ^ 9]" 1 "40 * 10 ^ 9"] by (simp add: observe_new beats_def)
  thus ?thesis
    using suspicion_persists [of "40 * 10 ^ 9" node_nil ?s "50 * 10 ^ 9"]
    by (simp add: observe_history beats_def record_simps)
qed

text \<open>
  One heartbeat is not enough.  The detector measures a silence against the mean of the intervals it
  has seen, and a node heard of once or never has none: its phi is zero for ever, so
  that no silence, however long, makes a detector with a positive threshold suspect it.
\<close>

theorem lone_heartbeat_unsuspected:
  assumes "length (beats node evs) \<le> 1" "0 < x"
  shows "\<not> is_suspect now node (observe evs (with_threshold (Finite x)))"
proof -
  consider "beats node evs = []" | t where "beats node evs = [t]"
    using assms(1) by (cases "beats node evs") auto
  thus ?thesis
    using assms(2)
    by cases (simp_all add: is_suspect_def observe_history with_threshold_def history_phi_def record_simps history_new_def)
qed

theorem lone_heartbeat_unsuspected_witness:
  "\<not> is_suspect (10 ^ 30) node_nil (observe [(0, node_nil)] (with_threshold (Finite 8)))"
  using lone_heartbeat_unsuspected [of node_nil "[(0, node_nil)]" 8 "10 ^ 30"] by (simp add: beats_def)

end
