(* ===== verification/Gossip.thy ===== *)
theory Gossip
  imports Clocks Membership Failure_Detector
begin

text \<open>
  \<open>bashfuldb-cluster/src/gossip.rs\<close> and \<open>simulated_transport.rs\<close>: the gossip engine, its event loop, and the
  simulated network the engines talk over.  The engine is generic in its clock, its failure detector
  and its transport, and so is the model; the choice of a random peer and the instants
  at which the detector is asked are arguments.  Identifiers are shown by a parameter, \<open>uuid\<close>'s \<open>Display\<close>.
\<close>

section \<open>The traits an engine uses\<close>

record 'c clock =
  ck_tick :: "'c \<Rightarrow> hlc_outcome \<times> 'c"
  ck_update :: "hlc \<Rightarrow> 'c \<Rightarrow> hlc_outcome \<times> 'c"

record 'd failure_detector =
  fd_heartbeat :: "nat \<Rightarrow> node_id \<Rightarrow> 'd \<Rightarrow> 'd"
  fd_phi :: "nat \<Rightarrow> node_id \<Rightarrow> 'd \<Rightarrow> rat"
  fd_is_suspect :: "nat \<Rightarrow> node_id \<Rightarrow> 'd \<Rightarrow> bool"
  fd_set_threshold :: "f64 \<Rightarrow> 'd \<Rightarrow> 'd"

record 'n gossip_transport =
  gt_send :: "node_id \<Rightarrow> gossip_message \<Rightarrow> ('n, cluster_error, unit) act"

definition ManualClock :: "manual_clock clock" where
  "ManualClock = \<lparr>ck_tick = manual_tick, ck_update = manual_update\<rparr>"

definition PhiAccrualFailureDetector :: "detector_state failure_detector" where
  "PhiAccrualFailureDetector = \<lparr>fd_heartbeat = detector_heartbeat, fd_phi = detector_phi,
    fd_is_suspect = is_suspect, fd_set_threshold = set_threshold\<rparr>"

section \<open>The engine\<close>

record ('c, 'd, 'n) gossip_engine =
  ge_clock :: "'c clock"
  ge_detector :: "'d failure_detector"
  ge_transport :: "'n gossip_transport"

record ('c, 'd, 'n) gossip_world =
  gw_membership :: cluster_membership
  gw_clock :: 'c
  gw_detector :: 'd
  gw_net :: 'n

type_synonym ('c, 'd, 'n, 'a) gossip_act = "(('c, 'd, 'n) gossip_world, cluster_error, 'a) act"

definition clock_call :: "('c \<Rightarrow> hlc_outcome \<times> 'c) \<Rightarrow> ('c, 'd, 'n, hlc) gossip_act" where
  "clock_call f = (\<lambda>w. case f (gw_clock w) of
    (r, c) \<Rightarrow> (map_option (map_sum (\<lambda>e. ClusterClockError (show_clock_error e)) id) r, w\<lparr>gw_clock := c\<rparr>))"

definition send_call :: "('c, 'd, 'n) gossip_engine \<Rightarrow> node_id \<Rightarrow> gossip_message \<Rightarrow> ('c, 'd, 'n, unit) gossip_act" where
  "send_call G target msg = (\<lambda>w. case gt_send (ge_transport G) target msg (gw_net w) of
    (r, n) \<Rightarrow> (r, w\<lparr>gw_net := n\<rparr>))"

definition gossip_tick ::
  "('c, 'd, 'n) gossip_engine \<Rightarrow> (node_id list \<Rightarrow> node_id option) \<Rightarrow> ('c, 'd, 'n, unit) gossip_act" where
  "gossip_tick G pick = (\<lambda>w.
    let m = gw_membership w; local_node = cm_local_node m; schema_version = cm_schema_version m;
        peers = filter (\<lambda>node. node \<noteq> local_node) (member_all_nodes m); members = member_digests m
    in if peers = [] then act_ok () w
       else case pick peers of
           None \<Rightarrow> act_ok () w
         | Some target \<Rightarrow>
             act_bind (clock_call (ck_tick (ge_clock G))) (\<lambda>h.
             send_call G target \<lparr>gm_sender = local_node, gm_hlc = h, gm_schema_version = schema_version,
               gm_members = members\<rparr>) w)"

definition reply_with_local_digest ::
  "('c, 'd, 'n) gossip_engine \<Rightarrow> node_id \<Rightarrow> ('c, 'd, 'n, unit) gossip_act" where
  "reply_with_local_digest G target = (\<lambda>w.
    let m = gw_membership w
    in act_bind (clock_call (ck_tick (ge_clock G))) (\<lambda>h.
       send_call G target \<lparr>gm_sender = cm_local_node m, gm_hlc = h, gm_schema_version = cm_schema_version m,
         gm_members = member_digests m\<rparr>) w)"

definition merge_message :: "gossip_message \<Rightarrow> cluster_membership \<Rightarrow> cluster_membership" where
  "merge_message message m =
    (let m = fst (merge_remote_digests (gm_members message) m)
     in if cm_schema_version m < gm_schema_version message
        then set_schema_version (gm_schema_version message) m else m)"

definition handle_incoming ::
  "('c, 'd, 'n) gossip_engine \<Rightarrow> nat \<Rightarrow> node_id \<Rightarrow> gossip_message \<Rightarrow> ('c, 'd, 'n, unit) gossip_act" where
  "handle_incoming G now sender message = (\<lambda>w.
    act_bind (clock_call (ck_update (ge_clock G) (gm_hlc message))) (\<lambda>_ w.
    reply_with_local_digest G sender (w\<lparr>gw_membership := merge_message message (gw_membership w)\<rparr>))
      (w\<lparr>gw_detector := fd_heartbeat (ge_detector G) now sender (gw_detector w)\<rparr>))"

text \<open>One turn of the loop over the nodes; \<open>inst\<close> tells when each is looked at.\<close>

definition evaluate_node ::
  "('c, 'd, 'n) gossip_engine \<Rightarrow> (node_id \<Rightarrow> nat) \<Rightarrow> node_id \<Rightarrow> ('c, 'd, 'n, unit) gossip_act" where
  "evaluate_node G inst node = (\<lambda>w.
    case member_node_state (gw_membership w) node of
      None \<Rightarrow> act_ok () w
    | Some state \<Rightarrow>
        if state = Down then act_ok () w
        else
          let next_state =
            (if state = Suspect then Some Down
             else if fd_is_suspect (ge_detector G) (inst node) node (gw_detector w) then Some Suspect
             else None)
          in case next_state of
              None \<Rightarrow> act_ok () w
            | Some target \<Rightarrow>
                act_bind (clock_call (ck_tick (ge_clock G))) (\<lambda>h w.
                (Some (Ok ()), case transition_state node target h (gw_membership w) of
                   Ok m \<Rightarrow> w\<lparr>gw_membership := m\<rparr>
                 | Err _ \<Rightarrow> w)) w)"

definition evaluate_failure_detector ::
  "('c, 'd, 'n) gossip_engine \<Rightarrow> (node_id \<Rightarrow> nat) \<Rightarrow> ('c, 'd, 'n, unit) gossip_act" where
  "evaluate_failure_detector G inst = (\<lambda>w. act_for (member_all_nodes (gw_membership w)) (evaluate_node G inst) w)"

text \<open>The branches of the \<open>select!\<close> in \<open>start\<close>: errors are discarded, a panic ends the task.\<close>

datatype gossip_event =
    Ticker "node_id list \<Rightarrow> node_id option" "node_id \<Rightarrow> nat"
  | Received nat node_id gossip_message

primrec gossip_turn :: "('c, 'd, 'n) gossip_engine \<Rightarrow> gossip_event \<Rightarrow> ('c, 'd, 'n, unit) gossip_act" where
  "gossip_turn G (Ticker pick inst) =
    act_bind (act_try (gossip_tick G pick)) (\<lambda>_.
    act_bind (act_try (evaluate_failure_detector G inst)) (\<lambda>_.
    act_ok ()))"
| "gossip_turn G (Received now sender message) =
    act_bind (act_try (handle_incoming G now sender message)) (\<lambda>_.
    act_ok ())"

section \<open>The simulated network\<close>

text \<open>
  An endpoint is the number of a channel; a spawned delivery holds a clone of the channel's sender, the moment
  it wakes up, and what it will send.
\<close>

record delivery =
  dl_due :: nat
  dl_channel :: nat
  dl_from :: node_id
  dl_msg :: gossip_message

record simulated_network =
  sn_endpoints :: "(node_id \<times> nat) list"
  sn_inboxes :: "(node_id \<times> gossip_message) list list"
  sn_default_delay :: nat
  sn_link_delay :: "node_id \<times> node_id \<rightharpoonup> nat"
  sn_partitions :: "(node_id \<times> node_id) set"
  sn_drop_links :: "(node_id \<times> node_id) set"
  sn_drop_next :: "node_id \<times> node_id \<rightharpoonup> nat"
  sn_spawned :: "delivery list"
  sn_now :: nat

record simulated_transport =
  st_node_id :: node_id
  st_inbox :: nat

definition simulated_network_new :: simulated_network where
  "simulated_network_new = \<lparr>sn_endpoints = [], sn_inboxes = [], sn_default_delay = 0,
    sn_link_delay = Map.empty, sn_partitions = {}, sn_drop_links = {}, sn_drop_next = Map.empty,
    sn_spawned = [], sn_now = 0\<rparr>"

definition register_node :: "node_id \<Rightarrow> simulated_network \<Rightarrow> simulated_transport \<times> simulated_network" where
  "register_node node s =
    (\<lparr>st_node_id = node, st_inbox = length (sn_inboxes s)\<rparr>,
     s\<lparr>sn_inboxes := sn_inboxes s @ [[]], sn_endpoints := AList.update node (length (sn_inboxes s)) (sn_endpoints s)\<rparr>)"

definition set_default_delay :: "nat \<Rightarrow> simulated_network \<Rightarrow> simulated_network" where
  "set_default_delay delay s = s\<lparr>sn_default_delay := delay\<rparr>"

definition set_link_delay :: "node_id \<Rightarrow> node_id \<Rightarrow> nat \<Rightarrow> simulated_network \<Rightarrow> simulated_network" where
  "set_link_delay a b delay s = s\<lparr>sn_link_delay := (sn_link_delay s)((a, b) \<mapsto> delay)\<rparr>"

definition drop_link :: "node_id \<Rightarrow> node_id \<Rightarrow> simulated_network \<Rightarrow> simulated_network" where
  "drop_link a b s = s\<lparr>sn_drop_links := insert (a, b) (sn_drop_links s)\<rparr>"

definition restore_link :: "node_id \<Rightarrow> node_id \<Rightarrow> simulated_network \<Rightarrow> simulated_network" where
  "restore_link a b s = s\<lparr>sn_drop_links := sn_drop_links s - {(a, b)}\<rparr>"

definition drop_next :: "node_id \<Rightarrow> node_id \<Rightarrow> nat \<Rightarrow> simulated_network \<Rightarrow> simulated_network" where
  "drop_next a b count s = s\<lparr>sn_drop_next := (sn_drop_next s)((a, b) \<mapsto> count)\<rparr>"

definition net_partition :: "node_id \<Rightarrow> node_id \<Rightarrow> simulated_network \<Rightarrow> simulated_network" where
  "net_partition a b s = s\<lparr>sn_partitions := insert (b, a) (insert (a, b) (sn_partitions s))\<rparr>"

definition heal_partition :: "node_id \<Rightarrow> node_id \<Rightarrow> simulated_network \<Rightarrow> simulated_network" where
  "heal_partition a b s = s\<lparr>sn_partitions := sn_partitions s - {(a, b)} - {(b, a)}\<rparr>"

text \<open>The counter of messages still to be dropped on a link.\<close>

definition count_drop :: "node_id \<times> node_id \<Rightarrow> simulated_network \<Rightarrow> bool \<times> simulated_network" where
  "count_drop link s =
    (case sn_drop_next s link of
       None \<Rightarrow> (False, s)
     | Some remaining \<Rightarrow>
         (0 < remaining,
          s\<lparr>sn_drop_next := (if remaining - 1 = 0 then (sn_drop_next s)(link := None)
             else (sn_drop_next s)(link \<mapsto> remaining - 1))\<rparr>))"

definition sim_send ::
  "(node_id \<Rightarrow> string) \<Rightarrow> node_id \<Rightarrow> node_id \<Rightarrow> gossip_message \<Rightarrow> (simulated_network, cluster_error, unit) act" where
  "sim_send show_id node_id target msg s =
    (let link = (node_id, target); (counted, s) = count_drop link s;
         should_drop = link \<in> sn_partitions s \<or> link \<in> sn_drop_links s \<or> counted;
         sender = map_of (sn_endpoints s) target;
         delay = (case sn_link_delay s link of None \<Rightarrow> sn_default_delay s | Some d \<Rightarrow> d)
     in if should_drop then (Some (Ok ()), s)
        else case sender of
            None \<Rightarrow> (Some (Err (ClusterTransportError (''unknown target node: '' @ show_id target))), s)
          | Some ch \<Rightarrow>
              (Some (Ok ()), s\<lparr>sn_spawned := sn_spawned s @
                [\<lparr>dl_due = sn_now s + delay, dl_channel = ch, dl_from = node_id, dl_msg = msg\<rparr>]\<rparr>))"

definition SimulatedTransport :: "(node_id \<Rightarrow> string) \<Rightarrow> node_id \<Rightarrow> simulated_network gossip_transport" where
  "SimulatedTransport show_id node_id = \<lparr>gt_send = sim_send show_id node_id\<rparr>"

text \<open>A spawned delivery whose delay is over puts its message into the channel.\<close>

definition deliver :: "nat \<Rightarrow> simulated_network \<Rightarrow> simulated_network option" where
  "deliver i s =
    (if i < length (sn_spawned s) \<and> dl_due (sn_spawned s ! i) \<le> sn_now s
     then let d = sn_spawned s ! i
          in Some (s\<lparr>sn_spawned := take i (sn_spawned s) @ drop (Suc i) (sn_spawned s),
               sn_inboxes := (sn_inboxes s)[dl_channel d := sn_inboxes s ! dl_channel d @ [(dl_from d, dl_msg d)]]\<rparr>)
     else None)"

definition advance :: "nat \<Rightarrow> simulated_network \<Rightarrow> simulated_network" where
  "advance d s = s\<lparr>sn_now := sn_now s + d\<rparr>"

text \<open>
  \<open>receive\<close>: \<open>None\<close> when the call waits; it fails once no sender of the channel is left, neither in the table
  of endpoints nor in a spawned delivery.
\<close>

definition sim_receive ::
  "(node_id \<Rightarrow> string) \<Rightarrow> simulated_transport \<Rightarrow> simulated_network \<Rightarrow>
    ((cluster_error, node_id \<times> gossip_message) result \<times> simulated_network) option" where
  "sim_receive show_id t s =
    (case sn_inboxes s ! st_inbox t of
       (from, msg) # rest \<Rightarrow> Some (Ok (from, msg), s\<lparr>sn_inboxes := (sn_inboxes s)[st_inbox t := rest]\<rparr>)
     | [] \<Rightarrow>
         if st_inbox t \<in> snd ` set (sn_endpoints s) \<or> st_inbox t \<in> dl_channel ` set (sn_spawned s) then None
         else Some (Err (ClusterTransportError (''transport closed for '' @ show_id (st_node_id t))), s))"

end
