(* ===== verification/Epidemic.thy ===== *)
theory Epidemic
  imports Gossip
begin

text \<open>
  What the gossip engine does to a cluster: every turn of its loop keeps the membership table well formed, silent
  nodes are taken down in two evaluations, and messages never leave circulation.
\<close>

section \<open>Frames\<close>

lemma schema_frame [simp]:
  "cm_schema_version (rebuild_ring m) = cm_schema_version m"
  "cm_schema_version (send_event ev m) = cm_schema_version m"
  "cm_schema_version (emit_rebalance_if_needed a b m) = cm_schema_version m"
  "cm_schema_version (emit_state_events n s t m) = cm_schema_version m"
  "cm_schema_version (insert_member n r m) = cm_schema_version m"
  by (simp_all add: rebuild_ring_def send_event_def emit_rebalance_if_needed_def
      emit_state_events_def insert_member_def Let_def)

lemma merge_digest_schema [simp]: "cm_schema_version (fst (merge_digest d mc)) = cm_schema_version (fst mc)"
  by (cases mc) (auto simp: merge_digest_def Let_def split: option.splits)

lemma merge_schema [simp]: "cm_schema_version (fst (merge_remote_digests ds m)) = cm_schema_version m"
proof -
  have "cm_schema_version (fst (fold merge_digest ds mc)) = cm_schema_version (fst mc)" for mc
    by (induction ds arbitrary: mc) simp_all
  thus ?thesis by (simp add: merge_remote_digests_def)
qed

lemma merge_message_schema:
  "cm_schema_version (merge_message msg m) = max (gm_schema_version msg) (cm_schema_version m)"
  by (auto simp: merge_message_def Let_def set_schema_version_def max_def)

lemma merge_message_reach: "member_reach m (merge_message msg m)"
proof -
  have "member_reach m (fst (merge_remote_digests ds m))" for ds
    by (rule member_reach.merge [OF member_reach.start]) (rule surjective_pairing)
  thus ?thesis by (auto simp: merge_message_def Let_def intro: member_reach.schema)
qed

section \<open>One turn of the loop\<close>

definition table_moves :: "('c, 'd, 'n) gossip_world \<Rightarrow> ('c, 'd, 'n) gossip_world \<Rightarrow> bool" where
  "table_moves w w' \<longleftrightarrow> member_reach (gw_membership w) (gw_membership w') \<and>
    cm_schema_version (gw_membership w) \<le> cm_schema_version (gw_membership w')"

lemma member_reach_trans: "member_reach b c \<Longrightarrow> member_reach a b \<Longrightarrow> member_reach a c"
  by (induction rule: member_reach.induct) (auto intro: member_reach.intros)

lemma table_moves_order: "reflp table_moves" "transp table_moves"
  by (auto simp: table_moves_def reflp_def transp_def intro: member_reach.start member_reach_trans order_trans)

lemma calls_move: "act_moves table_moves (clock_call f)" "act_moves table_moves (send_call G target msg)"
  by (auto simp: act_moves_def clock_call_def send_call_def table_moves_def member_reach.start split: prod.splits)

lemma transition_schema: "transition_state n to t m = Ok m' \<Longrightarrow> cm_schema_version m' = cm_schema_version m"
  by (auto simp: transition_state_def Let_def split: option.splits if_splits)

lemma evaluate_node_moves: "act_moves table_moves (evaluate_node G inst n)"
proof -
  let ?f = "\<lambda>target h w. (Some (Ok ()), case transition_state n target h (gw_membership w) of
      Inr m \<Rightarrow> w\<lparr>gw_membership := m\<rparr> | Inl _ \<Rightarrow> w) :: (cluster_error + unit) option \<times> ('a, 'b, 'c) gossip_world"
  have "act_moves table_moves (?f target h)" for target h
    by (auto simp: act_moves_def table_moves_def transition_schema split: sum.splits
        intro: member_reach.start member_reach.transition)
  hence "act_moves table_moves (act_bind (clock_call (ck_tick (ge_clock G))) (?f target))" for target
    by (rule act_moves_bind [OF table_moves_order(2) calls_move(1)])
  thus ?thesis
    by (auto simp: evaluate_node_def act_moves_def act_run reflpD [OF table_moves_order(1)] Let_def split: option.splits)
qed

lemma evaluate_moves: "act_moves table_moves (evaluate_failure_detector G inst)"
  unfolding evaluate_failure_detector_def act_moves_def
  by (intro allI act_moves_for [OF table_moves_order evaluate_node_moves, unfolded act_moves_def, rule_format])

lemma answers_move: "act_moves table_moves (act_bind (clock_call f) (\<lambda>h. send_call G target (msg h)))"
  by (intro act_moves_bind table_moves_order calls_move)

lemmas moves_at = answers_move [unfolded act_moves_def, rule_format] reflpD [OF table_moves_order(1)]

lemma gossip_tick_moves: "act_moves table_moves (gossip_tick G pick)"
  by (auto simp: gossip_tick_def act_moves_def act_run moves_at Let_def split: option.splits)

lemma reply_moves: "act_moves table_moves (reply_with_local_digest G target)"
  by (auto simp: reply_with_local_digest_def act_moves_def moves_at Let_def)

lemma merge_reply_moves:
  "act_moves table_moves (\<lambda>w. reply_with_local_digest G sender (w\<lparr>gw_membership := merge_message msg (gw_membership w)\<rparr>))"
  unfolding act_moves_def
proof
  fix w :: "('a, 'b, 'c) gossip_world"
  let ?w = "w\<lparr>gw_membership := merge_message msg (gw_membership w)\<rparr>"
  have "table_moves w ?w" by (simp add: table_moves_def merge_message_reach merge_message_schema)
  moreover have "table_moves ?w (snd (reply_with_local_digest G sender ?w))"
    by (rule reply_moves [unfolded act_moves_def, rule_format])
  ultimately show "table_moves w (snd (reply_with_local_digest G sender ?w))"
    using table_moves_order(2) by (blast dest: transpD)
qed

lemma handle_incoming_moves: "act_moves table_moves (handle_incoming G now sender msg)"
proof -
  let ?m = "\<lambda>f. act_bind (clock_call f) (\<lambda>_ w. reply_with_local_digest G sender
      (w\<lparr>gw_membership := merge_message msg (gw_membership w)\<rparr>))"
  have "act_moves table_moves (?m f)" for f
    by (intro act_moves_bind table_moves_order calls_move merge_reply_moves)
  hence "table_moves (w\<lparr>gw_detector := d\<rparr>) (snd (?m f (w\<lparr>gw_detector := d\<rparr>)))" for f w d
    by (simp add: act_moves_def)
  thus ?thesis by (simp add: act_moves_def handle_incoming_def) (simp add: table_moves_def)
qed

lemma gossip_turn_moves: "act_moves table_moves (gossip_turn G ev)"
  by (cases ev)
    (simp_all add: act_moves_bind act_moves_try act_moves_simple table_moves_order gossip_tick_moves evaluate_moves
      handle_incoming_moves)

primrec gossip_turns :: "('c, 'd, 'n) gossip_engine \<Rightarrow> gossip_event list \<Rightarrow> ('c, 'd, 'n, unit) gossip_act" where
  "gossip_turns G [] = act_ok ()"
| "gossip_turns G (ev # evs) = act_bind (gossip_turn G ev) (\<lambda>_. gossip_turns G evs)"

lemma gossip_turns_move: "act_moves table_moves (gossip_turns G evs)"
  by (induction evs) (simp_all add: act_moves_bind act_moves_simple table_moves_order gossip_turn_moves)

text \<open>
  C9: the event loop of a gossip engine, fed any ticks and any messages at all, over any clock, detector and
  transport, keeps the membership table well formed, never forgets a node, never lowers a generation or the
  schema version, and moves the state of every node along the lifecycle graph only.
\<close>

theorem gossip_loop_safe:
  assumes "membership_wf (gw_membership w)" "gossip_turns G evs w = (r, w')"
  shows "membership_wf (gw_membership w') \<and>
    cm_schema_version (gw_membership w) \<le> cm_schema_version (gw_membership w') \<and>
    (\<forall>n r. map_of (cm_members (gw_membership w)) n = Some r \<longrightarrow>
      (\<exists>r'. map_of (cm_members (gw_membership w')) n = Some r' \<and> mr_generation r \<le> mr_generation r' \<and>
        (ni_state (mr_info r), ni_state (mr_info r')) \<in> {(a, b). can_transition_to a b}\<^sup>*))"
proof -
  have m: "table_moves w w'"
    using gossip_turns_move [unfolded act_moves_def, rule_format, of w G evs] assms(2) by simp
  hence "member_step\<^sup>*\<^sup>* (gw_membership w) (gw_membership w') \<and> membership_wf (gw_membership w')"
    using member_reach_steps assms(1) unfolding table_moves_def by blast
  thus ?thesis
    using member_steps_progress [of "gw_membership w" "gw_membership w'"] m by (simp add: table_moves_def lifecycle_def)
qed

definition quiet_engine :: "(manual_clock, detector_state, simulated_network) gossip_engine" where
  "quiet_engine = \<lparr>ge_clock = ManualClock, ge_detector = PhiAccrualFailureDetector,
    ge_transport = SimulatedTransport (\<lambda>_. []) (NodeId 1)\<rparr>"

definition quiet_world :: "node_state \<Rightarrow> (manual_clock, detector_state, simulated_network) gossip_world" where
  "quiet_world s = \<lparr>gw_membership = membership_new (demo_info s (NodeId 1)) hlc_zero,
    gw_clock = \<lparr>mc_state = hlc_zero, mc_physical_ms = 1, mc_state_poisoned = False, mc_physical_poisoned = False\<rparr>,
    gw_detector = detector_new, gw_net = simulated_network_new\<rparr>"

theorem gossip_loop_safe_witness:
  "\<exists>r w' q. gossip_turns quiet_engine [Ticker (\<lambda>_. None) (\<lambda>_. 0), Received 5 (NodeId 2)
      \<lparr>gm_sender = NodeId 2, gm_hlc = hlc_zero, gm_schema_version = 3, gm_members = []\<rparr>] (quiet_world Healthy) = (r, w') \<and>
    membership_wf (gw_membership w') \<and> map_of (cm_members (gw_membership w')) (NodeId 1) = Some q"
proof -
  let ?evs = "[Ticker (\<lambda>_. None) (\<lambda>_. 0), Received 5 (NodeId 2)
      \<lparr>gm_sender = NodeId 2, gm_hlc = hlc_zero, gm_schema_version = 3, gm_members = []\<rparr>]"
  obtain r w' where run: "gossip_turns quiet_engine ?evs (quiet_world Healthy) = (r, w')" by fastforce
  have "membership_wf (gw_membership (quiet_world Healthy))" by (simp add: quiet_world_def membership_new_wf)
  moreover have "map_of (cm_members (gw_membership (quiet_world Healthy))) (NodeId 1) \<noteq> None"
    by (simp add: quiet_world_def membership_new_def demo_info_def)
  ultimately show ?thesis using gossip_loop_safe [OF _ run] run by blast
qed

section \<open>Evaluating the detector\<close>

text \<open>The clock gives at least so many more timestamps.\<close>

primrec ticks_ok :: "'c clock \<Rightarrow> nat \<Rightarrow> 'c \<Rightarrow> bool" where
  "ticks_ok C 0 c \<longleftrightarrow> True"
| "ticks_ok C (Suc k) c \<longleftrightarrow> (case ck_tick C c of (Some (Inr h), c') \<Rightarrow> ticks_ok C k c' | _ \<Rightarrow> False)"

lemma ticks_ok_tick:
  assumes "ticks_ok C (Suc k) c"
  obtains h c' where "ck_tick C c = (Some (Ok h), c')" "ticks_ok C k c'"
  using assms by (auto split: prod.splits option.splits sum.splits)

lemma ticks_ok_less: "ticks_ok C (k + j) c \<Longrightarrow> ticks_ok C k c"
proof (induction k arbitrary: c)
  case (Suc k)
  from ticks_ok_tick [of C "k + j" c] Suc.prems obtain h c' where "ck_tick C c = (Some (Ok h), c')" "ticks_ok C (k + j) c'"
    by auto
  thus ?case using Suc.IH by simp
qed simp

text \<open>What one evaluation makes of the state of a node.\<close>

definition judged :: "bool \<Rightarrow> node_state \<Rightarrow> node_state" where
  "judged suspected s = (if s = Suspect then Down else if s = Healthy \<and> suspected then Suspect else s)"

lemma transition_states:
  "transition_state n to t m = Ok m' \<Longrightarrow>
    member_node_state m' x = (if x = n then Some to else member_node_state m x) \<and> map fst (cm_members m') = map fst (cm_members m)"
  by (auto simp: transition_state_def member_node_state_def Let_def update_conv' update_keys
      dest!: map_of_SomeD split: option.splits if_splits) force+

lemma transition_judged:
  assumes "member_node_state m n = Some s"
  shows "(\<exists>m'. transition_state n to t m = Ok m') \<longleftrightarrow> s = to \<or> can_transition_to s to"
  using assms by (auto simp: transition_state_def member_node_state_def Let_def split: if_splits)

lemma evaluate_node_run:
  assumes "ticks_ok (ge_clock G) (Suc k) (gw_clock w)"
  shows "\<exists>w'. evaluate_node G inst n w = (Some (Ok ()), w') \<and> ticks_ok (ge_clock G) k (gw_clock w') \<and>
    gw_detector w' = gw_detector w \<and>
    map fst (cm_members (gw_membership w')) = map fst (cm_members (gw_membership w)) \<and>
    (\<forall>x. member_node_state (gw_membership w') x =
      (if x = n then map_option (judged (fd_is_suspect (ge_detector G) (inst n) n (gw_detector w)))
          (member_node_state (gw_membership w) n)
       else member_node_state (gw_membership w) x))"
proof (cases "member_node_state (gw_membership w) n")
  case None
  thus ?thesis using ticks_ok_less [of _ k 1] assms by (simp add: evaluate_node_def act_run)
next
  case (Some s)
  let ?suspected = "fd_is_suspect (ge_detector G) (inst n) n (gw_detector w)"
  obtain h c where tick: "ck_tick (ge_clock G) (gw_clock w) = (Some (Ok h), c)" "ticks_ok (ge_clock G) k c"
    using ticks_ok_tick [OF assms] .
  have keep: "ticks_ok (ge_clock G) k (gw_clock w)" using ticks_ok_less [of _ k 1] assms by simp
  consider "s = Down" | "s = Suspect" | "s \<noteq> Down" "s \<noteq> Suspect" "?suspected" | "s \<noteq> Down" "s \<noteq> Suspect" "\<not> ?suspected"
    by blast
  thus ?thesis
  proof cases
    case 2
    then obtain m where m: "transition_state n Down h (gw_membership w) = Ok m"
      using transition_judged [OF Some, of Down h] by (auto simp: can_transition_to_def)
    thus ?thesis
      using 2 Some tick transition_states [OF m]
      by (simp add: evaluate_node_def act_bind_run clock_call_def judged_def)
  next
    case 3
    show ?thesis
    proof (cases "transition_state n Suspect h (gw_membership w)")
      case (Inl e)
      hence "s \<noteq> Healthy" using transition_judged [OF Some, of Suspect h] by (auto simp: can_transition_to_def)
      thus ?thesis using 3 Some tick Inl by (simp add: evaluate_node_def act_bind_run clock_call_def judged_def)
    next
      case (Inr m)
      hence "s = Healthy" using transition_judged [OF Some, of Suspect h] 3 by (cases s) (auto simp: can_transition_to_def)
      thus ?thesis
        using 3 Some tick transition_states [OF Inr] Inr
        by (simp add: evaluate_node_def act_bind_run clock_call_def judged_def)
    qed
  qed (use Some keep in \<open>simp_all add: evaluate_node_def act_run judged_def\<close>)
qed

lemma evaluate_loop:
  "distinct ns \<Longrightarrow> ticks_ok (ge_clock G) (length ns + k) (gw_clock w) \<Longrightarrow>
    \<exists>w'. act_for ns (evaluate_node G inst) w = (Some (Ok ()), w') \<and> ticks_ok (ge_clock G) k (gw_clock w') \<and>
      gw_detector w' = gw_detector w \<and>
      map fst (cm_members (gw_membership w')) = map fst (cm_members (gw_membership w)) \<and>
      (\<forall>x. member_node_state (gw_membership w') x =
        (if x \<in> set ns then map_option (judged (fd_is_suspect (ge_detector G) (inst x) x (gw_detector w)))
            (member_node_state (gw_membership w) x)
         else member_node_state (gw_membership w) x))"
proof (induction ns arbitrary: w)
  case (Cons n ns)
  obtain w1 where w1: "evaluate_node G inst n w = (Some (Ok ()), w1)" "ticks_ok (ge_clock G) (length ns + k) (gw_clock w1)"
    "gw_detector w1 = gw_detector w" "map fst (cm_members (gw_membership w1)) = map fst (cm_members (gw_membership w))"
    "\<forall>x. member_node_state (gw_membership w1) x =
      (if x = n then map_option (judged (fd_is_suspect (ge_detector G) (inst n) n (gw_detector w)))
          (member_node_state (gw_membership w) n)
       else member_node_state (gw_membership w) x)"
    using evaluate_node_run [of G "length ns + k" w inst n] Cons.prems(2) by auto
  have "distinct ns" "n \<notin> set ns" using Cons.prems(1) by auto
  with Cons.IH [OF _ w1(2)] w1 show ?case by (auto simp: act_bind_run)
qed (simp add: act_run)

lemma evaluate_run:
  assumes "distinct (map fst (cm_members (gw_membership w)))"
    and "ticks_ok (ge_clock G) (length (cm_members (gw_membership w)) + k) (gw_clock w)"
  shows "\<exists>w'. evaluate_failure_detector G inst w = (Some (Ok ()), w') \<and> ticks_ok (ge_clock G) k (gw_clock w') \<and>
    gw_detector w' = gw_detector w \<and>
    map fst (cm_members (gw_membership w')) = map fst (cm_members (gw_membership w)) \<and>
    (\<forall>x. member_node_state (gw_membership w') x =
      map_option (judged (fd_is_suspect (ge_detector G) (inst x) x (gw_detector w))) (member_node_state (gw_membership w) x))"
proof -
  have "x \<notin> set (member_all_nodes (gw_membership w)) \<Longrightarrow> member_node_state (gw_membership w) x = None" for x
    by (simp add: member_all_nodes_def member_node_state_def map_of_eq_None_iff)
  thus ?thesis
    using evaluate_loop [of "member_all_nodes (gw_membership w)" G k w inst] assms
    by (fastforce simp: evaluate_failure_detector_def member_all_nodes_def)
qed

text \<open>
  C20: a silent node is taken down.  A \<open>Healthy\<close> node whose heartbeats came at most \<open>b\<close> seconds apart and that has
  been silent for \<open>19 b\<close> seconds is \<open>Suspect\<close> after the next evaluation and \<open>Down\<close> after the one that follows,
  whatever else is in the table; both evaluations succeed when the clock has a timestamp
  for every member each time.
\<close>

theorem silent_node_downed:
  assumes "membership_wf (gw_membership w)" "member_node_state (gw_membership w) n = Some Healthy"
    and "ge_detector G = PhiAccrualFailureDetector" "gw_detector w = observe evs detector_new"
    and "2 \<le> length (beats n evs)" "successively (\<lambda>s t. t - s \<le> b * 10 ^ 9) (beats n evs)" "0 < b" "b < 2 ^ 46"
    and "last (beats n evs) + 19 * b * 10 ^ 9 \<le> inst n"
    and "ticks_ok (ge_clock G) (2 * length (cm_members (gw_membership w))) (gw_clock w)"
  shows "\<exists>w1 w2. evaluate_failure_detector G inst w = (Some (Ok ()), w1) \<and>
    member_node_state (gw_membership w1) n = Some Suspect \<and>
    evaluate_failure_detector G inst' w1 = (Some (Ok ()), w2) \<and>
    member_node_state (gw_membership w2) n = Some Down"
proof -
  let ?k = "length (cm_members (gw_membership w))"
  have d: "distinct (map fst (cm_members (gw_membership w)))" using assms(1) by (simp add: membership_wf_def)
  have "8 \<le> history_phi (inst n) (fold record_heartbeat (beats n evs) history_new)"
    by (rule silence_noticed [OF assms(5-9)])
  hence sus: "fd_is_suspect (ge_detector G) (inst n) n (gw_detector w)"
    by (simp add: assms(3,4) PhiAccrualFailureDetector_def observe_new)
  obtain w1 where w1: "evaluate_failure_detector G inst w = (Some (Ok ()), w1)" "ticks_ok (ge_clock G) ?k (gw_clock w1)"
    "map fst (cm_members (gw_membership w1)) = map fst (cm_members (gw_membership w))"
    "member_node_state (gw_membership w1) n = Some Suspect"
    using evaluate_run [OF d, of G ?k inst] assms(2,10) sus by (auto simp: mult_2 judged_def)
  have "length (cm_members (gw_membership w1)) = ?k" using arg_cong [OF w1(3), of length] by simp
  then obtain w2 where "evaluate_failure_detector G inst' w1 = (Some (Ok ()), w2)"
    "member_node_state (gw_membership w2) n = Some Down"
    using evaluate_run [of w1 G 0 inst'] w1 d by (auto simp: judged_def)
  with w1 show ?thesis by blast
qed

lemma quiet_world_laws:
  "membership_wf (gw_membership (quiet_world s))" "length (cm_members (gw_membership (quiet_world s))) = 1"
  "member_node_state (gw_membership (quiet_world s)) (NodeId 1) = Some s"
  "ge_clock quiet_engine = ManualClock" "ge_detector quiet_engine = PhiAccrualFailureDetector"
  "ticks_ok ManualClock 2 (gw_clock (quiet_world s))"
proof -
  show "ticks_ok ManualClock 2 (gw_clock (quiet_world s))"
    unfolding numeral_2_eq_2
    by (simp add: quiet_world_def checked_add_def word_le_nat_alt ManualClock_def manual_tick_def manual_guarded_def hlc_tick_def
        hlc_zero_def physical_ms_def logical_def try_new_def hlc_new_def PHYSICAL_SHIFT_def LOGICAL_MASK_def MAX_LOGICAL_def)
  show "membership_wf (gw_membership (quiet_world s))" by (simp add: quiet_world_def membership_new_wf)
qed (simp_all add: quiet_world_def membership_new_def demo_info_def member_node_state_def quiet_engine_def)

theorem silent_node_downed_witness:
  "\<exists>w1 w2. evaluate_failure_detector quiet_engine (\<lambda>_. 40 * 10 ^ 9)
      ((quiet_world Healthy)\<lparr>gw_detector := observe [(0, NodeId 1), (10 ^ 9, NodeId 1)] detector_new\<rparr>) = (Some (Ok ()), w1) \<and>
    evaluate_failure_detector quiet_engine (\<lambda>_. 41 * 10 ^ 9) w1 = (Some (Ok ()), w2) \<and>
    member_node_state (gw_membership w2) (NodeId 1) = Some Down"
  using silent_node_downed [of "(quiet_world Healthy)\<lparr>gw_detector := observe [(0, NodeId 1), (10 ^ 9, NodeId 1)] detector_new\<rparr>"
      "NodeId 1" quiet_engine "[(0, NodeId 1), (10 ^ 9, NodeId 1)]" 1 "\<lambda>_. 40 * 10 ^ 9" "\<lambda>_. 41 * 10 ^ 9"]
  by (auto simp: quiet_world_laws beats_def)

text \<open>
  A suspect gets no second chance.  An evaluation takes a \<open>Suspect\<close> node \<open>Down\<close> whatever the detector
  says of it: also when heartbeats have come back and the detector no longer suspects the node.
\<close>

theorem recovered_suspect_downed:
  assumes "membership_wf (gw_membership w)" "member_node_state (gw_membership w) n = Some Suspect"
    and "\<not> fd_is_suspect (ge_detector G) (inst n) n (gw_detector w)"
    and "ticks_ok (ge_clock G) (length (cm_members (gw_membership w))) (gw_clock w)"
  shows "\<exists>w'. evaluate_failure_detector G inst w = (Some (Ok ()), w') \<and>
    member_node_state (gw_membership w') n = Some Down"
  using evaluate_run [of w G 0 inst] assms(1,2,4) by (auto simp: membership_wf_def judged_def)

theorem recovered_suspect_downed_witness:
  "\<exists>w'. evaluate_failure_detector quiet_engine (\<lambda>_. 0) (quiet_world Suspect) = (Some (Ok ()), w') \<and>
    member_node_state (gw_membership w') (NodeId 1) = Some Down"
proof (rule recovered_suspect_downed)
  show "\<not> fd_is_suspect (ge_detector quiet_engine) 0 (NodeId 1) (gw_detector (quiet_world Suspect))"
    by (simp add: quiet_world_laws PhiAccrualFailureDetector_def is_suspect_def quiet_world_def detector_new_def
        with_threshold_def DEFAULT_PHI_THRESHOLD_def)
  show "ticks_ok (ge_clock quiet_engine) (length (cm_members (gw_membership (quiet_world Suspect)))) (gw_clock (quiet_world Suspect))"
    using ticks_ok_less [of ManualClock 1 1] quiet_world_laws(6) by (simp add: quiet_world_laws numeral_2_eq_2)
qed (simp_all add: quiet_world_laws)

section \<open>Messages in circulation\<close>

text \<open>A cluster of engines over one simulated network.\<close>

record ('c, 'd) node_engine =
  ne_membership :: cluster_membership
  ne_clock :: 'c
  ne_detector :: 'd

definition in_world :: "('c, 'd) node_engine \<Rightarrow> 'n \<Rightarrow> ('c, 'd, 'n) gossip_world" where
  "in_world e s = \<lparr>gw_membership = ne_membership e, gw_clock = ne_clock e, gw_detector = ne_detector e, gw_net = s\<rparr>"

definition of_world :: "('c, 'd, 'n) gossip_world \<Rightarrow> ('c, 'd) node_engine" where
  "of_world w = \<lparr>ne_membership = gw_membership w, ne_clock = gw_clock w, ne_detector = gw_detector w\<rparr>"

definition engine_of ::
  "'c clock \<Rightarrow> 'd failure_detector \<Rightarrow> (node_id \<Rightarrow> string) \<Rightarrow> node_id \<Rightarrow> ('c, 'd, simulated_network) gossip_engine" where
  "engine_of C D show_id n = \<lparr>ge_clock = C, ge_detector = D, ge_transport = SimulatedTransport show_id n\<rparr>"

text \<open>
  Runs of such a cluster in which no clock fails, with the number of ticks that found a peer.  The nodes of \<open>R\<close> run
  an engine each.
\<close>

inductive cluster_run ::
  "'c clock \<Rightarrow> 'd failure_detector \<Rightarrow> (node_id \<Rightarrow> string) \<Rightarrow> node_id set \<Rightarrow> (node_id \<Rightarrow> ('c, 'd) node_engine) \<Rightarrow>
    simulated_network \<Rightarrow> nat \<Rightarrow> (node_id \<Rightarrow> ('c, 'd) node_engine) \<Rightarrow> simulated_network \<Rightarrow> bool"
  for C D show_id R e0 s0 where
  start: "cluster_run C D show_id R e0 s0 0 e0 s0"
| tick: "cluster_run C D show_id R e0 s0 k e s \<Longrightarrow> n \<in> R \<Longrightarrow>
    pick (filter (\<lambda>x. x \<noteq> cm_local_node (ne_membership (e n))) (member_all_nodes (ne_membership (e n)))) = Some target \<Longrightarrow>
    target \<in> set (member_all_nodes (ne_membership (e n))) - {cm_local_node (ne_membership (e n))} \<Longrightarrow>
    gossip_tick (engine_of C D show_id n) pick (in_world (e n) s) = (Some (Ok ()), w) \<Longrightarrow>
    cluster_run C D show_id R e0 s0 (Suc k) (e(n := of_world w)) (gw_net w)"
| evaluate: "cluster_run C D show_id R e0 s0 k e s \<Longrightarrow> n \<in> R \<Longrightarrow>
    evaluate_failure_detector (engine_of C D show_id n) inst (in_world (e n) s) = (Some r, w) \<Longrightarrow>
    cluster_run C D show_id R e0 s0 k (e(n := of_world w)) (gw_net w)"
| receive: "cluster_run C D show_id R e0 s0 k e s \<Longrightarrow> n \<in> R \<Longrightarrow> ch < length (sn_inboxes s) \<Longrightarrow>
    sim_receive show_id \<lparr>st_node_id = n, st_inbox = ch\<rparr> s = Some (Ok (sender, msg), s') \<Longrightarrow>
    handle_incoming (engine_of C D show_id n) now sender msg (in_world (e n) s') = (Some (Ok ()), w) \<Longrightarrow>
    cluster_run C D show_id R e0 s0 k (e(n := of_world w)) (gw_net w)"
| deliver: "cluster_run C D show_id R e0 s0 k e s \<Longrightarrow> deliver i s = Some s' \<Longrightarrow>
    cluster_run C D show_id R e0 s0 k e s'"
| advance: "cluster_run C D show_id R e0 s0 k e s \<Longrightarrow> cluster_run C D show_id R e0 s0 k e (advance d s)"

definition circulating :: "simulated_network \<Rightarrow> nat" where
  "circulating s = length (sn_spawned s) + sum_list (map length (sn_inboxes s))"

text \<open>A network that loses nothing, and tables and messages that only name its nodes.\<close>

definition lossless :: "node_id set \<Rightarrow> simulated_network \<Rightarrow> bool" where
  "lossless R s \<longleftrightarrow> sn_partitions s = {} \<and> sn_drop_links s = {} \<and> sn_drop_next s = Map.empty \<and>
    R \<subseteq> fst ` set (sn_endpoints s) \<and> snd ` set (sn_endpoints s) \<subseteq> {..<length (sn_inboxes s)}"

definition names_only :: "node_id set \<Rightarrow> node_id \<times> gossip_message \<Rightarrow> bool" where
  "names_only R fm \<longleftrightarrow> fst fm \<in> R \<and> md_id ` set (gm_members (snd fm)) \<subseteq> R"

definition traffic_ok :: "node_id set \<Rightarrow> simulated_network \<Rightarrow> bool" where
  "traffic_ok R s \<longleftrightarrow> (\<forall>d \<in> set (sn_spawned s). dl_channel d < length (sn_inboxes s) \<and> names_only R (dl_from d, dl_msg d)) \<and>
    (\<forall>q \<in> set (sn_inboxes s). \<forall>fm \<in> set q. names_only R fm)"

definition table_in :: "node_id set \<Rightarrow> cluster_membership \<Rightarrow> bool" where
  "table_in R m \<longleftrightarrow> membership_wf m \<and> fst ` set (cm_members m) \<subseteq> R"

lemma send_lossless:
  assumes "lossless R s" "traffic_ok R s" "target \<in> R" "names_only R (n, msg)"
  shows "\<exists>s'. sim_send show_id n target msg s = (Some (Ok ()), s') \<and> lossless R s' \<and> traffic_ok R s' \<and>
    circulating s' = Suc (circulating s)"
proof -
  obtain ch where ch: "map_of (sn_endpoints s) target = Some ch"
    using assms(1,3) by (cases "map_of (sn_endpoints s) target") (auto simp: lossless_def map_of_eq_None_iff)
  moreover from this have "ch < length (sn_inboxes s)" using assms(1) by (force simp: lossless_def dest: map_of_SomeD)
  ultimately show ?thesis
    using assms by (auto simp: sim_send_def count_drop_def lossless_def traffic_ok_def circulating_def Let_def)
qed

lemma answer_run:
  assumes "act_bind (clock_call f) (\<lambda>h. send_call (engine_of C D show_id n) target (msg h)) w = (Some (Ok ()), w')"
    and "lossless R (gw_net w)" "traffic_ok R (gw_net w)" "target \<in> R" "\<And>h. names_only R (n, msg h)"
  shows "gw_membership w' = gw_membership w \<and> lossless R (gw_net w') \<and> traffic_ok R (gw_net w') \<and>
    circulating (gw_net w') = Suc (circulating (gw_net w))"
proof -
  obtain h w1 where 1: "clock_call f w = (Some (Ok h), w1)"
    "send_call (engine_of C D show_id n) target (msg h) w1 = (Some (Ok ()), w')"
    using assms(1) by (auto simp: act_bind_Ok_iff)
  hence same: "gw_membership w1 = gw_membership w" "gw_net w1 = gw_net w"
    by (auto simp: clock_call_def split: prod.splits)
  obtain s' where "sim_send show_id n target (msg h) (gw_net w) = (Some (Ok ()), s')" "lossless R s'" "traffic_ok R s'"
    "circulating s' = Suc (circulating (gw_net w))"
    using send_lossless [OF assms(2-5)] by blast
  thus ?thesis
    using 1(2) same by (auto simp: send_call_def engine_of_def SimulatedTransport_def)
qed

lemma digests_in: "table_in R m \<Longrightarrow> md_id ` set (member_digests m) \<subseteq> R"
  by (force simp: table_in_def membership_wf_def ids_ok_def member_digests_def digest_of_def)

lemma merge_keys:
  "fst ` set (cm_members (fst (fold merge_digest ds mc))) \<subseteq> fst ` set (cm_members (fst mc)) \<union> md_id ` set ds"
proof (induction ds arbitrary: mc)
  case (Cons d ds)
  have "fst ` set (cm_members (fst (merge_digest d mc))) \<subseteq> insert (md_id d) (fst ` set (cm_members (fst mc)))"
    by (cases mc) (auto simp: merge_digest_def Let_def keys_update split: option.splits)
  thus ?case using Cons [of "merge_digest d mc"] by (simp only: fold_simps list.set image_insert) blast
qed simp

lemma merge_message_in:
  assumes "table_in R m" "names_only R (sender, msg)"
  shows "table_in R (merge_message msg m)"
proof -
  have "membership_wf (merge_message msg m)"
    using member_reach_steps [OF merge_message_reach] assms(1) by (simp add: table_in_def)
  moreover have "cm_members (merge_message msg m) = cm_members (fst (fold merge_digest (gm_members msg) (m, False)))"
    by (simp add: merge_message_def merge_remote_digests_def Let_def)
  hence "fst ` set (cm_members (merge_message msg m)) \<subseteq> fst ` set (cm_members m) \<union> md_id ` set (gm_members msg)"
    using merge_keys [of "gm_members msg" "(m, False)"] by simp
  moreover have "fst ` set (cm_members m) \<union> md_id ` set (gm_members msg) \<subseteq> R"
    using assms by (simp add: table_in_def names_only_def)
  ultimately show ?thesis by (simp only: table_in_def) blast
qed

definition keeps_names :: "('c, 'd, 'n) gossip_world \<Rightarrow> ('c, 'd, 'n) gossip_world \<Rightarrow> bool" where
  "keeps_names w w' \<longleftrightarrow> map fst (cm_members (gw_membership w')) = map fst (cm_members (gw_membership w)) \<and>
    gw_net w' = gw_net w"

lemma keeps_names_order: "reflp keeps_names" "transp keeps_names"
  by (auto simp: keeps_names_def reflp_def transp_def)

lemma evaluate_node_names: "act_moves keeps_names (evaluate_node G inst n)"
proof -
  let ?f = "\<lambda>target h w. (Some (Ok ()), case transition_state n target h (gw_membership w) of
      Inr m \<Rightarrow> w\<lparr>gw_membership := m\<rparr> | Inl _ \<Rightarrow> w) :: (cluster_error + unit) option \<times> ('a, 'b, 'c) gossip_world"
  have "act_moves keeps_names (?f target h)" for target h
    using transition_states by (auto simp: act_moves_def keeps_names_def split: sum.splits)
  moreover have "act_moves keeps_names (clock_call (ck_tick (ge_clock G)) :: ('a, 'b, 'c, hlc) gossip_act)"
    by (auto simp: act_moves_def clock_call_def keeps_names_def split: prod.splits)
  ultimately have "act_moves keeps_names (act_bind (clock_call (ck_tick (ge_clock G))) (?f target))" for target
    by (intro act_moves_bind keeps_names_order)
  thus ?thesis
    by (auto simp: evaluate_node_def act_moves_def act_run reflpD [OF keeps_names_order(1)] Let_def split: option.splits)
qed

lemma evaluate_names: "evaluate_failure_detector G inst w = (r, w') \<Longrightarrow> keeps_names w w'"
  using act_moves_for [OF keeps_names_order, of "evaluate_node G inst", OF evaluate_node_names, unfolded act_moves_def,
      rule_format, of w "member_all_nodes (gw_membership w)"]
  by (simp add: evaluate_failure_detector_def)

lemma evaluate_in:
  assumes "evaluate_failure_detector G inst w = (r, w')" "table_in R (gw_membership w)"
  shows "table_in R (gw_membership w') \<and> gw_net w' = gw_net w"
proof -
  have "table_moves w w'"
    using evaluate_moves [unfolded act_moves_def, rule_format, of w G inst] assms(1) by simp
  hence "membership_wf (gw_membership w')"
    using member_reach_steps assms(2) unfolding table_moves_def table_in_def by blast
  moreover have "set (map fst (cm_members (gw_membership w'))) = set (map fst (cm_members (gw_membership w)))" "gw_net w' = gw_net w"
    using evaluate_names [OF assms(1)] unfolding keeps_names_def by simp_all
  ultimately show ?thesis using assms(2) by (simp add: table_in_def)
qed

lemma inbox_update:
  "\<forall>q \<in> set xss. \<forall>x \<in> set q. P x \<Longrightarrow> \<forall>x \<in> set xs. P x \<Longrightarrow> \<forall>q \<in> set (xss[i := xs]). \<forall>x \<in> set q. P x"
  by (auto dest: set_update_subset_insert [THEN subsetD])

lemma receive_run:
  assumes "sim_receive show_id t s = Some (Ok (sender, msg), s')" "lossless R s" "traffic_ok R s" "st_inbox t < length (sn_inboxes s)"
  shows "lossless R s' \<and> traffic_ok R s' \<and> names_only R (sender, msg) \<and> Suc (circulating s') = circulating s"
proof -
  obtain q where q: "sn_inboxes s ! st_inbox t = (sender, msg) # q" "s' = s\<lparr>sn_inboxes := (sn_inboxes s)[st_inbox t := q]\<rparr>"
    using assms(1) by (auto simp: sim_receive_def split: list.splits if_splits)
  have "(sender, msg) # q \<in> set (sn_inboxes s)" using q(1) assms(4) by (metis nth_mem)
  hence q_ok: "\<forall>fm \<in> set ((sender, msg) # q). names_only R fm" using assms(3) unfolding traffic_ok_def by blast
  have "\<forall>p \<in> set ((sn_inboxes s)[st_inbox t := q]). \<forall>fm \<in> set p. names_only R fm"
    using assms(3) q_ok by (intro inbox_update) (simp_all add: traffic_ok_def)
  moreover have "Suc (sum_list (map length ((sn_inboxes s)[st_inbox t := q]))) = sum_list (map length (sn_inboxes s))"
    using sum_list_update [of "st_inbox t" "map length (sn_inboxes s)" "length q"] q(1) assms(4)
      elem_le_sum_list [of "st_inbox t" "map length (sn_inboxes s)"]
    by (simp add: map_update [symmetric])
  ultimately show ?thesis
    using assms(2,3) q(2) q_ok by (simp add: lossless_def traffic_ok_def circulating_def)
qed

lemma deliver_run:
  assumes "deliver i s = Some s'" "lossless R s" "traffic_ok R s"
  shows "lossless R s' \<and> traffic_ok R s' \<and> circulating s' = circulating s"
proof -
  let ?d = "sn_spawned s ! i"
  let ?q = "sn_inboxes s ! dl_channel ?d @ [(dl_from ?d, dl_msg ?d)]"
  have i: "i < length (sn_spawned s)"
    and s': "s' = s\<lparr>sn_spawned := take i (sn_spawned s) @ drop (Suc i) (sn_spawned s),
      sn_inboxes := (sn_inboxes s)[dl_channel ?d := ?q]\<rparr>"
    using assms(1) by (auto simp: deliver_def Let_def split: if_splits)
  have d: "dl_channel ?d < length (sn_inboxes s)" "names_only R (dl_from ?d, dl_msg ?d)"
    using assms(3) i by (auto simp: traffic_ok_def)
  have "\<forall>fm \<in> set ?q. names_only R fm"
    using assms(3) d nth_mem [OF d(1)] by (auto simp: traffic_ok_def)
  hence "\<forall>p \<in> set ((sn_inboxes s)[dl_channel ?d := ?q]). \<forall>fm \<in> set p. names_only R fm"
    using assms(3) unfolding traffic_ok_def by (intro inbox_update) blast+
  moreover have "sum_list (map length ((sn_inboxes s)[dl_channel ?d := ?q])) = Suc (sum_list (map length (sn_inboxes s)))"
    using sum_list_update [of "dl_channel ?d" "map length (sn_inboxes s)" "length ?q"] d(1)
      elem_le_sum_list [of "dl_channel ?d" "map length (sn_inboxes s)"] by (simp add: map_update)
  ultimately show ?thesis
    using assms(2,3) i
    by (auto simp: s' lossless_def traffic_ok_def circulating_def dest: in_set_takeD in_set_dropD)
qed

lemma names_msg: "table_in R m \<Longrightarrow> n \<in> R \<Longrightarrow>
    names_only R (n, \<lparr>gm_sender = a, gm_hlc = h, gm_schema_version = v, gm_members = member_digests m\<rparr>)"
  using digests_in by (simp add: names_only_def)

lemma tick_run:
  assumes "gossip_tick (engine_of C D show_id n) pick (in_world e s) = (Some (Ok ()), w)"
    and "pick (filter (\<lambda>x. x \<noteq> cm_local_node (ne_membership e)) (member_all_nodes (ne_membership e))) = Some target"
    and "target \<in> set (member_all_nodes (ne_membership e)) - {cm_local_node (ne_membership e)}"
    and "lossless R s" "traffic_ok R s" "table_in R (ne_membership e)" "n \<in> R"
  shows "gw_membership w = ne_membership e \<and> lossless R (gw_net w) \<and> traffic_ok R (gw_net w) \<and>
    circulating (gw_net w) = Suc (circulating s)"
proof -
  let ?m = "ne_membership e"
  have "target \<in> R" using assms(3,6) by (auto simp: table_in_def member_all_nodes_def)
  moreover have "filter (\<lambda>x. x \<noteq> cm_local_node ?m) (member_all_nodes ?m) \<noteq> []"
    using assms(3) by (auto simp: filter_empty_conv)
  hence "act_bind (clock_call (ck_tick C)) (\<lambda>h. send_call (engine_of C D show_id n) target
      \<lparr>gm_sender = cm_local_node ?m, gm_hlc = h, gm_schema_version = cm_schema_version ?m, gm_members = member_digests ?m\<rparr>)
      (in_world e s) = (Some (Ok ()), w)"
    using assms(1,2) by (simp add: gossip_tick_def in_world_def Let_def) (simp add: engine_of_def)
  ultimately show ?thesis
    using answer_run [where w = "in_world e s" and R = R] assms(4-7) names_msg by (simp add: in_world_def)
qed

lemma handle_run:
  assumes "handle_incoming (engine_of C D show_id n) now sender msg (in_world e s) = (Some (Ok ()), w)"
    and "lossless R s" "traffic_ok R s" "table_in R (ne_membership e)" "n \<in> R" "names_only R (sender, msg)"
  shows "table_in R (gw_membership w) \<and> lossless R (gw_net w) \<and> traffic_ok R (gw_net w) \<and>
    circulating (gw_net w) = Suc (circulating s)"
proof -
  let ?m = "merge_message msg (ne_membership e)"
  obtain w1 where w1: "gw_membership w1 = ?m" "gw_net w1 = s"
    "reply_with_local_digest (engine_of C D show_id n) sender w1 = (Some (Ok ()), w)"
    using assms(1)
    by (force simp: handle_incoming_def in_world_def act_bind_Ok_iff clock_call_def split: prod.splits)
  have m: "table_in R ?m" using merge_message_in [OF assms(4,6)] .
  have "sender \<in> R" using assms(6) by (simp add: names_only_def)
  moreover have "act_bind (clock_call (ck_tick C)) (\<lambda>h. send_call (engine_of C D show_id n) sender
      \<lparr>gm_sender = cm_local_node ?m, gm_hlc = h, gm_schema_version = cm_schema_version ?m, gm_members = member_digests ?m\<rparr>)
      w1 = (Some (Ok ()), w)"
    using w1 by (simp add: reply_with_local_digest_def Let_def) (simp add: engine_of_def)
  ultimately show ?thesis
    using answer_run [where w = w1 and R = R] w1(1,2) m assms(2,3,5) names_msg by simp
qed

lemma advance_run:
  "lossless R (advance d s) = lossless R s" "traffic_ok R (advance d s) = traffic_ok R s"
  "circulating (advance d s) = circulating s"
  by (simp_all add: advance_def lossless_def traffic_ok_def circulating_def)

lemma conservation:
  assumes "cluster_run C D show_id R e0 s0 k e s" "lossless R s0" "traffic_ok R s0" "\<forall>n \<in> R. table_in R (ne_membership (e0 n))"
  shows "lossless R s \<and> traffic_ok R s \<and> (\<forall>n \<in> R. table_in R (ne_membership (e n))) \<and>
    circulating s = circulating s0 + k"
  using assms
proof (induction rule: cluster_run.induct)
  case (tick k e s n pick target w)
  from tick_run [OF tick.hyps(5,3,4), of R] tick show ?case by (simp add: of_world_def)
next
  case (evaluate k e s n inst r w)
  have "table_in R (ne_membership (e n))" using evaluate by simp
  hence "table_in R (gw_membership w)" "gw_net w = s"
    using evaluate_in [OF evaluate.hyps(3), of R] by (simp_all add: in_world_def)
  thus ?case using evaluate by (simp add: of_world_def)
next
  case (receive k e s n ch sender msg s' now w)
  from receive have "lossless R s'" "traffic_ok R s'" "names_only R (sender, msg)" "Suc (circulating s') = circulating s"
    using receive_run [OF receive.hyps(4), of R] by simp_all
  with handle_run [OF receive.hyps(5), of R] receive show ?case by (simp add: of_world_def)
next
  case (deliver k e s i s')
  with deliver_run [OF deliver.hyps(2), of R] show ?case by simp
next
  case (advance k e s d)
  thus ?case by (simp add: advance_run)
qed simp

text \<open>
  C34: gossip never comes to rest.  In a cluster whose network loses nothing, where the tables only name nodes of
  the cluster and no clock fails, the number of messages in circulation after any run is the number of ticks so
  far: an engine answers every message it receives, answers to answers included, so that each tick starts an exchange
  that never ends.
\<close>

theorem gossip_never_rests:
  assumes "cluster_run C D show_id R e0 s0 k e s" "lossless R s0" "sn_spawned s0 = []" "\<forall>q \<in> set (sn_inboxes s0). q = []"
    and "\<forall>n \<in> R. table_in R (ne_membership (e0 n))"
  shows "circulating s = k"
proof -
  have "sum_list (map length (sn_inboxes s0)) = 0" using assms(4) by simp
  hence "circulating s0 = 0" using assms(3) by (simp add: circulating_def)
  moreover have "traffic_ok R s0" using assms(3,4) by (auto simp: traffic_ok_def)
  ultimately show ?thesis using conservation [OF assms(1,2) _ assms(5)] by simp
qed

text \<open>Two nodes that know each other; the first ticks, the second answers.\<close>

definition pair_table :: "node_id \<Rightarrow> node_id \<Rightarrow> cluster_membership" where
  "pair_table a b = put_member b \<lparr>mr_info = demo_info Joining b, mr_generation = 0, mr_updated_at = hlc_zero\<rparr>
    (membership_new (demo_info Joining a) hlc_zero)"

definition counting_clock :: "u64 clock" where
  "counting_clock = \<lparr>ck_tick = (\<lambda>c. (Some (Ok (Hlc c)), c + 1)), ck_update = (\<lambda>_ c. (Some (Ok (Hlc c)), c + 1))\<rparr>"

definition pair_engine :: "node_id \<Rightarrow> (u64, detector_state) node_engine" where
  "pair_engine n = \<lparr>ne_membership = (if n = NodeId 1 then pair_table (NodeId 1) (NodeId 2) else pair_table (NodeId 2) (NodeId 1)),
    ne_clock = 0, ne_detector = detector_new\<rparr>"

definition pair_net :: simulated_network where
  "pair_net = snd (register_node (NodeId 2) (snd (register_node (NodeId 1) simulated_network_new)))"

lemma pair_table_laws:
  assumes "a \<noteq> b"
  shows "cm_local_node (pair_table a b) = a" "set (member_all_nodes (pair_table a b)) = {a, b}"
    "table_in {a, b} (pair_table a b)"
proof -
  let ?r = "\<lparr>mr_info = demo_info Joining b, mr_generation = 0, mr_updated_at = hlc_zero\<rparr>"
  let ?m = "membership_new (demo_info Joining a) hlc_zero"
  have m: "map_of (cm_members ?m) b = None" "fst ` set (cm_members ?m) = {a}" "cm_local_node ?m = a"
    using assms by (auto simp: membership_new_def demo_info_def)
  have k: "fst ` set (cm_members (pair_table a b)) = {a, b}"
    using m by (auto simp: pair_table_def put_member_members keys_update)
  have "membership_wf (pair_table a b)"
    unfolding pair_table_def by (rule put_member_wf [OF membership_new_wf]) (simp add: legal_update_def m, simp add: demo_info_def)
  thus "table_in {a, b} (pair_table a b)" using k by (simp add: table_in_def)
  show "set (member_all_nodes (pair_table a b)) = {a, b}" using k by (simp add: member_all_nodes_def)
  show "cm_local_node (pair_table a b) = a" using m by (simp add: pair_table_def)
qed

lemma pair_net_laws:
  "lossless {NodeId 1, NodeId 2} pair_net" "sn_spawned pair_net = []" "sn_inboxes pair_net = [[], []]"
  "map_of (sn_endpoints pair_net) (NodeId 1) = Some 0" "map_of (sn_endpoints pair_net) (NodeId 2) = Some 1"
  by (auto simp: pair_net_def register_node_def simulated_network_new_def lossless_def)

theorem gossip_never_rests_witness:
  "\<exists>e s. cluster_run counting_clock PhiAccrualFailureDetector (\<lambda>_. []) {NodeId 1, NodeId 2} pair_engine pair_net 1 e s \<and>
    circulating s = 1 \<and> ne_clock (e (NodeId 2)) = 2"
proof -
  let ?G = "engine_of counting_clock PhiAccrualFailureDetector (\<lambda>_. [])" and ?R = "{NodeId 1, NodeId 2}"
  let ?run = "cluster_run counting_clock PhiAccrualFailureDetector (\<lambda>_. []) ?R pair_engine pair_net"
  let ?msg = "\<lparr>gm_sender = NodeId 1, gm_hlc = Hlc 0, gm_schema_version = cm_schema_version (pair_table (NodeId 1) (NodeId 2)),
      gm_members = member_digests (pair_table (NodeId 1) (NodeId 2))\<rparr>"
  let ?s1 = "pair_net\<lparr>sn_spawned := [\<lparr>dl_due = 0, dl_channel = 1, dl_from = NodeId 1, dl_msg = ?msg\<rparr>]\<rparr>"
  let ?s2 = "pair_net\<lparr>sn_inboxes := [[], [(NodeId 1, ?msg)]]\<rparr>"
  have table: "ne_membership (pair_engine (NodeId 1)) = pair_table (NodeId 1) (NodeId 2)"
    "ne_membership (pair_engine (NodeId 2)) = pair_table (NodeId 2) (NodeId 1)" by (simp_all add: pair_engine_def)
  have peers: "filter (\<lambda>x. x \<noteq> NodeId 1) (member_all_nodes (pair_table (NodeId 1) (NodeId 2))) \<noteq> []"
    using pair_table_laws(2) [of "NodeId 1" "NodeId 2"] by (auto simp: filter_empty_conv)
  obtain w1 where w1: "gossip_tick (?G (NodeId 1)) (\<lambda>_. Some (NodeId 2)) (in_world (pair_engine (NodeId 1)) pair_net) = (Some (Ok ()), w1)"
    "gw_net w1 = ?s1"
    using peers
    by (auto simp: gossip_tick_def in_world_def table pair_table_laws act_bind_def clock_call_def send_call_def engine_of_def
        SimulatedTransport_def counting_clock_def pair_engine_def sim_send_def count_drop_def Let_def pair_net_laws
        pair_net_def register_node_def simulated_network_new_def)
  let ?e1 = "pair_engine(NodeId 1 := of_world w1)"
  have "?run (Suc 0) ?e1 (gw_net w1)"
    using cluster_run.tick [OF cluster_run.start, of "NodeId 1" ?R "\<lambda>_. Some (NodeId 2)" pair_engine "NodeId 2"] w1(1)
      pair_table_laws(1,2) [of "NodeId 1" "NodeId 2"] by (simp add: table)
  moreover have "deliver 0 ?s1 = Some ?s2" by (simp add: deliver_def pair_net_laws Let_def)
  ultimately have run2: "?run 1 ?e1 ?s2" using cluster_run.deliver [where s = "gw_net w1"] w1(2) by simp
  have recv: "sim_receive (\<lambda>_. []) \<lparr>st_node_id = NodeId 2, st_inbox = 1\<rparr> ?s2 = Some (Ok (NodeId 1, ?msg), pair_net)"
    by (simp add: sim_receive_def pair_net_def register_node_def simulated_network_new_def)
  obtain w2 where w2: "handle_incoming (?G (NodeId 2)) 5 (NodeId 1) ?msg (in_world (pair_engine (NodeId 2)) pair_net) = (Some (Ok ()), w2)"
    "gw_clock w2 = 2"
    by (auto simp: handle_incoming_def reply_with_local_digest_def in_world_def table act_bind_def clock_call_def send_call_def
        engine_of_def SimulatedTransport_def counting_clock_def pair_engine_def sim_send_def count_drop_def Let_def
        pair_net_def register_node_def simulated_network_new_def)
  have run3: "?run 1 (?e1(NodeId 2 := of_world w2)) (gw_net w2)"
    using cluster_run.receive [OF run2 _ _ recv] w2(1) by simp
  moreover have "\<forall>n \<in> ?R. table_in ?R (ne_membership (pair_engine n))"
    using pair_table_laws(3) [of "NodeId 1" "NodeId 2"] pair_table_laws(3) [of "NodeId 2" "NodeId 1"]
    by (simp add: table insert_commute)
  ultimately have "circulating (gw_net w2) = 1"
    using gossip_never_rests [OF run3 pair_net_laws(1,2)] by (simp add: pair_net_laws)
  with run3 w2(2) show ?thesis by (intro exI conjI) (auto simp: of_world_def)
qed

end
