(* ===== verification/Rocks.thy ===== *)
theory Rocks
  imports Storage F64
begin

text \<open>
  \<open>crates/bashfuldb-storage/src/storage/rocksdb.rs\<close>: the storage engine over RocksDB.  The \<open>rocksdb\<close> crate is the record
  \<open>rocks_api\<close>, over the state of a database; a handle of a column family is its name, and a
  RocksDB batch is the list of its operations.
\<close>

section \<open>Options\<close>

record rocks_db_config =
  rc_write_buffer_size :: nat
  rc_max_write_buffer_number :: int
  rc_target_file_size_base :: u64
  rc_max_background_jobs :: int
  rc_bloom_filter_bits_per_key :: f64
  rc_block_cache_size :: nat
  rc_create_if_missing :: bool
  rc_create_missing_column_families :: bool
  rc_wal_sync :: bool

definition rocks_db_config_default :: rocks_db_config where
  "rocks_db_config_default = \<lparr>rc_write_buffer_size = 64 * 1024 * 1024, rc_max_write_buffer_number = 3,
    rc_target_file_size_base = 64 * 1024 * 1024, rc_max_background_jobs = 4, rc_bloom_filter_bits_per_key = Finite 10,
    rc_block_cache_size = 128 * 1024 * 1024, rc_create_if_missing = True,
    rc_create_missing_column_families = True, rc_wal_sync = True\<rparr>"

datatype compression = Lz4 | Zstd

record rocks_options =
  ro_create_if_missing :: bool
  ro_create_missing_column_families :: bool
  ro_write_buffer_size :: nat
  ro_max_write_buffer_number :: int
  ro_target_file_size_base :: u64
  ro_max_background_jobs :: int
  ro_compression_per_level :: "compression list"
  ro_manual_wal_flush :: bool

definition base_options :: "rocks_db_config \<Rightarrow> rocks_options" where
  "base_options config = \<lparr>ro_create_if_missing = rc_create_if_missing config,
    ro_create_missing_column_families = rc_create_missing_column_families config,
    ro_write_buffer_size = rc_write_buffer_size config, ro_max_write_buffer_number = rc_max_write_buffer_number config,
    ro_target_file_size_base = rc_target_file_size_base config, ro_max_background_jobs = rc_max_background_jobs config,
    ro_compression_per_level = [Lz4, Lz4, Zstd, Zstd, Zstd, Zstd, Zstd], ro_manual_wal_flush = False\<rparr>"

text \<open>What a column family is opened with: the options, the shared block cache and the Bloom filter.\<close>

record cf_descriptor =
  cd_name :: string
  cd_options :: rocks_options
  cd_block_cache :: nat
  cd_bloom_filter_bits :: f64

section \<open>The crate\<close>

record 'd rocks_api =
  r_open :: "rocks_options \<Rightarrow> string \<Rightarrow> cf_descriptor list \<Rightarrow> (string, 'd) result"
  r_has_handle :: "string \<Rightarrow> 'd \<Rightarrow> bool"
  r_put_cf :: "bool \<Rightarrow> string \<Rightarrow> bytes \<Rightarrow> bytes \<Rightarrow> 'd \<Rightarrow> (string, unit) result \<times> 'd"
  r_get_cf :: "string \<Rightarrow> bytes \<Rightarrow> 'd \<Rightarrow> (string, bytes option) result"
  r_delete_cf :: "bool \<Rightarrow> string \<Rightarrow> bytes \<Rightarrow> 'd \<Rightarrow> (string, unit) result \<times> 'd"
  r_write :: "bool \<Rightarrow> batch_op list \<Rightarrow> 'd \<Rightarrow> (string, unit) result \<times> 'd"
  r_iterator :: "string \<Rightarrow> bytes option \<Rightarrow> bytes option \<Rightarrow> 'd \<Rightarrow> (string, scan_item) result list"
  r_flush_cf :: "string \<Rightarrow> 'd \<Rightarrow> (string, unit) result \<times> 'd"
  r_checkpoint_new :: "'d \<Rightarrow> (string, unit) result"
  r_create_checkpoint :: "string \<Rightarrow> 'd \<Rightarrow> (string, unit) result \<times> 'd"

section \<open>The engine\<close>

record 'd rocks_engine =
  re_db :: 'd
  re_sync :: bool

type_synonym ('d, 'a) rocks_act = "('d rocks_engine, storage_error, 'a) act"

text \<open>\<open>.map_err(engine_err)\<close> of a call that reads the database, and of one that changes it.\<close>

definition rocks_read :: "('d \<Rightarrow> (string, 'a) result) \<Rightarrow> ('d, 'a) rocks_act" where
  "rocks_read f = (\<lambda>e. (Some (map_sum Engine id (f (re_db e))), e))"

definition rocks_call :: "('d \<Rightarrow> (string, 'a) result \<times> 'd) \<Rightarrow> ('d, 'a) rocks_act" where
  "rocks_call f = (\<lambda>e. case f (re_db e) of (r, d) \<Rightarrow> (Some (map_sum Engine id r), e\<lparr>re_db := d\<rparr>))"

definition rocks_open :: "'d rocks_api \<Rightarrow> string \<Rightarrow> rocks_db_config \<Rightarrow> (storage_error, 'd rocks_engine) result" where
  "rocks_open A path config =
    (let cache = rc_block_cache_size config;
         descriptors = map (\<lambda>name. \<lparr>cd_name = name, cd_options = base_options config, cd_block_cache = cache,
           cd_bloom_filter_bits = rc_bloom_filter_bits_per_key config\<rparr>) cf_all
     in case r_open A (base_options config) path descriptors of
          Err e \<Rightarrow> Err (Engine e)
        | Ok db \<Rightarrow> Ok \<lparr>re_db = db, re_sync = rc_wal_sync config\<rparr>)"

definition rocks_validate_cf_name :: "string \<Rightarrow> (storage_error, unit) result" where
  "rocks_validate_cf_name cf = (if cf \<in> set cf_all then Ok () else Err (UnknownColumnFamily cf))"

definition cf_handle :: "'d rocks_api \<Rightarrow> string \<Rightarrow> ('d, string) rocks_act" where
  "cf_handle A cf =
    act_bind (act_of_result (rocks_validate_cf_name cf)) (\<lambda>_ e.
    if r_has_handle A cf (re_db e) then (Some (Ok cf), e) else (Some (Err (UnknownColumnFamily cf)), e))"

definition rocks_scan :: "'d rocks_api \<Rightarrow> string \<Rightarrow> bytes \<Rightarrow> bytes \<Rightarrow> ('d, scan_iter) rocks_act" where
  "rocks_scan A cf start end =
    act_bind (cf_handle A cf) (\<lambda>h e.
    let upper = (if end = [] then None else Some end); mode = (if start = [] then None else Some start)
    in (Some (Ok (map (map_sum Engine id) (r_iterator A h upper mode (re_db e)))), e))"

definition rocks_put :: "'d rocks_api \<Rightarrow> string \<Rightarrow> bytes \<Rightarrow> bytes \<Rightarrow> ('d, unit) rocks_act" where
  "rocks_put A cf key v =
    act_bind (cf_handle A cf) (\<lambda>h e. rocks_call (r_put_cf A (re_sync e) h key v) e)"

definition rocks_get :: "'d rocks_api \<Rightarrow> string \<Rightarrow> bytes \<Rightarrow> ('d, bytes option) rocks_act" where
  "rocks_get A cf key = act_bind (cf_handle A cf) (\<lambda>h. rocks_read (r_get_cf A h key))"

definition rocks_delete :: "'d rocks_api \<Rightarrow> string \<Rightarrow> bytes \<Rightarrow> ('d, unit) rocks_act" where
  "rocks_delete A cf key =
    act_bind (cf_handle A cf) (\<lambda>h e. rocks_call (r_delete_cf A (re_sync e) h key) e)"

primrec rocks_validate_ops :: "batch_op list \<Rightarrow> (storage_error, unit) result" where
  "rocks_validate_ops [] = Ok ()"
| "rocks_validate_ops (op # ops) =
    (case rocks_validate_cf_name (op_cf op) of Err e \<Rightarrow> Err e | Ok _ \<Rightarrow> rocks_validate_ops ops)"

primrec rocks_batch :: "'d rocks_api \<Rightarrow> batch_op list \<Rightarrow> batch_op list \<Rightarrow> ('d, batch_op list) rocks_act" where
  "rocks_batch A [] acc = act_ok acc"
| "rocks_batch A (op # ops) acc = act_bind (cf_handle A (op_cf op)) (\<lambda>_. rocks_batch A ops (acc @ [op]))"

definition rocks_write_batch :: "'d rocks_api \<Rightarrow> write_batch \<Rightarrow> ('d, unit) rocks_act" where
  "rocks_write_batch A batch =
    act_bind (act_of_result (rocks_validate_ops (batch_ops batch))) (\<lambda>_.
    act_bind (rocks_batch A (batch_ops batch) []) (\<lambda>b e.
    rocks_call (r_write A (re_sync e) b) e))"

text \<open>\<open>collect\<close> into a \<open>Result\<close> of a map: the first error wins, later entries replace earlier ones.\<close>

primrec collect_cf :: "(string, scan_item) result list \<Rightarrow> kv_map \<Rightarrow> (storage_error, kv_map) result" where
  "collect_cf [] m = Ok m"
| "collect_cf (item # items) m =
    (case item of Err e \<Rightarrow> Err (Engine e) | Ok kv \<Rightarrow> collect_cf items (bt_insert (fst kv) (snd kv) m))"

primrec from_snapshot :: "'d rocks_api \<Rightarrow> string list \<Rightarrow> cf_map \<Rightarrow> 'd \<Rightarrow> (storage_error, cf_map) result" where
  "from_snapshot A [] data db = Ok data"
| "from_snapshot A (cf # cfs) data db =
    (if r_has_handle A cf db
     then case collect_cf (r_iterator A cf None None db) [] of
         Err e \<Rightarrow> Err e
       | Ok m \<Rightarrow> from_snapshot A cfs (data(cf \<mapsto> m)) db
     else Err (UnknownColumnFamily cf))"

definition rocks_snapshot_get :: "cf_map \<Rightarrow> string \<Rightarrow> bytes \<Rightarrow> (storage_error, bytes option) result" where
  "rocks_snapshot_get data cf key =
    (case rocks_validate_cf_name cf of
       Err e \<Rightarrow> Err e
     | Ok _ \<Rightarrow> Ok (case data cf of None \<Rightarrow> None | Some m \<Rightarrow> bt_get m key))"

definition rocks_snapshot_scan :: "cf_map \<Rightarrow> string \<Rightarrow> bytes \<Rightarrow> bytes \<Rightarrow> (storage_error, scan_iter) result option" where
  "rocks_snapshot_scan data cf start end =
    (case rocks_validate_cf_name cf of
       Err e \<Rightarrow> Some (Err e)
     | Ok _ \<Rightarrow>
         (case data cf of
            None \<Rightarrow> Some (Err (UnknownColumnFamily cf))
          | Some m \<Rightarrow> map_option (\<lambda>rows. Ok (map Ok rows)) (bt_range (range_bounds start end) m)))"

definition rocks_snapshot :: "'d rocks_api \<Rightarrow> ('d, snapshot) rocks_act" where
  "rocks_snapshot A = (\<lambda>e.
    case from_snapshot A cf_all Map.empty (re_db e) of
      Err err \<Rightarrow> (Some (Err err), e)
    | Ok data \<Rightarrow> (Some (Ok \<lparr>s_get = rocks_snapshot_get data, s_scan = rocks_snapshot_scan data\<rparr>), e))"

definition rocks_flush :: "'d rocks_api \<Rightarrow> ('d, unit) rocks_act" where
  "rocks_flush A = act_for cf_all (\<lambda>cf. act_bind (cf_handle A cf) (\<lambda>h. rocks_call (r_flush_cf A h)))"

definition rocks_checkpoint :: "'d rocks_api \<Rightarrow> string \<Rightarrow> ('d, unit) rocks_act" where
  "rocks_checkpoint A path =
    act_bind (rocks_read (r_checkpoint_new A)) (\<lambda>_ e.
    case r_create_checkpoint A path (re_db e) of
      (r, d) \<Rightarrow> (Some (map_sum CheckpointFailed id r), e\<lparr>re_db := d\<rparr>))"

definition rocks_has_column_family :: "string \<Rightarrow> bool" where
  "rocks_has_column_family cf \<longleftrightarrow> cf \<in> set cf_all"

definition RocksDbEngine :: "'d rocks_api \<Rightarrow> 'd rocks_engine engine" where
  "RocksDbEngine A = \<lparr>e_put = rocks_put A, e_get = rocks_get A, e_delete = rocks_delete A, e_scan = rocks_scan A,
    e_write_batch = rocks_write_batch A, e_snapshot = rocks_snapshot A, e_has_cf = rocks_has_column_family\<rparr>"

section \<open>The contract\<close>

text \<open>
  What RocksDB documents for a database opened with the column families of \<open>cf_all\<close> while its files can be read and written:
  reads see the last write, a write batch is applied as a whole and in order, and an iterator shows the keys from its
  start to its upper bound in ascending order.
\<close>

definition rocks_laws :: "'d rocks_api \<Rightarrow> ('d \<Rightarrow> bool) \<Rightarrow> ('d \<Rightarrow> string \<Rightarrow> kv_map) \<Rightarrow> bool" where
  "rocks_laws A ok view \<longleftrightarrow> (\<forall>d. ok d \<longrightarrow>
    (\<forall>cf. bt_sorted (view d cf)) \<and>
    (\<forall>cf \<in> set cf_all. r_has_handle A cf d \<and>
      (\<forall>sync k v. \<exists>d'. r_put_cf A sync cf k v d = (Ok (), d') \<and> ok d' \<and> view d' = (view d)(cf := bt_insert k v (view d cf))) \<and>
      (\<forall>k. r_get_cf A cf k d = Ok (bt_get (view d cf) k)) \<and>
      (\<forall>sync k. \<exists>d'. r_delete_cf A sync cf k d = (Ok (), d') \<and> ok d' \<and> view d' = (view d)(cf := bt_remove k (view d cf))) \<and>
      (\<forall>upper start. r_iterator A cf upper start d =
        map Ok (filter (\<lambda>(k, _). (\<forall>a. start = Some a \<longrightarrow> a \<le> k) \<and> (\<forall>b. upper = Some b \<longrightarrow> k < b)) (view d cf)))) \<and>
    (\<forall>sync ops. op_cf ` set ops \<subseteq> set cf_all \<longrightarrow>
      (\<exists>d'. r_write A sync ops d = (Ok (), d') \<and> ok d' \<and> view d' = fold apply_view ops (view d))))"

lemma cf_handle_run:
  assumes "rocks_laws A ok view" "ok (re_db e)"
  shows "cf_handle A cf e = (if cf \<in> set cf_all then (Some (Ok cf), e) else (Some (Err (UnknownColumnFamily cf)), e))"
  using assms by (auto simp: cf_handle_def rocks_validate_cf_name_def rocks_laws_def act_simps)

lemma rocks_batch_run:
  assumes "rocks_laws A ok view" "ok (re_db e)"
  shows "op_cf ` set ops \<subseteq> set cf_all \<Longrightarrow> rocks_batch A ops acc e = (Some (Ok (acc @ ops)), e)"
  by (induction ops arbitrary: acc) (simp_all add: act_run act_bind_run cf_handle_run [OF assms])

lemma rocks_validate_ops_eq:
  "rocks_validate_ops ops = (case find (\<lambda>b. op_cf b \<notin> set cf_all) ops of
      None \<Rightarrow> Ok () | Some b \<Rightarrow> Err (UnknownColumnFamily (op_cf b)))"
  by (induction ops) (auto simp: rocks_validate_cf_name_def)

lemma collect_cf_Ok: "collect_cf (map Ok kvs) m = Ok (fold (\<lambda>(k, v). bt_insert k v) kvs m)"
  by (induction kvs arbitrary: m) (auto simp: case_prod_unfold)

lemma collect_iterator:
  assumes "rocks_laws A ok view" "ok d" "cf \<in> set cf_all"
  shows "collect_cf (r_iterator A cf None None d) [] = Ok (view d cf)"
proof -
  have "r_iterator A cf None None d = map Ok (view d cf)" "bt_sorted (view d cf)"
    using assms by (auto simp: rocks_laws_def)
  thus ?thesis using bt_collect_sorted [of "view d cf"] by (simp add: collect_cf_Ok bt_collect_def)
qed

lemma from_snapshot_run:
  assumes "rocks_laws A ok view" "ok d"
  shows "set cfs \<subseteq> set cf_all \<Longrightarrow> \<exists>data'. from_snapshot A cfs data d = Ok data' \<and>
    (\<forall>cf. data' cf = (if cf \<in> set cfs then Some (view d cf) else data cf))"
proof (induction cfs arbitrary: data)
  case (Cons c cfs)
  have c: "r_has_handle A c d" "collect_cf (r_iterator A c None None d) [] = Ok (view d c)"
    using assms Cons.prems collect_iterator [OF assms] by (auto simp: rocks_laws_def)
  define u where "u = data(c \<mapsto> view d c)"
  obtain data' where data': "from_snapshot A cfs u d = Ok data'"
    "\<forall>cf. data' cf = (if cf \<in> set cfs then Some (view d cf) else u cf)"
    using Cons.IH [of u] Cons.prems by auto
  have "from_snapshot A (c # cfs) data d = Ok data'" using c data'(1) by (simp add: u_def)
  moreover have "\<forall>cf. data' cf = (if cf \<in> set (c # cfs) then Some (view d cf) else data cf)"
    using data'(2) by (simp add: u_def)
  ultimately show ?case by blast
qed simp

text \<open>
  The RocksDB engine keeps the contract of a storage engine: over a database that behaves as RocksDB documents,
  everything proved from the contract holds.
\<close>

lemma rocks_storage_engine:
  assumes "rocks_laws A ok view"
  shows "storage_engine (RocksDbEngine A) (\<lambda>e. ok (re_db e)) (\<lambda>e. view (re_db e))"
proof
  fix e :: "'a rocks_engine" and cf :: string and k v start "end" :: bytes and b :: write_batch
  note handle = cf_handle_run [OF assms]
  note laws = assms [unfolded rocks_laws_def, rule_format]
  show "bt_sorted (view (re_db e) cf)" if "ok (re_db e)" using laws [OF that] by blast
  show "\<exists>t. e_put (RocksDbEngine A) cf k v e = (Some (Ok ()), t) \<and> ok (re_db t) \<and>
      view (re_db t) = (view (re_db e))(cf := bt_insert k v (view (re_db e) cf))" if e: "ok (re_db e)" and c: "cf \<in> set cf_all"
  proof -
    obtain d where "r_put_cf A (re_sync e) cf k v (re_db e) = (Ok (), d)" "ok d"
      "view d = (view (re_db e))(cf := bt_insert k v (view (re_db e) cf))" using laws [OF e] c by blast
    thus ?thesis using e c handle by (simp add: RocksDbEngine_def rocks_put_def act_bind_run rocks_call_def)
  qed
  show "e_get (RocksDbEngine A) cf k e = (Some (Ok (bt_get (view (re_db e) cf) k)), e)" if "ok (re_db e)" "cf \<in> set cf_all"
    using that handle laws [OF that(1)] by (simp add: RocksDbEngine_def rocks_get_def act_bind_run rocks_read_def)
  show "\<exists>t. e_delete (RocksDbEngine A) cf k e = (Some (Ok ()), t) \<and> ok (re_db t) \<and>
      view (re_db t) = (view (re_db e))(cf := bt_remove k (view (re_db e) cf))" if e: "ok (re_db e)" and c: "cf \<in> set cf_all"
  proof -
    obtain d where "r_delete_cf A (re_sync e) cf k (re_db e) = (Ok (), d)" "ok d"
      "view d = (view (re_db e))(cf := bt_remove k (view (re_db e) cf))" using laws [OF e] c by blast
    thus ?thesis using e c handle by (simp add: RocksDbEngine_def rocks_delete_def act_bind_run rocks_call_def)
  qed
  show "e_scan (RocksDbEngine A) cf start end e = (Some (Ok (map Ok (scan_range start end (view (re_db e) cf)))), e)"
    if "ok (re_db e)" "cf \<in> set cf_all"
    using that handle laws [OF that(1)]
    by (auto simp: RocksDbEngine_def rocks_scan_def act_bind_run scan_range_def comp_def intro!: filter_cong)
  show "\<exists>t. e_write_batch (RocksDbEngine A) b e = (Some (Ok ()), t) \<and> ok (re_db t) \<and>
      view (re_db t) = fold apply_view (batch_ops b) (view (re_db e))"
    if e: "ok (re_db e)" and c: "op_cf ` set (batch_ops b) \<subseteq> set cf_all"
  proof -
    have "find (\<lambda>b. op_cf b \<notin> set cf_all) (batch_ops b) = None" using c by (auto simp: find_None_iff)
    moreover obtain d where "r_write A (re_sync e) (batch_ops b) (re_db e) = (Ok (), d)" "ok d"
      "view d = fold apply_view (batch_ops b) (view (re_db e))" using laws [OF e] c by blast
    ultimately show ?thesis
      using rocks_batch_run [OF assms e c, of "[]"]
      by (simp add: RocksDbEngine_def rocks_write_batch_def rocks_validate_ops_eq act_simps rocks_call_def)
  qed
  show "\<exists>cf. e_write_batch (RocksDbEngine A) b e = (Some (Err (UnknownColumnFamily cf)), e)"
    if "\<not> op_cf ` set (batch_ops b) \<subseteq> set cf_all"
  proof -
    have "find (\<lambda>b. op_cf b \<notin> set cf_all) (batch_ops b) \<noteq> None" using that by (auto simp: find_None_iff)
    thus ?thesis by (auto simp: RocksDbEngine_def rocks_write_batch_def rocks_validate_ops_eq act_simps)
  qed
  show "e_get (RocksDbEngine A) cf k e = (Some (Err (UnknownColumnFamily cf)), e)" if "cf \<notin> set cf_all"
    using that by (simp add: RocksDbEngine_def rocks_get_def cf_handle_def rocks_validate_cf_name_def act_simps)
  show "\<exists>sn. e_snapshot (RocksDbEngine A) e = (Some (Ok sn), e) \<and>
      (\<forall>cf k. cf \<in> set cf_all \<longrightarrow> s_get sn cf k = Ok (bt_get (view (re_db e) cf) k))" if "ok (re_db e)"
    using from_snapshot_run [OF assms that order_refl, of Map.empty]
    by (auto simp: RocksDbEngine_def rocks_snapshot_def rocks_snapshot_get_def rocks_validate_cf_name_def)
  show "e_has_cf (RocksDbEngine A) cf \<longleftrightarrow> cf \<in> set cf_all"
    by (simp add: RocksDbEngine_def rocks_has_column_family_def)
qed

text \<open>A database that is its contents.\<close>

definition table_api :: "(string \<Rightarrow> kv_map) rocks_api" where
  "table_api = \<lparr>r_open = (\<lambda>_ _ _. Ok (\<lambda>_. [])), r_has_handle = (\<lambda>_ _. True),
    r_put_cf = (\<lambda>_ cf k v d. (Ok (), apply_view (Put cf k v) d)), r_get_cf = (\<lambda>cf k d. Ok (bt_get (d cf) k)),
    r_delete_cf = (\<lambda>_ cf k d. (Ok (), apply_view (Delete cf k) d)), r_write = (\<lambda>_ ops d. (Ok (), fold apply_view ops d)),
    r_iterator = (\<lambda>cf upper start d. map Ok (filter (\<lambda>(k, _). (case start of None \<Rightarrow> True | Some a \<Rightarrow> a \<le> k) \<and>
      (case upper of None \<Rightarrow> True | Some b \<Rightarrow> k < b)) (d cf))),
    r_flush_cf = (\<lambda>_ d. (Ok (), d)), r_checkpoint_new = (\<lambda>_. Ok ()), r_create_checkpoint = (\<lambda>_ d. (Ok (), d))\<rparr>"

lemma apply_views_sorted: "\<forall>cf. bt_sorted (d cf) \<Longrightarrow> \<forall>cf. bt_sorted (fold apply_view ops d cf)"
proof (induction ops arbitrary: d)
  case (Cons op ops)
  have "\<forall>cf. bt_sorted (apply_view op d cf)"
    using Cons.prems by (cases op) (simp_all add: bt_sorted_insert bt_sorted_remove)
  thus ?case using Cons.IH by simp
qed simp

lemma table_api_laws: "rocks_laws table_api (\<lambda>d. \<forall>cf. bt_sorted (d cf)) (\<lambda>d. d)"
  unfolding rocks_laws_def
proof (intro allI impI conjI ballI)
  fix d :: "string \<Rightarrow> kv_map" and cf :: string and upper start :: "bytes option" and sync :: bool and ops :: "batch_op list"
  assume d: "\<forall>cf. bt_sorted (d cf)"
  show "r_iterator table_api cf upper start d =
      map Ok (filter (\<lambda>(k, _). (\<forall>a. start = Some a \<longrightarrow> a \<le> k) \<and> (\<forall>b. upper = Some b \<longrightarrow> k < b)) (d cf))"
    by (cases start; cases upper) (simp_all add: table_api_def)
  show "\<exists>d'. r_write table_api sync ops d = (Ok (), d') \<and> (\<forall>cf. bt_sorted (d' cf)) \<and> d' = fold apply_view ops d"
    using apply_views_sorted [OF d] by (simp add: table_api_def)
qed (auto simp: table_api_def bt_sorted_insert bt_sorted_remove)

end
