(* ===== verification/Spec2Isabelle.thy ===== *)
theory Spec2Isabelle
  imports Clocks Vector_Clock Codec Conformance Membership Quorum Handoff Connections Tls_Setup Schema_Log Http Ops Slo Traffic Epidemic Rocks
begin

text \<open>
  A verification library for BashfulDB, a distributed document database written in Rust under \<open>src/crates\<close>.

  \<^bold>\<open>The program.\<close>  Clients reach a node over HTTP (\<open>bashfuldb-api\<close>) or over a RESP-like wire protocol (\<open>bashfuldb-protocol\<close>);
  both authenticate them and check their rights with \<open>bashfuldb-auth\<close>.  A request on an object goes to the quorum coordinator of
  \<open>bashfuldb-replication\<close>, which asks the owners of the key on the hash ring of \<open>bashfuldb-cluster\<close> and writes documents
  (\<open>bashfuldb-document\<close>) stamped with hybrid logical and vector clocks (\<open>bashfuldb-clock\<close>) into the replicas' storage engines
  (\<open>bashfuldb-storage\<close>).  Membership spreads by gossip; \<open>bashfuldb-schema\<close> keeps the log of secondary indexes;
  \<open>bashfuldb-ops\<close> has health, metrics, snapshots, service levels and traffic priorities.

  \<^bold>\<open>Conventions.\<close>  A struct is a record, an enum a datatype, \<open>u8\<close> to \<open>u128\<close> are words, \<open>usize\<close> is a natural number except where
  the code computes at its width, a \<open>BTreeMap\<close> is a sorted association list, a \<open>HashMap\<close> a map or, where the code iterates
  over it, an association list whose order is left open.  Stateful and fallible code is an \<open>act\<close> (theory \<open>Prelude\<close>): from a
  state to an outcome and a state, where the outcome is \<open>None\<close> for a panic, and \<open>Err\<close> or \<open>Ok\<close> for the
  \<open>Result\<close> of the source; a panic under a mutex poisons it.  Packages that are not part of the repository (\<open>uuid\<close>,
  \<open>serde_json\<close>, base64, Argon2, SHA-256, \<open>jsonwebtoken\<close>, \<open>rocksdb\<close>, \<open>prometheus\<close>, axum's extractors) are records of functions
  given to the definitions that call them, with what the code relies on as named laws (\<open>..._law\<close>, \<open>..._laws\<close>) that the witnesses
  discharge for concrete functions.  System times, random draws, and the order in which the runtime completes tasks are
  arguments.  File and socket operations may fail with the next entry of a list of faults.

  \<^bold>\<open>Foundations.\<close>
  \<^item> \<open>Prelude\<close>, \<open>Text\<close>: words, bytes, UTF-8, \<open>Result\<close>, the \<open>act\<close> combinators with their rules (\<open>act_simps\<close>, \<open>act_keeps\<close>,
    \<open>act_moves\<close>), ordered maps, decimal text.
  \<^item> \<open>F64\<close>: IEEE-754 doubles as the rationals they denote with executable rounding to nearest, ties to even; monotonicity and
    error bounds of rounding.

  \<^bold>\<open>Clocks and documents.\<close>
  \<^item> \<open>Hlc\<close>, \<open>Clocks\<close> (\<open>clock/src/node_id.rs, hlc.rs, error.rs, traits.rs\<close>): packing and bytes of clock values; \<open>WallClock\<close> and
    \<open>ManualClock\<close> as interpretations of the locale \<open>monotone_clock\<close>, whatever the system time does.
  \<^item> \<open>Vector_Clock\<close> (\<open>clock/src/vector_clock.rs\<close>): comparison decides the causal order (locale \<open>causal_versions\<close>), merge is the join.
  \<^item> \<open>Doc_Value\<close>, \<open>Codec\<close> (\<open>document/src\<close>): values, JSON forms, names; the binary codec round-trips, and decoding arbitrary
    bytes yields only values within the limits.

  \<^bold>\<open>Storage.\<close>
  \<^item> \<open>Storage\<close> (\<open>storage/src/types.rs, traits.rs, storage/mem.rs\<close>): the trait \<open>StorageEngine\<close> is the record \<open>engine\<close>, its contract the
    locale \<open>storage_engine\<close>, interpreted on \<open>MemEngine\<close>; \<open>Conformance\<close> (\<open>conformance.rs\<close>): every engine that meets the contract
    passes the repository's own suite.
  \<^item> \<open>Rocks\<close> (\<open>storage/rocksdb.rs\<close>): the RocksDB engine meets the same contract over a database with the documented behaviour;
    what this gives for conformance and for snapshots is at the end of this theory.

  \<^bold>\<open>Cluster.\<close>
  \<^item> \<open>Ring\<close> (\<open>cluster/src/ring.rs\<close>): \<open>owners_for_key\<close> equals the first distinct nodes of the clockwise walk; removal and
    addition move only the keys they must.
  \<^item> \<open>Membership\<close> (\<open>node_state.rs, membership.rs, types.rs\<close>): the step relation \<open>member_step\<close>, its invariant, the lifecycle.
  \<^item> \<open>Failure_Detector\<close> (\<open>failure_detector.rs\<close>), \<open>Gossip\<close> (\<open>gossip.rs, simulated_transport.rs\<close>), \<open>Epidemic\<close>: the phi detector in floating
    point, the engine over any clock, detector and transport, the simulated network with its delays and losses; safety of the
    event loop, the fall of silent nodes, and the conservation of messages in runs of a whole cluster (\<open>cluster_run\<close>).

  \<^bold>\<open>Replication.\<close>
  \<^item> \<open>Replica\<close>, \<open>Network\<close>, \<open>Coordinator\<close> (\<open>replication/src\<close>): replica stores with hinted handoff, the simulated network (locales
    \<open>replica_transport\<close>, what an answered or failed request leaves of replicas and hints, and \<open>reachable_transport\<close>), quorum reads and writes with sloppy quorum, read repair, conflict
    resolution and idempotency.
  \<^item> \<open>Quorum\<close>, \<open>Handoff\<close>: read-your-writes under \<open>R + W > N\<close>, the exact accounting of acknowledgements and hints, idempotent repetition, read repair, the
    path of a hint to its owner; and the writes that are lost.

  \<^bold>\<open>Access.\<close>
  \<^item> \<open>Rbac\<close>, \<open>Auth\<close>, \<open>Directory\<close>, \<open>Tokens\<close> (\<open>auth/src\<close>): roles, users, logins and token pairs over any engine and any clock (locale
    \<open>ticking_clock\<close>); unique users, working logins, tokens that stay dead once dead.
  \<^item> \<open>Resp\<close>, \<open>Wire\<close>, \<open>Server\<close>, \<open>Connections\<close> (\<open>protocol/src\<close>): parser and serialiser over arbitrarily cut reads, the life of a
    connection, the accept loop; no command before authentication, every connection ends, the connection limit.
    \<open>Tls_Setup\<close> (\<open>tls.rs\<close>): a server asked for TLS never starts without it.
  \<^item> \<open>Api\<close>, \<open>Http\<close> (\<open>api/src\<close>): handlers, routes, middleware, paging, the idempotency cache; access control of the object routes,
    replayed creations, complete paging, and the entity tags that do not tell versions apart.

  \<^bold>\<open>Schema and operations.\<close>
  \<^item> \<open>Schema\<close>, \<open>Schema_Index\<close>, \<open>Schema_Log\<close> (\<open>schema/src/lib.rs\<close>): index rows; calls and background tasks in any order (\<open>schema_exec\<close>);
    the state in memory is the replay of the log but for the definitions that swaps removed, and followers converge
    to that replay; quotas.  A failing write of a log line leaves any proper prefix of it.
  \<^item> \<open>Backup\<close>, \<open>Restore\<close>, \<open>Ops\<close>, \<open>Slo\<close>, \<open>Traffic\<close> (\<open>ops/src/lib.rs\<close>): snapshots and restores over any engine, with the verdict a restore
    returns (\<open>restore_verdict\<close>), health and metrics endpoints,
    percentiles and error budgets in floating point, and the interleavings of clients and background work,
    with the limit on background work that serial runs keep and others do not.

  \<^bold>\<open>Bounds and termination.\<close>  Recursion is structural or has a termination proof; the decoder's depth is bounded by
  \<open>MAX_NESTING_DEPTH\<close> and the parser's by its nesting limit, as in the sources.  The command loop of a connection is a
  \<open>partial_function\<close>, shown to return on every finite stream.  The only fuel is that of the client who follows cursors
  (\<open>page_through\<close>), where one more than the number of identifiers is shown to be enough.  The floating-point
  results assume windows below \<open>2 ^ 40\<close> and \<open>2 ^ 53\<close> samples and heartbeat intervals below \<open>2 ^ 46\<close> seconds, far above any that occur.

  \<^bold>\<open>Not modelled.\<close>  The TLS handshake and the listeners of the HTTP servers only call libraries and sockets.  Log
  lines, derived \<open>Debug\<close> output, zeroising of secrets and \<open>VectorClock::fingerprint\<close> (the standard library's hasher) change no state.  The timers
  that drive hint delivery and snapshots are the sequences of ticks given to the modelled steps; the task handles and
  shutdown signals around them carry no data.  The crate roots re-export, \<open>src/main.rs\<close> prints one line and the client
  driver is empty.  Tests, mocks and fuzz targets are not part of the program.
\<close>

section \<open>Properties across components\<close>

text \<open>
  C12: RocksDB passes the conformance suite.  When \<open>RocksDbEngine::open\<close> succeeds and the database behaves as
  RocksDB documents, the whole suite runs on the opened engine without an error or a panic, provided no
  foreign key is in the range the ordering test scans.
\<close>

theorem rocks_engine_conforms:
  assumes "rocks_laws A ok view" "rocks_open A path config = Ok e"
    and "\<And>opts cfs d. r_open A opts path cfs = Ok d \<Longrightarrow> ok d"
    and "scan_area_free (view (re_db e) CF_INDEXES)"
  shows "\<exists>e'. conformance_tests dbg (RocksDbEngine A) e = (Some (Ok ()), e') \<and> ok (re_db e') \<and>
    re_sync e = rc_wal_sync config"
proof -
  have e: "ok (re_db e)" "re_sync e = rc_wal_sync config"
    using assms(2,3) by (auto simp: rocks_open_def Let_def split: sum.splits)
  show ?thesis
    using storage_engine.conformance_passes [OF rocks_storage_engine [OF assms(1)], of e dbg] e assms(4) by blast
qed

theorem rocks_engine_conforms_witness:
  "\<exists>e e'. rocks_open table_api [] rocks_db_config_default = Ok e \<and>
    conformance_tests (\<lambda>s. s) (RocksDbEngine table_api) e = (Some (Ok ()), e') \<and> re_sync e"
proof -
  obtain e where e: "rocks_open table_api [] rocks_db_config_default = Ok e" "re_db e = (\<lambda>_. [])"
    by (simp add: rocks_open_def table_api_def)
  have "\<exists>e'. conformance_tests (\<lambda>s. s) (RocksDbEngine table_api) e = (Some (Ok ()), e') \<and>
      (\<forall>cf. bt_sorted (re_db e' cf)) \<and> re_sync e = rc_wal_sync rocks_db_config_default"
    by (rule rocks_engine_conforms [OF table_api_laws e(1)])
      (simp_all add: table_api_def e(2) scan_area_free_def fun_eq_iff)
  thus ?thesis using e(1) by (auto simp: rocks_db_config_default_def)
qed

text \<open>
  C13: a snapshot moves between engines.  A snapshot taken from a \<open>MemEngine\<close>, under the conditions of the round trip, can be
  restored by another manager over RocksDB on the same directory, when the database behaves as RocksDB documents and no
  file system call fails: afterwards the RocksDB database shows exactly the column families of the original.
  The restore answers with the number of rows and all four validations passed when at least \<open>quorum_nodes\<close> nodes can
  serve writes, and with \<open>ValidationFailed\<close> when fewer can.
\<close>

theorem snapshot_moves_to_rocks:
  assumes "base64_std_law X" "snapshot_serde_law X" "quiet w" "mem_inv (bw_storage w)"
    and "bm_engine M = MemEngine" "bm_flush M = mem_flush" "bm_checkpoint M = mem_checkpoint"
    and "saturating_sub now3 (bc_retention_secs (bm_config M)) \<le> now1"
    and "dump_from_engine X M w = (Some (Ok dump), w)" "ser_dump X dump = Ok bs"
    and "ser_manifest X \<lparr>sm_created_at = now2, sm_checksums = encode_dump dump\<rparr> = Ok ms"
    and "rocks_laws A ok view" "bm_engine R = RocksDbEngine A" "ok (re_db e)"
  shows "\<exists>name w' e'. create_snapshot X M now1 now2 now3 w = (Some (Ok name), w') \<and>
    restore_snapshot X R name \<lparr>bw_storage = e, bw_dirs = bw_dirs w', bw_faults = []\<rparr> =
      (Some (restore_verdict R (sum_list (map (length \<circ> mem_view (bw_storage w)) cf_all))),
       \<lparr>bw_storage = e', bw_dirs = bw_dirs w', bw_faults = []\<rparr>) \<and>
    ok (re_db e') \<and> (\<forall>cf \<in> set cf_all. view (re_db e') cf = mem_view (bw_storage w) cf)"
proof -
  let ?v = "mem_view (bw_storage w)" and ?n = "show_nat (unat now1)"
  have d: "dump = images X (contents ?v)" using mem.dump_run [OF assms(4,5)] assms(9) by simp
  obtain w' where w': "create_snapshot X M now1 now2 now3 w = (Some (Ok ?n), w')"
    "holds_dump X w' ?n now2 (images X (contents ?v))"
    using mem.create_run [OF assms(2-8)] assms(10,11) d by blast
  let ?w = "\<lparr>bw_storage = e, bw_dirs = bw_dirs w', bw_faults = []\<rparr>"
  have "holds_dump X ?w ?n now2 (images X (contents ?v))"
    using w'(2) by (simp add: holds_dump_def bw_dir_def)
  hence "\<exists>e'. restore_snapshot X R ?n ?w =
      (Some (restore_verdict R (sum_list (map (length \<circ> ?v) cf_all))), ?w\<lparr>bw_storage := e'\<rparr>) \<and>
      ok (re_db e') \<and> (\<forall>cf \<in> set cf_all. view (re_db e') cf = ?v cf)"
    using storage_engine.restore_run [OF rocks_storage_engine [OF assms(12)] assms(1) _ _ assms(13), of ?w ?v]
      assms(14) mem.view_sorted [OF assms(4)] by simp
  with w'(1) show ?thesis by auto
qed

text \<open>The demonstration database of the round trip, moved into an empty table.\<close>

definition table_manager :: "(string \<Rightarrow> kv_map) rocks_engine backup_manager" where
  "table_manager = \<lparr>bm_engine = RocksDbEngine table_api, bm_flush = act_ok (), bm_checkpoint = (\<lambda>_. act_ok ()),
    bm_all_nodes = [NodeId 1, NodeId 2], bm_node_state = (\<lambda>_. Some Healthy), bm_config = backup_config_new\<rparr>"

theorem snapshot_moves_to_rocks_witness:
  "\<exists>X name w' e'. create_snapshot X pair_manager 5 6 7 \<lparr>bw_storage = filled, bw_dirs = [], bw_faults = []\<rparr> =
      (Some (Ok name), w') \<and>
    restore_snapshot X table_manager name
        \<lparr>bw_storage = \<lparr>re_db = \<lambda>_. [], re_sync = True\<rparr>, bw_dirs = bw_dirs w', bw_faults = []\<rparr> =
      (Some (Ok \<lparr>rp_restored_rows = 1, rp_validation =
        \<lparr>vr_checksum_ok = True, vr_schema_ok = True, vr_quorum_ok = True, vr_smoke_ok = True\<rparr>\<rparr>),
       \<lparr>bw_storage = e', bw_dirs = bw_dirs w', bw_faults = []\<rparr>) \<and>
    re_db e' CF_DEFAULT = [([1], [2])]"
proof -
  let ?m = "\<lparr>sm_created_at = 6, sm_checksums = encode_dump filled_dump\<rparr>"
  let ?X = "known_ext filled_dump ?m" and ?w = "\<lparr>bw_storage = filled, bw_dirs = [], bw_faults = []\<rparr>"
  have dump: "dump_from_engine ?X pair_manager ?w = (Some (Ok filled_dump), ?w)"
    by (rule filled_dump_run)
  have "base64_std_law ?X" "snapshot_serde_law ?X" "quiet ?w" "mem_inv (bw_storage ?w)"
    "saturating_sub 7 (bc_retention_secs (bm_config pair_manager)) \<le> 5"
    "ser_dump ?X filled_dump = Ok [0]" "ser_manifest ?X ?m = Ok [1]"
    "bm_engine table_manager = RocksDbEngine table_api"
    by (auto simp: base64_std_law_def snapshot_serde_law_def known_ext_def quiet_def filled_laws pair_manager_def
        table_manager_def backup_config_new_def saturating_sub_def)
  moreover have "restore_verdict table_manager 1 = Ok \<lparr>rp_restored_rows = 1, rp_validation =
        \<lparr>vr_checksum_ok = True, vr_schema_ok = True, vr_quorum_ok = True, vr_smoke_ok = True\<rparr>\<rparr>"
    by (simp add: restore_verdict_def quorum_ok_def table_manager_def backup_config_new_def can_serve_writes_def)
  ultimately obtain name w' e' where
    "create_snapshot ?X pair_manager 5 6 7 ?w = (Some (Ok name), w')"
    "restore_snapshot ?X table_manager name
        \<lparr>bw_storage = \<lparr>re_db = \<lambda>_. [], re_sync = True\<rparr>, bw_dirs = bw_dirs w', bw_faults = []\<rparr> =
      (Some (Ok \<lparr>rp_restored_rows = 1, rp_validation =
        \<lparr>vr_checksum_ok = True, vr_schema_ok = True, vr_quorum_ok = True, vr_smoke_ok = True\<rparr>\<rparr>),
       \<lparr>bw_storage = e', bw_dirs = bw_dirs w', bw_faults = []\<rparr>)"
    "re_db e' CF_DEFAULT = [([1], [2])]"
    using snapshot_moves_to_rocks [of ?X ?w pair_manager 7 5 filled_dump "[0]" 6 "[1]" table_api _ _ table_manager
        "\<lparr>re_db = \<lambda>_. [], re_sync = True\<rparr>", OF _ _ _ _ pair_manager_laws(1-3) _ dump _ _ table_api_laws]
      filled_laws(2) filled_rows by (auto simp: cf_all_def)
  thus ?thesis by blast
qed

end
